(* ===== verification/Unw_Prelude.thy ===== *)
theory Unw_Prelude
  imports Main "HOL-Library.Word"
begin

text \<open>
  Prelude of the libunwind-kern development: the machine integers of the x86-64 build as
  words of their width, the error codes of \<^verbatim>\<open>include/libunwind-common.h\<close>, the result type of a
  modelled C call, the C shift operators with their undefined cases, and the lemmas on words,
  lists and results that every component shares. The collection \<open>unw_simps\<close> holds the
  component equations that symbolic evaluation of a call uses.
\<close>

unbundle bit_operations_syntax

named_theorems unw_simps

section \<open>Machine integers\<close>

type_synonym u8 = "8 word"
type_synonym u16 = "16 word"
type_synonym u32 = "32 word"
type_synonym u64 = "64 word"

text \<open>\<open>unw_word_t\<close> is \<open>uint64_t\<close> and addresses have the same width.\<close>

type_synonym unw_word_t = u64
type_synonym addr = u64
type_synonym memory = "addr \<Rightarrow> u8"

section \<open>Results of a call\<close>

datatype unw_error_t =
    UNW_ESUCCESS
  | UNW_EUNSPEC
  | UNW_ENOMEM
  | UNW_EBADREG
  | UNW_EREADONLYREG
  | UNW_ESTOPUNWIND
  | UNW_EINVALIDIP
  | UNW_EBADFRAME
  | UNW_EINVAL
  | UNW_EBADVERSION
  | UNW_ENOINFO

text \<open>
  The outcome of a C call. \<open>Ok x\<close> is a non-negative return with result \<open>x\<close>; \<open>Fail e\<close> is the
  return value \<open>-e\<close>; \<open>Panic\<close> is a call of \<open>panic\<close>, \<open>abort\<close> or a failed \<open>assert\<close>; \<open>UB\<close> is an
  operation whose behaviour C leaves undefined (a shift by at least the width, a division that
  overflows, an index outside an array, a NULL dereference); \<open>Diverge\<close> is a loop that did not
  end within the fuel it was given, or that provably never ends.
\<close>

datatype 'a outcome = Ok 'a | Fail unw_error_t | Panic | UB | Diverge

primrec obind :: "'a outcome \<Rightarrow> ('a \<Rightarrow> 'b outcome) \<Rightarrow> 'b outcome" where
  "obind (Ok a) f = f a"
| "obind (Fail e) f = Fail e"
| "obind Panic f = Panic"
| "obind UB f = UB"
| "obind Diverge f = Diverge"

text \<open>A guard of the code that leads to undefined behaviour when it does not hold.\<close>

definition defined :: "bool \<Rightarrow> 'a outcome \<Rightarrow> 'a outcome" where
  "defined b r = (if b then r else UB)"

definition is_Ok :: "'a outcome \<Rightarrow> bool" where
  "is_Ok r = (\<exists>a. r = Ok a)"

text \<open>The call came back to its caller: with a value or with an error code.\<close>

definition returns :: "'a outcome \<Rightarrow> bool" where
  "returns r = (case r of Ok _ \<Rightarrow> True | Fail _ \<Rightarrow> True | _ \<Rightarrow> False)"

lemma obind_cong [fundef_cong]:
  "m = m' \<Longrightarrow> (\<And>a. m' = Ok a \<Longrightarrow> f a = f' a) \<Longrightarrow> obind m f = obind m' f'"
  by (cases m') auto

lemma obind_eq_Ok [simp]: "obind m f = Ok b \<longleftrightarrow> (\<exists>a. m = Ok a \<and> f a = Ok b)"
  by (cases m) auto

lemma obind_eq_Fail:
  "obind m f = Fail e \<longleftrightarrow> m = Fail e \<or> (\<exists>a. m = Ok a \<and> f a = Fail e)"
  by (cases m) auto

lemma obind_eq_Diverge:
  "obind m f = Diverge \<longleftrightarrow> m = Diverge \<or> (\<exists>a. m = Ok a \<and> f a = Diverge)"
  by (cases m) auto

lemma obind_assoc: "obind (obind m f) g = obind m (\<lambda>a. obind (f a) g)"
  by (cases m) auto

lemma obind_Ok_right [simp]: "obind m Ok = m"
  by (cases m) auto

lemma returns_simps [simp]:
  "returns (Ok a)" "returns (Fail e)" "\<not> returns Panic" "\<not> returns UB" "\<not> returns Diverge"
  by (simp_all add: returns_def)

lemma returns_obind:
  "returns (obind m f) \<longleftrightarrow> returns m \<and> (\<forall>a. m = Ok a \<longrightarrow> returns (f a))"
  by (cases m) auto

lemma returns_obindI [intro]:
  "returns m \<Longrightarrow> (\<And>a. m = Ok a \<Longrightarrow> returns (f a)) \<Longrightarrow> returns (obind m f)"
  by (cases m) auto

lemma returns_cases:
  assumes "returns r"
  obtains (Ok) a where "r = Ok a" | (Fail) e where "r = Fail e"
  using assms by (cases r) auto

lemma defined_simps [simp]: "defined True r = r" "defined False r = UB"
  by (simp_all add: defined_def)

lemma defined_eq_Ok [simp]: "defined b r = Ok a \<longleftrightarrow> b \<and> r = Ok a"
  by (simp add: defined_def)

section \<open>C shifts on \<open>uint64_t\<close>\<close>

definition shl64 :: "u64 \<Rightarrow> u64 \<Rightarrow> u64 outcome" where
  "shl64 x n = defined (n < 64) (Ok (push_bit (unat n) x))"

definition shr64 :: "u64 \<Rightarrow> u64 \<Rightarrow> u64 outcome" where
  "shr64 x n = defined (n < 64) (Ok (drop_bit (unat n) x))"

definition sar64 :: "u64 \<Rightarrow> u64 \<Rightarrow> u64 outcome" where
  "sar64 x n = defined (n < 64) (Ok (signed_drop_bit (unat n) x))"

lemma shl64_eq_Ok [simp]: "shl64 x n = Ok y \<longleftrightarrow> n < 64 \<and> y = push_bit (unat n) x"
  by (auto simp: shl64_def)

lemma shr64_eq_Ok [simp]: "shr64 x n = Ok y \<longleftrightarrow> n < 64 \<and> y = drop_bit (unat n) x"
  by (auto simp: shr64_def)

section \<open>Words\<close>

lemma unat_less_64: "(n :: u64) < 64 \<longleftrightarrow> unat n < 64"
  by (simp add: word_less_nat_alt)

lemma unat_u64_less: "unat (a :: u64) < 2 ^ 64"
  using unsigned_less [of a] by simp

lemma unat_eqI: "unat (a :: 'a::len word) = unat b \<Longrightarrow> a = b"
  by (rule word_unat_eq_iff [THEN iffD2])

lemma unat_add_no_wrap:
  "unat (a :: 'a::len word) + unat b < 2 ^ LENGTH('a) \<Longrightarrow> unat (a + b) = unat a + unat b"
  by (simp add: unat_word_ariths)

lemma unat_add_numeral_u64:
  fixes n :: u64
  shows "unat n + k < 2 ^ 64 \<Longrightarrow> unat (n + word_of_nat k) = unat n + k"
  by (simp add: unat_word_ariths unat_of_nat)

lemma word_of_nat_Suc_add: "(a :: 'a::len word) + word_of_nat (Suc n) = a + 1 + word_of_nat n"
  by (simp add: algebra_simps)

lemma unat_ucast_up:
  fixes w :: "'a::len word"
  assumes "LENGTH('a) \<le> LENGTH('b)"
  shows "unat (ucast w :: 'b::len word) = unat w"
proof -
  have "unat w < 2 ^ LENGTH('a)" by simp
  also have "\<dots> \<le> 2 ^ LENGTH('b)" using assms by simp
  finally show ?thesis by (simp add: unsigned_ucast_eq take_bit_nat_eq_self)
qed

lemma u8_and_80: "(b :: u8) AND 0x80 = 0 \<longleftrightarrow> \<not> bit b 7"
  using and_exp_eq_0_iff_not_bit [of b 7] by simp

lemma u8_and_40: "(b :: u8) AND 0x40 = 0 \<longleftrightarrow> \<not> bit b 6"
  using and_exp_eq_0_iff_not_bit [of b 6] by simp

lemma or_push_bit_split:
  "(w OR push_bit s x) OR push_bit (s + t) y = w OR push_bit s (x OR push_bit t (y :: 'a::len word))"
  by (simp add: push_bit_or or.assoc)

lemma low7_or_push_bit:
  "word_of_nat (n mod 128) OR push_bit 7 (word_of_nat y) =
     (word_of_nat (n mod 128 + 128 * y) :: 'a::len word)"
proof -
  have "take_bit 7 n = n mod 128" by (simp add: take_bit_eq_mod)
  then have "(word_of_nat (n mod 128) :: 'a word) = take_bit 7 (word_of_nat n)"
    by (simp add: take_bit_of_nat)
  then have "word_of_nat (n mod 128) AND push_bit 7 (word_of_nat y) = (0 :: 'a word)"
    by (auto intro!: bit_word_eqI simp: bit_simps)
  then have "word_of_nat (n mod 128) OR push_bit 7 (word_of_nat y) =
      word_of_nat (n mod 128) + (push_bit 7 (word_of_nat y) :: 'a word)"
    by (simp add: disjunctive_add_eq_or)
  then show ?thesis by (simp add: push_bit_eq_mult algebra_simps)
qed

lemma or_ones_above:
  fixes v :: "'a::len word"
  assumes "v = take_bit n v"
  shows "v OR push_bit n (- 1) = v - 2 ^ n"
proof -
  have "take_bit n v AND push_bit n (- 1) = 0"
    by (auto intro!: bit_word_eqI simp: bit_simps)
  with assms have "v OR push_bit n (- 1) = v + push_bit n (- 1)"
    by (simp add: disjunctive_add_eq_or)
  then show ?thesis by (simp add: push_bit_eq_mult)
qed

text \<open>Rounding down to a multiple of a power of two.\<close>

lemma unat_and_minus_exp:
  "unat (x AND - (2 ^ n)) = 2 ^ n * (unat (x :: 'a::len word) div 2 ^ n)"
proof -
  have "x AND - (2 ^ n) = push_bit n (drop_bit n x)"
    by (rule bit_word_eqI) (auto simp: bit_simps minus_exp_eq_not_mask)
  also have "unat \<dots> = take_bit LENGTH('a) (2 ^ n * (unat x div 2 ^ n))"
    unfolding unsigned_push_bit_eq unat_drop_bit_eq
    by (simp add: push_bit_eq_mult drop_bit_eq_div ac_simps)
  also have "\<dots> = 2 ^ n * (unat x div 2 ^ n)"
  proof -
    have "2 ^ n * (unat x div 2 ^ n) \<le> unat x" by simp
    also have "unat x < 2 ^ LENGTH('a)" by simp
    finally show ?thesis by (simp add: take_bit_nat_eq_self)
  qed
  finally show ?thesis .
qed

end
