(* ===== verification/Unw_Memory.thy ===== *)
theory Unw_Memory
  imports Unw_Prelude
begin

text \<open>
  Access to local memory and the primitive readers of DWARF data: the \<open>dwarf_read*\<close> functions of
  \<^verbatim>\<open>include/dwarf_i.h\<close> and the two LEB128 readers \<open>_ReadULEB\<close> and \<open>_ReadSLEB\<close>. Memory is a total
  map from 64-bit addresses to bytes; x86-64 is little endian. A reader takes the memory and the
  address the C code passes by reference and returns the value with the advanced address. The
  readers of fixed-size values always return 0 in the local build, so they are plain pairs; a
  LEB128 reader is undefined when it shifts by 64 or more, which is an outcome.
\<close>

section \<open>Little-endian words in memory\<close>

primrec mem_le :: "memory \<Rightarrow> nat \<Rightarrow> addr \<Rightarrow> u64" where
  "mem_le m 0 a = 0"
| "mem_le m (Suc n) a = ucast (m a) OR push_bit 8 (mem_le m n (a + 1))"

primrec mem_put :: "memory \<Rightarrow> nat \<Rightarrow> addr \<Rightarrow> u64 \<Rightarrow> memory" where
  "mem_put m 0 a v = m"
| "mem_put m (Suc n) a v = (mem_put m n (a + 1) (drop_bit 8 v))(a := ucast v)"

definition read_word :: "memory \<Rightarrow> addr \<Rightarrow> u64" where
  "read_word m a = mem_le m 8 a"

definition write_word :: "memory \<Rightarrow> addr \<Rightarrow> u64 \<Rightarrow> memory" where
  "write_word m a v = mem_put m 8 a v"

section \<open>The fixed-size readers\<close>

definition dwarf_reads8 :: "memory \<Rightarrow> addr \<Rightarrow> u8 \<times> addr" where
  "dwarf_reads8 m a = (m a, a + 1)"

definition dwarf_reads16 :: "memory \<Rightarrow> addr \<Rightarrow> u16 \<times> addr" where
  "dwarf_reads16 m a = (ucast (mem_le m 2 a), a + 2)"

definition dwarf_reads32 :: "memory \<Rightarrow> addr \<Rightarrow> u32 \<times> addr" where
  "dwarf_reads32 m a = (ucast (mem_le m 4 a), a + 4)"

definition dwarf_reads64 :: "memory \<Rightarrow> addr \<Rightarrow> u64 \<times> addr" where
  "dwarf_reads64 m a = (mem_le m 8 a, a + 8)"

definition dwarf_readu8 :: "memory \<Rightarrow> addr \<Rightarrow> u8 \<times> addr" where
  "dwarf_readu8 m a = (m a, a + 1)"

definition dwarf_readu16 :: "memory \<Rightarrow> addr \<Rightarrow> u16 \<times> addr" where
  "dwarf_readu16 m a = (ucast (mem_le m 2 a), a + 2)"

definition dwarf_readu32 :: "memory \<Rightarrow> addr \<Rightarrow> u32 \<times> addr" where
  "dwarf_readu32 m a = (ucast (mem_le m 4 a), a + 4)"

definition dwarf_readu64 :: "memory \<Rightarrow> addr \<Rightarrow> u64 \<times> addr" where
  "dwarf_readu64 m a = (mem_le m 8 a, a + 8)"

text \<open>\<open>dwarf_addr_size (as)\<close> is \<open>sizeof (unw_word_t)\<close>, so \<open>dwarf_readw\<close> takes its case 8.\<close>

definition dwarf_addr_size :: u64 where
  "dwarf_addr_size = 8"

definition dwarf_readw :: "memory \<Rightarrow> addr \<Rightarrow> (u64 \<times> addr) outcome" where
  "dwarf_readw m a =
     (if dwarf_addr_size = 4 then (let (v, a') = dwarf_readu32 m a in Ok (ucast v, a'))
      else if dwarf_addr_size = 8 then Ok (dwarf_readu64 m a)
      else Panic)"

section \<open>LEB128\<close>

text \<open>
  The loop shared by \<open>dwarf_read_uleb128\<close> and \<open>dwarf_read_sleb128\<close>: it returns the last byte
  read, the value, the final shift and the advanced address.
\<close>

function leb_loop :: "memory \<Rightarrow> addr \<Rightarrow> u64 \<Rightarrow> u64 \<Rightarrow> (u8 \<times> u64 \<times> u64 \<times> addr) outcome" where
  "leb_loop m a val shift =
     (let byte = m a in
      obind (shl64 (ucast byte AND 0x7f) shift) (\<lambda>x.
        if byte AND 0x80 \<noteq> 0 then leb_loop m (a + 1) (val OR x) (shift + 7)
        else Ok (byte, val OR x, shift + 7, a + 1)))"
  by pat_completeness auto
termination
proof (relation "measure (\<lambda>(m, a, val, shift). 128 - unat shift)", goal_cases)
  case (2 m a val shift byte x)
  then have "unat shift < 64" by (simp add: unat_less_64)
  moreover from this have "unat (shift + 7) = unat shift + 7"
    using unat_add_numeral_u64 [of shift 7] by simp
  ultimately show ?case by simp
qed simp

declare leb_loop.simps [simp del]

definition dwarf_read_uleb128 :: "memory \<Rightarrow> addr \<Rightarrow> (u64 \<times> addr) outcome" where
  "dwarf_read_uleb128 m a = obind (leb_loop m a 0 0) (\<lambda>(byte, val, shift, a'). Ok (val, a'))"

definition dwarf_read_sleb128 :: "memory \<Rightarrow> addr \<Rightarrow> (u64 \<times> addr) outcome" where
  "dwarf_read_sleb128 m a = obind (leb_loop m a 0 0) (\<lambda>(byte, val, shift, a').
     if shift < 8 * 8 \<and> byte AND 0x40 \<noteq> 0
     then obind (shl64 (- 1) shift) (\<lambda>ones. Ok (val OR ones, a'))
     else Ok (val, a'))"

text \<open>
  \<open>_ReadULEB\<close> and \<open>_ReadSLEB\<close> walk an \<open>unsigned char *\<close> with a 32-bit \<open>shift\<close>; the first
  advances \<open>shift\<close> after its exit test, the second before.
\<close>

function ReadULEB_loop :: "memory \<Rightarrow> addr \<Rightarrow> u64 \<Rightarrow> u32 \<Rightarrow> (u64 \<times> addr) outcome" where
  "ReadULEB_loop m bp result shift =
     (let byte = ucast (m bp) :: u64 in
      obind (shl64 (byte AND 0x7f) (ucast shift)) (\<lambda>x.
        if byte AND 0x80 = 0 then Ok (result OR x, bp + 1)
        else ReadULEB_loop m (bp + 1) (result OR x) (shift + 7)))"
  by pat_completeness auto
termination
proof (relation "measure (\<lambda>(m, a, val, shift). 128 - unat shift)", goal_cases)
  case (2 m a val shift byte x)
  then have "unat shift < 64"
    by (simp add: unat_less_64 unat_ucast_up)
  moreover from this have "unat (shift + 7) = unat shift + 7"
    by (simp add: unat_word_ariths)
  ultimately show ?case by simp
qed simp

declare ReadULEB_loop.simps [simp del]

definition ReadULEB :: "memory \<Rightarrow> addr \<Rightarrow> (u64 \<times> addr) outcome" where
  "ReadULEB m dpp = ReadULEB_loop m dpp 0 0"

function ReadSLEB_loop :: "memory \<Rightarrow> addr \<Rightarrow> u64 \<Rightarrow> u32 \<Rightarrow> (u64 \<times> addr) outcome" where
  "ReadSLEB_loop m bp result shift =
     (let byte = ucast (m bp) :: u64 in
      obind (shl64 (byte AND 0x7f) (ucast shift)) (\<lambda>x.
        let result = result OR x; shift = shift + 7 in
        if byte AND 0x80 = 0
        then (if shift < 8 * 8 \<and> byte AND 0x40 \<noteq> 0
              then obind (shl64 (- 1) (ucast shift)) (\<lambda>ones. Ok (result OR ones, bp + 1))
              else Ok (result, bp + 1))
        else ReadSLEB_loop m (bp + 1) result shift))"
  by pat_completeness auto
termination
proof (relation "measure (\<lambda>(m, a, val, shift). 128 - unat shift)", goal_cases)
  case (2 m a val shift byte x result shift')
  then have "unat shift < 64"
    by (simp add: unat_less_64 unat_ucast_up)
  moreover from this have "unat (shift + 7) = unat shift + 7"
    by (simp add: unat_word_ariths)
  ultimately show ?case using 2 by simp
qed simp

declare ReadSLEB_loop.simps [simp del]

definition ReadSLEB :: "memory \<Rightarrow> addr \<Rightarrow> (u64 \<times> addr) outcome" where
  "ReadSLEB m dpp = ReadSLEB_loop m dpp 0 0"

section \<open>The DWARF meaning of LEB128 data\<close>

text \<open>
  \<open>leb_value\<close> and \<open>sleb_value\<close> give the number a byte sequence denotes (DWARF, section 7.6);
  \<open>leb_shape\<close> says that exactly the last byte has its high bit clear; \<open>bytes_at\<close> that a sequence
  is in memory at an address. \<open>uleb_encode\<close> and \<open>sleb_encode\<close> are the shortest encodings.
\<close>

primrec leb_value :: "u8 list \<Rightarrow> nat" where
  "leb_value [] = 0"
| "leb_value (b # bs) = unat b mod 128 + 128 * leb_value bs"

definition sleb_value :: "u8 list \<Rightarrow> int" where
  "sleb_value bs = int (leb_value bs) - (if bit (last bs) 6 then 2 ^ (7 * length bs) else 0)"

fun leb_shape :: "u8 list \<Rightarrow> bool" where
  "leb_shape [] = False"
| "leb_shape [b] = (\<not> bit b 7)"
| "leb_shape (b # bs) = (bit b 7 \<and> leb_shape bs)"

primrec bytes_at :: "memory \<Rightarrow> addr \<Rightarrow> u8 list \<Rightarrow> bool" where
  "bytes_at m a [] = True"
| "bytes_at m a (b # bs) = (m a = b \<and> bytes_at m (a + 1) bs)"

fun uleb_encode :: "nat \<Rightarrow> u8 list" where
  "uleb_encode n =
     (if n < 128 then [word_of_nat n]
      else word_of_nat (n mod 128 + 128) # uleb_encode (n div 128))"

declare uleb_encode.simps [simp del]

function sleb_encode :: "int \<Rightarrow> u8 list" where
  "sleb_encode i =
     (if - 64 \<le> i \<and> i < 64 then [word_of_int (i mod 128)]
      else word_of_int (i mod 128 + 128) # sleb_encode (i div 128))"
  by pat_completeness auto
termination
proof (relation "measure (\<lambda>i. nat \<bar>i\<bar>)", goal_cases)
  case (2 i)
  have "128 * (i div 128) \<le> i" "i < 128 * (i div 128) + 128" by presburger+
  with 2 show ?case by (cases "i < 0") auto
qed simp

declare sleb_encode.simps [simp del]

lemma leb_shape_Cons2: "leb_shape (b # c # bs) \<longleftrightarrow> bit b 7 \<and> leb_shape (c # bs)"
  by simp

lemma ucast_and_7f: "ucast (b :: u8) AND 0x7f = (word_of_nat (unat b mod 128) :: u64)"
proof -
  have "(0x7f :: u64) = mask 7" by (simp add: mask_eq_exp_minus_1)
  then have "ucast b AND 0x7f = (take_bit 7 (ucast b) :: u64)" by (simp add: take_bit_eq_mask)
  also have "\<dots> = word_of_nat (take_bit 7 (unat b))"
    by (simp add: take_bit_of_nat [symmetric])
  finally show ?thesis by (simp add: take_bit_eq_mod)
qed

lemma leb_loop_step:
  assumes "s < 64"
  shows "leb_loop m a val (word_of_nat s) =
    (if bit (m a) 7
     then leb_loop m (a + 1) (val OR push_bit s (word_of_nat (unat (m a) mod 128)))
            (word_of_nat (s + 7))
     else Ok (m a, val OR push_bit s (word_of_nat (unat (m a) mod 128)),
            word_of_nat (s + 7), a + 1))"
proof -
  have u: "unat (word_of_nat s :: u64) = s"
    using assms by (simp add: unat_of_nat)
  with assms show ?thesis
    by (subst leb_loop.simps)
       (simp add: Let_def shl64_def unat_less_64 u8_and_80 ucast_and_7f add.commute)
qed

lemma leb_loop_correct:
  assumes "leb_shape bs" "bytes_at m a bs" "s + 7 * length bs \<le> 70"
  shows "leb_loop m a val (word_of_nat s) =
    Ok (last bs, val OR push_bit s (word_of_nat (leb_value bs)),
        word_of_nat (s + 7 * length bs), a + word_of_nat (length bs))"
  using assms
proof (induction bs arbitrary: a val s rule: leb_shape.induct)
  case (2 b)
  then show ?case by (simp add: leb_loop_step)
next
  case (3 b c cs)
  let ?v = "word_of_nat (unat b mod 128) :: u64"
  have "leb_loop m a val (word_of_nat s) =
      leb_loop m (a + 1) (val OR push_bit s ?v) (word_of_nat (s + 7))"
    using 3 by (subst leb_loop_step) simp_all
  also have "\<dots> = Ok (last (c # cs),
      (val OR push_bit s ?v) OR push_bit (s + 7) (word_of_nat (leb_value (c # cs))),
      word_of_nat (s + 7 + 7 * length (c # cs)), a + 1 + word_of_nat (length (c # cs)))"
    using 3 by (intro "3.IH") simp_all
  also have "(val OR push_bit s ?v) OR push_bit (s + 7) (word_of_nat (leb_value (c # cs)))
      = val OR push_bit s (word_of_nat (leb_value (b # c # cs)))"
    by (simp only: or_push_bit_split low7_or_push_bit leb_value.simps(2) [of b])
  finally show ?case by (simp add: algebra_simps)
qed simp

lemma leb_loop_UB:
  assumes "\<forall>i<n. bit (m (a + word_of_nat i)) 7" "s + 7 * n = 70"
  shows "leb_loop m a val (word_of_nat s) = UB"
  using assms
proof (induction n arbitrary: a val s)
  case 0
  then show ?case
    by (subst leb_loop.simps) (simp add: Let_def shl64_def)
next
  case (Suc n)
  have b: "bit (m a) 7" using Suc.prems(1) [rule_format, of 0] by simp
  have "bit (m (a + 1 + word_of_nat i)) 7" if "i < n" for i
    using Suc.prems(1) [rule_format, of "Suc i"] that by (simp add: add.assoc)
  then have "leb_loop m (a + 1) (val OR push_bit s (word_of_nat (unat (m a) mod 128)))
      (word_of_nat (s + 7)) = UB"
    using Suc.prems(2) by (intro Suc.IH) simp_all
  with b Suc.prems(2) show ?case by (simp add: leb_loop_step)
qed

text \<open>Either the first \<open>n\<close> bytes all continue, or a well-formed sequence starts at the address.\<close>

lemma leb_prefix_cases:
  "(\<forall>i<n. bit (m (a + word_of_nat i)) 7) \<or>
   (\<exists>bs. leb_shape bs \<and> bytes_at m a bs \<and> length bs \<le> n)"
proof (induction n arbitrary: a)
  case 0
  then show ?case by simp
next
  case (Suc n)
  show ?case
  proof (cases "bit (m a) 7")
    case False
    then have "leb_shape [m a] \<and> bytes_at m a [m a] \<and> length [m a] \<le> Suc n" by simp
    then show ?thesis by blast
  next
    case True
    from Suc.IH [of "a + 1"] show ?thesis
    proof
      assume all: "\<forall>i<n. bit (m (a + 1 + word_of_nat i)) 7"
      have "bit (m (a + word_of_nat i)) 7" if "i < Suc n" for i
        using all True that by (cases i) (simp_all add: add.assoc)
      then show ?thesis by blast
    next
      assume "\<exists>bs. leb_shape bs \<and> bytes_at m (a + 1) bs \<and> length bs \<le> n"
      then obtain bs where bs: "leb_shape bs" "bytes_at m (a + 1) bs" "length bs \<le> n" by blast
      then have "leb_shape (m a # bs)" using True by (cases bs) auto
      with bs have "leb_shape (m a # bs) \<and> bytes_at m a (m a # bs) \<and> length (m a # bs) \<le> Suc n"
        by simp
      then show ?thesis by blast
    qed
  qed
qed

lemma leb_value_less: "leb_value bs < 2 ^ (7 * length bs)"
proof (induction bs)
  case (Cons b bs)
  have "leb_value (b # bs) < 128 * (leb_value bs + 1)" by simp
  also have "\<dots> \<le> 128 * 2 ^ (7 * length bs)" using Cons by (intro mult_le_mono2) simp
  finally show ?case by (simp add: power_add)
qed simp

section \<open>Properties of the LEB128 readers\<close>

text \<open>C37: for every well-formed LEB128 sequence of at most ten bytes in memory,
  \<open>dwarf_read_uleb128\<close> returns the denoted number (reduced to 64 bits) and the address just
  behind the sequence.\<close>

theorem uleb128_correct:
  assumes "leb_shape bs" "bytes_at m a bs" "length bs \<le> 10"
  shows "dwarf_read_uleb128 m a = Ok (word_of_nat (leb_value bs), a + word_of_nat (length bs))"
  using leb_loop_correct [OF assms(1,2), of 0 0] assms(3)
  by (simp add: dwarf_read_uleb128_def)

theorem uleb128_correct_witness:
  "dwarf_read_uleb128 ((\<lambda>_. 0)(16 := 0xe5, 17 := 0x8e, 18 := 0x26)) 16 = Ok (624485, 19)"
  using uleb128_correct [of "[0xe5, 0x8e, 0x26]" "(\<lambda>_. 0)(16 := 0xe5, 17 := 0x8e, 18 := 0x26)" 16]
  by (simp add: bit_numeral_rec)

lemma sleb128_result:
  assumes "leb_shape bs" "bytes_at m a bs" "length bs \<le> 10"
  shows "dwarf_read_sleb128 m a = Ok (word_of_int (sleb_value bs), a + word_of_nat (length bs))"
proof -
  let ?v = "word_of_nat (leb_value bs) :: u64" and ?s = "7 * length bs"
  let ?sh = "word_of_nat ?s :: u64"
  have loop: "leb_loop m a 0 0 = Ok (last bs, ?v, ?sh, a + word_of_nat (length bs))"
    using leb_loop_correct [OF assms(1,2), of 0 0] assms(3) by simp
  have sh: "unat ?sh = ?s" using assms(3) by (simp only: unat_of_nat) simp
  have lt: "?sh < 64 \<longleftrightarrow> ?s < 64" by (simp only: unat_less_64 sh)
  have tb: "?v = take_bit ?s ?v"
    using leb_value_less [of bs] by (simp add: take_bit_of_nat take_bit_nat_eq_self)
  show ?thesis
  proof (cases "bit (last bs) 6")
    case False
    then show ?thesis
      by (simp add: dwarf_read_sleb128_def loop u8_and_40 sleb_value_def)
  next
    case True
    show ?thesis
    proof (cases "?s < 64")
      case s: True
      then have "dwarf_read_sleb128 m a = Ok (?v OR push_bit ?s (- 1), a + word_of_nat (length bs))"
        using True lt sh
        by (simp add: dwarf_read_sleb128_def loop u8_and_40 shl64_def del: of_nat_mult)
      also have "?v OR push_bit ?s (- 1) = ?v - 2 ^ ?s" by (rule or_ones_above [OF tb])
      finally show ?thesis using True by (simp add: sleb_value_def)
    next
      case s: False
      then have "(2 :: u64) ^ ?s = 0" by (simp add: exp_eq_zero_iff)
      with s True lt show ?thesis
        by (simp add: dwarf_read_sleb128_def loop sleb_value_def del: of_nat_mult)
    qed
  qed
qed

text \<open>The signed reader returns the two's complement value of every well-formed sequence of
  at most ten bytes, its sign extension included.\<close>

lemma sleb128_correct:
  assumes "leb_shape bs" "bytes_at m a bs" "length bs \<le> 10"
  shows "dwarf_read_sleb128 m a = Ok (word_of_int (sleb_value bs), a + word_of_nat (length bs))"
  using assms by (rule sleb128_result)

text \<open>A LEB128 read is undefined behaviour exactly when ten continuation bytes in a row are
  found (the next shift is by 70); in every other memory it returns a value, so the loop always
  ends and never reads more than ten bytes in a defined run.\<close>

lemma uleb128_UB_iff:
  "(dwarf_read_uleb128 m a = UB \<longleftrightarrow> (\<forall>i<10. bit (m (a + word_of_nat i)) 7)) \<and>
   (dwarf_read_uleb128 m a \<noteq> UB \<longleftrightarrow>
     (\<exists>v n. n \<le> 10 \<and> dwarf_read_uleb128 m a = Ok (v, a + word_of_nat n)))"
proof -
  let ?all = "\<forall>i<10. bit (m (a + word_of_nat i)) 7"
  have ub: "?all \<Longrightarrow> dwarf_read_uleb128 m a = UB"
    using leb_loop_UB [of 10 m a 0 0] by (simp add: dwarf_read_uleb128_def)
  have ok: "\<exists>v n. n \<le> 10 \<and> dwarf_read_uleb128 m a = Ok (v, a + word_of_nat n)" if "\<not> ?all"
  proof -
    from that leb_prefix_cases [of 10 m a] obtain bs
      where "leb_shape bs" "bytes_at m a bs" "length bs \<le> 10" by blast
    from leb_loop_correct [OF this(1,2), of 0 0] this(3) show ?thesis
      by (auto simp: dwarf_read_uleb128_def)
  qed
  show ?thesis using ub ok by fastforce
qed

lemma u8_ucast_and [simp]:
  "(ucast (b :: u8) :: u64) AND 0x80 = 0 \<longleftrightarrow> b AND 0x80 = 0"
  "(ucast (b :: u8) :: u64) AND 0x40 = 0 \<longleftrightarrow> b AND 0x40 = 0"
  using and_exp_eq_0_iff_not_bit [of "ucast b :: u64" 7]
    and_exp_eq_0_iff_not_bit [of "ucast b :: u64" 6]
  by (simp_all add: u8_and_80 u8_and_40 bit_simps)

lemma ucast_shift_7: "unat (s :: u32) < 64 \<Longrightarrow> ucast (s + 7) = (ucast s + 7 :: u64)"
  by (simp add: word_unat_eq_iff unat_ucast_up unat_word_ariths)

lemma ReadULEB_loop_eq:
  "ReadULEB_loop m a v s = obind (leb_loop m a v (ucast s)) (\<lambda>(byte, val, shift, a'). Ok (val, a'))"
proof (induction m a v s rule: ReadULEB_loop.induct)
  case (1 m a v s)
  show ?case
  proof (cases "unat s < 64")
    case True
    then have "(ucast s :: u64) < 64" by (simp add: unat_less_64 unat_ucast_up)
    with 1 True show ?thesis
      by (subst ReadULEB_loop.simps, subst leb_loop.simps)
         (simp add: Let_def shl64_def ucast_shift_7)
  next
    case False
    then have "\<not> (ucast s :: u64) < 64" by (simp add: unat_less_64 unat_ucast_up)
    then show ?thesis
      by (subst ReadULEB_loop.simps, subst leb_loop.simps) (simp add: Let_def shl64_def)
  qed
qed

lemma ReadSLEB_loop_eq:
  "ReadSLEB_loop m a v s = obind (leb_loop m a v (ucast s)) (\<lambda>(byte, val, shift, a').
     if shift < 8 * 8 \<and> byte AND 0x40 \<noteq> 0
     then obind (shl64 (- 1) shift) (\<lambda>ones. Ok (val OR ones, a'))
     else Ok (val, a'))"
proof (induction m a v s rule: ReadSLEB_loop.induct)
  case (1 m a v s)
  show ?case
  proof (cases "unat s < 64")
    case True
    then have "(ucast s :: u64) < 64" by (simp add: unat_less_64 unat_ucast_up)
    moreover have "s + 7 < 64 \<longleftrightarrow> (ucast s + 7 :: u64) < 64"
      using True by (simp add: ucast_shift_7 [symmetric] unat_less_64 unat_ucast_up)
        (simp add: word_less_nat_alt)
    ultimately show ?thesis using 1 True
      by (subst ReadSLEB_loop.simps, subst leb_loop.simps)
         (simp add: Let_def shl64_def ucast_shift_7)
  next
    case False
    then have "\<not> (ucast s :: u64) < 64" by (simp add: unat_less_64 unat_ucast_up)
    then show ?thesis
      by (subst ReadSLEB_loop.simps, subst leb_loop.simps) (simp add: Let_def shl64_def)
  qed
qed

text \<open>The pointer-based readers \<open>_ReadULEB\<close> and \<open>_ReadSLEB\<close>, with their 32-bit shift counter
  and different loop exits, compute the same results (undefined cases included) as the DWARF
  readers.\<close>

lemma ReadLEB_equiv:
  "ReadULEB m a = dwarf_read_uleb128 m a \<and> ReadSLEB m a = dwarf_read_sleb128 m a"
  by (simp add: ReadULEB_def ReadSLEB_def dwarf_read_uleb128_def dwarf_read_sleb128_def
      ReadULEB_loop_eq ReadSLEB_loop_eq)

section \<open>Round trips\<close>

lemma uleb_encode_ne: "uleb_encode n \<noteq> []"
  by (subst uleb_encode.simps) simp

lemma sleb_encode_ne: "sleb_encode i \<noteq> []"
  by (subst sleb_encode.simps) simp

lemma leb_shape_Cons: "bs \<noteq> [] \<Longrightarrow> leb_shape (b # bs) \<longleftrightarrow> bit b 7 \<and> leb_shape bs"
  by (cases bs) auto

lemma bit7_u8: "bit (b :: u8) 7 \<longleftrightarrow> 128 \<le> unat b"
proof -
  have "unat b < 256" using unsigned_less [of b] by simp
  then have "unat b div 128 < 2" by simp
  then have "odd (unat b div 128) \<longleftrightarrow> 128 \<le> unat b"
    by (cases "unat b div 128 = 0") (auto simp: div_eq_0_iff less_2_cases_iff)
  moreover have "bit b 7 \<longleftrightarrow> bit (unat b) 7" by (simp add: bit_simps)
  ultimately show ?thesis by (simp add: bit_iff_odd)
qed

lemma bit6_u8: "unat (b :: u8) < 128 \<Longrightarrow> bit b 6 \<longleftrightarrow> 64 \<le> unat b"
proof -
  assume "unat b < 128"
  then have "unat b div 64 < 2" by simp
  then have "odd (unat b div 64) \<longleftrightarrow> 64 \<le> unat b"
    by (cases "unat b div 64 = 0") (auto simp: div_eq_0_iff less_2_cases_iff)
  moreover have "bit b 6 \<longleftrightarrow> bit (unat b) 6" by (simp add: bit_simps)
  ultimately show ?thesis by (simp add: bit_iff_odd)
qed

lemma unat_u8_of_nat: "n < 256 \<Longrightarrow> unat (word_of_nat n :: u8) = n"
  by (simp add: unat_of_nat)

lemma unat_u8_of_int: "0 \<le> i \<Longrightarrow> i < 256 \<Longrightarrow> unat (word_of_int i :: u8) = nat i"
  by (simp add: nat_eq_iff unsigned_of_int take_bit_int_eq_self)

lemma uleb_encode_shape: "leb_shape (uleb_encode n)"
proof (induction n rule: uleb_encode.induct)
  case (1 n)
  then show ?case
    by (subst uleb_encode.simps)
       (auto simp: leb_shape_Cons uleb_encode_ne bit7_u8 unat_u8_of_nat simp del: of_nat_add)
qed

lemma uleb_encode_value: "leb_value (uleb_encode n) = n"
proof (induction n rule: uleb_encode.induct)
  case (1 n)
  then show ?case
    by (subst uleb_encode.simps) (auto simp: unat_u8_of_nat simp del: of_nat_add)
qed

lemma uleb_encode_length: "n < 128 ^ Suc k \<Longrightarrow> length (uleb_encode n) \<le> Suc k"
proof (induction n arbitrary: k rule: uleb_encode.induct)
  case (1 n)
  show ?case
  proof (cases "n < 128")
    case True
    then show ?thesis by (simp add: uleb_encode.simps [of n])
  next
    case False
    with "1.prems" obtain j where k: "k = Suc j" by (cases k) auto
    with "1.prems" have "n div 128 < 128 ^ Suc j"
      by (intro less_mult_imp_div_less) (simp add: mult.commute)
    with "1.IH" False have "length (uleb_encode (n div 128)) \<le> Suc j" by blast
    with False k show ?thesis by (simp add: uleb_encode.simps [of n])
  qed
qed

lemma sleb_value_Cons:
  "bs \<noteq> [] \<Longrightarrow> sleb_value (b # bs) = int (unat b mod 128) + 128 * sleb_value bs"
  by (simp add: sleb_value_def power_add algebra_simps)

lemma sleb_encode_shape: "leb_shape (sleb_encode i)"
proof (induction i rule: sleb_encode.induct)
  case (1 i)
  have "0 \<le> i mod 128" "i mod 128 < 128" by simp_all
  with 1 show ?case
    by (subst sleb_encode.simps)
       (auto simp: leb_shape_Cons sleb_encode_ne bit7_u8 unat_u8_of_int nat_le_iff
         simp del: of_int_add)
qed

lemma sleb_encode_value: "sleb_value (sleb_encode i) = i"
proof (induction i rule: sleb_encode.induct)
  case (1 i)
  have m: "0 \<le> i mod 128" "i mod 128 < 128" by simp_all
  show ?case
  proof (cases "- 64 \<le> i \<and> i < 64")
    case True
    let ?b = "word_of_int (i mod 128) :: u8"
    have u: "unat ?b = nat (i mod 128)" using m by (simp add: unat_u8_of_int)
    have "bit ?b 6 \<longleftrightarrow> 64 \<le> i mod 128" using bit6_u8 [of ?b] u m
      by (simp add: nat_less_iff le_nat_iff)
    moreover have "64 \<le> i mod 128 \<longleftrightarrow> i < 0" using True by presburger
    moreover have "i mod 128 = (if i < 0 then i + 128 else i)" using True by presburger
    ultimately show ?thesis using True u m
      by (simp add: sleb_encode.simps [of i] sleb_value_def)
  next
    case False
    have "unat (word_of_int (i mod 128 + 128) :: u8) mod 128 = nat (i mod 128)"
      using m by (simp add: unat_u8_of_int nat_add_distrib del: of_int_add)
    with False 1 m show ?thesis
      by (auto simp: sleb_encode.simps [of i] sleb_value_Cons sleb_encode_ne simp del: of_int_add)
  qed
qed

lemma sleb_encode_length:
  "- 64 * 128 ^ k \<le> i \<Longrightarrow> i < 64 * 128 ^ k \<Longrightarrow> length (sleb_encode i) \<le> Suc k"
proof (induction i arbitrary: k rule: sleb_encode.induct)
  case (1 i)
  show ?case
  proof (cases "- 64 \<le> i \<and> i < 64")
    case True
    then show ?thesis by (simp add: sleb_encode.simps [of i])
  next
    case False
    with "1.prems" obtain j where k: "k = Suc j" by (cases k) auto
    have d: "128 * (i div 128) \<le> i" "i < 128 * (i div 128) + 128" by presburger+
    have "- 64 * 128 ^ j \<le> i div 128"
    proof -
      from d "1.prems"(1) k have "128 * (- 64 * 128 ^ j) < 128 * (i div 128 + 1)" by simp
      then have "- 64 * 128 ^ j < i div 128 + 1" by (subst (asm) mult_less_cancel_left_pos) simp_all
      then show ?thesis by (simp only: zless_add1_eq order_le_less)
    qed
    moreover have "i div 128 < 64 * 128 ^ j" using "1.prems"(2) d k by simp
    ultimately have "- 64 * 128 ^ j \<le> i div 128" "i div 128 < 64 * 128 ^ j" by blast+
    with "1.IH" False have "length (sleb_encode (i div 128)) \<le> Suc j" by blast
    with False k show ?thesis by (simp add: sleb_encode.simps [of i])
  qed
qed

lemma pow_128_10: "(2 :: nat) ^ 64 \<le> 128 ^ 10" "(2 :: int) ^ 63 \<le> 64 * 128 ^ 9"
  by simp_all

lemma read_uleb_encode:
  assumes "bytes_at m a (uleb_encode (unat v))"
  shows "dwarf_read_uleb128 m a = Ok (v, a + word_of_nat (length (uleb_encode (unat v))))"
proof -
  have "unat v < 2 ^ LENGTH(64)" by (rule unsigned_less)
  then have "unat v < 128 ^ Suc 9" by simp
  then have "length (uleb_encode (unat v)) \<le> 10" using uleb_encode_length by fastforce
  then show ?thesis
    using leb_loop_correct [OF uleb_encode_shape assms, of 0 0]
    by (simp add: dwarf_read_uleb128_def uleb_encode_value)
qed

text \<open>Reading back the shortest unsigned encoding of any 64-bit value gives the value, and
  leaves the address behind the encoding.\<close>

lemma uleb128_roundtrip:
  assumes "bytes_at m a (uleb_encode (unat v))"
  shows "dwarf_read_uleb128 m a = Ok (v, a + word_of_nat (length (uleb_encode (unat v))))"
  using assms by (rule read_uleb_encode)

lemma sleb_encode_length_64: "length (sleb_encode (sint (v :: u64))) \<le> 10"
proof -
  have "- (2 ^ 63) \<le> sint v" "sint v < 2 ^ 63"
    using sint_greater_eq [of v] sint_less [of v] by simp_all
  then have "length (sleb_encode (sint v)) \<le> Suc 9"
    using pow_128_10(2) by (intro sleb_encode_length) simp_all
  then show ?thesis by simp
qed

lemma read_sleb_encode:
  assumes "bytes_at m a (sleb_encode (sint v))"
  shows "dwarf_read_sleb128 m a = Ok (v, a + word_of_nat (length (sleb_encode (sint v))))"
  using sleb128_result [OF sleb_encode_shape assms] sleb_encode_length_64 [of v]
  by (simp add: sleb_encode_value)

text \<open>Reading back the shortest signed encoding of any 64-bit value gives the value.\<close>

lemma sleb128_roundtrip:
  assumes "bytes_at m a (sleb_encode (sint v))"
  shows "dwarf_read_sleb128 m a = Ok (v, a + word_of_nat (length (sleb_encode (sint v))))"
  using assms by (rule read_sleb_encode)

lemma mem_le_cong:
  "(\<And>i. i < n \<Longrightarrow> m (a + word_of_nat i) = m' (a + word_of_nat i)) \<Longrightarrow> mem_le m n a = mem_le m' n a"
proof (induction n arbitrary: a)
  case (Suc n)
  have "mem_le m n (a + 1) = mem_le m' n (a + 1)"
  proof (rule Suc.IH)
    fix i assume "i < n"
    with Suc.prems [of "Suc i"] show "m (a + 1 + word_of_nat i) = m' (a + 1 + word_of_nat i)"
      by (simp add: add.assoc)
  qed
  moreover have "m a = m' a" using Suc.prems [of 0] by simp
  ultimately show ?case by simp
qed simp

lemma mem_put_other:
  "(\<And>i. i < n \<Longrightarrow> b \<noteq> a + word_of_nat i) \<Longrightarrow> mem_put m n a v b = m b"
proof (induction n arbitrary: a v)
  case (Suc n)
  have "mem_put m n (a + 1) (drop_bit 8 v) b = m b"
  proof (rule Suc.IH)
    fix i assume "i < n"
    with Suc.prems [of "Suc i"] show "b \<noteq> a + 1 + word_of_nat i" by (simp add: add.assoc)
  qed
  moreover have "b \<noteq> a" using Suc.prems [of 0] by simp
  ultimately show ?case by simp
qed simp

lemma add_word_of_nat_neq:
  "0 < i \<Longrightarrow> i < 2 ^ 64 \<Longrightarrow> (a :: u64) + word_of_nat i \<noteq> a"
  by (auto simp: word_of_nat_eq_0_iff dest: dvd_imp_le)

lemma take_bit_Suc8:
  "ucast (ucast v :: u8) OR push_bit 8 (take_bit k (drop_bit 8 v)) = take_bit (k + 8) (v :: u64)"
  by (rule bit_word_eqI) (auto simp: bit_simps)

lemma mem_le_put: "n \<le> 8 \<Longrightarrow> mem_le (mem_put m n a v) n a = take_bit (8 * n) v"
proof (induction n arbitrary: a v)
  case (Suc n)
  let ?m = "mem_put m n (a + 1) (drop_bit 8 v)"
  have "mem_le (?m(a := ucast v)) n (a + 1) = mem_le ?m n (a + 1)"
  proof (rule mem_le_cong)
    fix i assume "i < n"
    with Suc.prems add_word_of_nat_neq [of "Suc i" a]
    show "(?m(a := ucast v)) (a + 1 + word_of_nat i) = ?m (a + 1 + word_of_nat i)"
      by (simp add: add.assoc)
  qed
  also have "\<dots> = take_bit (8 * n) (drop_bit 8 v)" using Suc by simp
  finally show ?case by (simp only: mem_le.simps mem_put.simps fun_upd_same take_bit_Suc8)
      (simp add: algebra_simps)
qed simp

lemma read_write_same [simp]: "read_word (write_word m a v) a = v"
  by (simp add: read_word_def write_word_def mem_le_put take_bit_word_eq_self)

text \<open>Two words that do not overlap.\<close>

definition apart :: "addr \<Rightarrow> addr \<Rightarrow> bool" where
  "apart a b = (\<forall>i<8. \<forall>j<8. a + word_of_nat i \<noteq> b + word_of_nat j)"

lemma apart_sym: "apart a b \<Longrightarrow> apart b a"
  unfolding apart_def by metis

lemma read_write_apart:
  assumes "apart a b"
  shows "read_word (write_word m a v) b = read_word m b"
  unfolding read_word_def write_word_def
  by (rule mem_le_cong, rule mem_put_other) (use assms in \<open>metis apart_def\<close>)

text \<open>A word store is read back by the word readers, and leaves every byte outside its eight
  untouched.\<close>

lemma write_word_read:
  "read_word (write_word m a v) a = v \<and> dwarf_readw (write_word m a v) a = Ok (v, a + 8) \<and>
   (\<forall>b. (\<exists>i<8. b = a + word_of_nat i) \<or> write_word m a v b = m b)"
proof -
  have "mem_le (write_word m a v) 8 a = v"
    by (simp add: write_word_def mem_le_put take_bit_word_eq_self)
  then show ?thesis
    by (auto simp: read_word_def dwarf_readw_def dwarf_addr_size_def dwarf_readu64_def
        write_word_def intro: mem_put_other)
qed

end
