(* ===== verification/Dwarf_Types.thy ===== *)
theory Dwarf_Types
  imports Unw_Prelude
begin

text \<open>
  The data model: the enumerations, constants and structures of \<^verbatim>\<open>include/dwarf.h\<close>,
  \<^verbatim>\<open>include/libunwind-common.h\<close>, \<^verbatim>\<open>include/libunwind-x86_64.h\<close>,
  \<^verbatim>\<open>include/libunwind-dynamic.h\<close> and the two \<^verbatim>\<open>include/tdep-x86_64\<close> headers, in the configuration the
  kernel module is built in (\<open>UNW_LOCAL_ONLY\<close>, no \<open>CONFIG_MSABI_SUPPORT\<close>). An opcode byte is
  decoded into the source's enumeration by \<open>dwarf_expr_op\<close> and \<open>dwarf_cfa_op\<close>; a byte that is no
  enumerator keeps its value.
\<close>

section \<open>Register numbers\<close>

abbreviation (input) RAX :: nat where "RAX \<equiv> 0"
abbreviation (input) RDX :: nat where "RDX \<equiv> 1"
abbreviation (input) RCX :: nat where "RCX \<equiv> 2"
abbreviation (input) RBX :: nat where "RBX \<equiv> 3"
abbreviation (input) RSI :: nat where "RSI \<equiv> 4"
abbreviation (input) RDI :: nat where "RDI \<equiv> 5"
abbreviation (input) RBP :: nat where "RBP \<equiv> 6"
abbreviation (input) RSP :: nat where "RSP \<equiv> 7"
abbreviation (input) R8 :: nat where "R8 \<equiv> 8"
abbreviation (input) R9 :: nat where "R9 \<equiv> 9"
abbreviation (input) R10 :: nat where "R10 \<equiv> 10"
abbreviation (input) R11 :: nat where "R11 \<equiv> 11"
abbreviation (input) R12 :: nat where "R12 \<equiv> 12"
abbreviation (input) R13 :: nat where "R13 \<equiv> 13"
abbreviation (input) R14 :: nat where "R14 \<equiv> 14"
abbreviation (input) R15 :: nat where "R15 \<equiv> 15"
abbreviation (input) RIP :: nat where "RIP \<equiv> 16"

text \<open>The API numbers \<open>UNW_X86_64_RAX\<close> to \<open>UNW_X86_64_RIP\<close> are the same, followed by the CFA.\<close>

abbreviation (input) UNW_X86_64_CFA :: nat where "UNW_X86_64_CFA \<equiv> 17"
abbreviation (input) UNW_REG_LAST :: nat where "UNW_REG_LAST \<equiv> 16"

definition DWARF_NUM_PRESERVED_REGS :: nat where
  "DWARF_NUM_PRESERVED_REGS = 17"

definition DWARF_REGNUM_MAP_LENGTH :: nat where
  "DWARF_REGNUM_MAP_LENGTH = DWARF_NUM_PRESERVED_REGS"

definition DWARF_CFA_REG_COLUMN :: nat where
  "DWARF_CFA_REG_COLUMN = DWARF_NUM_PRESERVED_REGS"

definition DWARF_CFA_OFF_COLUMN :: nat where
  "DWARF_CFA_OFF_COLUMN = DWARF_NUM_PRESERVED_REGS + 1"

lemmas column_defs = DWARF_NUM_PRESERVED_REGS_def DWARF_REGNUM_MAP_LENGTH_def
  DWARF_CFA_REG_COLUMN_def DWARF_CFA_OFF_COLUMN_def

definition dwarf_to_unw_regnum_map :: "nat list" where
  "dwarf_to_unw_regnum_map =
     [RAX, RDX, RCX, RBX, RSI, RDI, RBP, RSP, R8, R9, R10, R11, R12, R13, R14, R15, RIP]"

text \<open>
  The macro tests \<open>reg <= DWARF_REGNUM_MAP_LENGTH\<close> before it indexes the table of that length, so
  the register number 17 reads past the table.
\<close>

definition dwarf_to_unw_regnum :: "u64 \<Rightarrow> nat outcome" where
  "dwarf_to_unw_regnum reg =
     (if unat reg \<le> DWARF_REGNUM_MAP_LENGTH
      then defined (unat reg < length dwarf_to_unw_regnum_map)
             (Ok (dwarf_to_unw_regnum_map ! unat reg))
      else Ok 0)"

section \<open>DWARF expression opcodes\<close>

datatype dwarf_expr_op_t =
    DW_OP_addr | DW_OP_deref
  | DW_OP_const1u | DW_OP_const1s | DW_OP_const2u | DW_OP_const2s
  | DW_OP_const4u | DW_OP_const4s | DW_OP_const8u | DW_OP_const8s
  | DW_OP_constu | DW_OP_consts
  | DW_OP_dup | DW_OP_drop | DW_OP_over | DW_OP_pick | DW_OP_swap | DW_OP_rot
  | DW_OP_xderef | DW_OP_abs | DW_OP_and | DW_OP_div | DW_OP_minus | DW_OP_mod
  | DW_OP_mul | DW_OP_neg | DW_OP_not | DW_OP_or | DW_OP_plus | DW_OP_plus_uconst
  | DW_OP_shl | DW_OP_shr | DW_OP_shra | DW_OP_xor | DW_OP_skip | DW_OP_bra
  | DW_OP_eq | DW_OP_ge | DW_OP_gt | DW_OP_le | DW_OP_lt | DW_OP_ne
  | DW_OP_lit u8 | DW_OP_reg u8 | DW_OP_breg u8
  | DW_OP_regx | DW_OP_fbreg | DW_OP_bregx | DW_OP_piece
  | DW_OP_deref_size | DW_OP_xderef_size | DW_OP_nop | DW_OP_push_object_address
  | DW_OP_call2 | DW_OP_call4 | DW_OP_call_ref
  | DW_OP_unknown u8

text \<open>
  The value of each enumerator: \<open>DW_OP_lit\<close>, \<open>DW_OP_reg\<close> and \<open>DW_OP_breg\<close> carry the number that
  follows the name in the source (\<open>DW_OP_lit7\<close> is \<open>DW_OP_lit 7\<close>).
\<close>

definition dwarf_expr_op :: "u8 \<Rightarrow> dwarf_expr_op_t" where
  "dwarf_expr_op b =
    (if b = 0x03 then DW_OP_addr else if b = 0x06 then DW_OP_deref
     else if b = 0x08 then DW_OP_const1u else if b = 0x09 then DW_OP_const1s
     else if b = 0x0a then DW_OP_const2u else if b = 0x0b then DW_OP_const2s
     else if b = 0x0c then DW_OP_const4u else if b = 0x0d then DW_OP_const4s
     else if b = 0x0e then DW_OP_const8u else if b = 0x0f then DW_OP_const8s
     else if b = 0x10 then DW_OP_constu else if b = 0x11 then DW_OP_consts
     else if b = 0x12 then DW_OP_dup else if b = 0x13 then DW_OP_drop
     else if b = 0x14 then DW_OP_over else if b = 0x15 then DW_OP_pick
     else if b = 0x16 then DW_OP_swap else if b = 0x17 then DW_OP_rot
     else if b = 0x18 then DW_OP_xderef else if b = 0x19 then DW_OP_abs
     else if b = 0x1a then DW_OP_and else if b = 0x1b then DW_OP_div
     else if b = 0x1c then DW_OP_minus else if b = 0x1d then DW_OP_mod
     else if b = 0x1e then DW_OP_mul else if b = 0x1f then DW_OP_neg
     else if b = 0x20 then DW_OP_not else if b = 0x21 then DW_OP_or
     else if b = 0x22 then DW_OP_plus else if b = 0x23 then DW_OP_plus_uconst
     else if b = 0x24 then DW_OP_shl else if b = 0x25 then DW_OP_shr
     else if b = 0x26 then DW_OP_shra else if b = 0x27 then DW_OP_xor
     else if b = 0x2f then DW_OP_skip else if b = 0x28 then DW_OP_bra
     else if b = 0x29 then DW_OP_eq else if b = 0x2a then DW_OP_ge
     else if b = 0x2b then DW_OP_gt else if b = 0x2c then DW_OP_le
     else if b = 0x2d then DW_OP_lt else if b = 0x2e then DW_OP_ne
     else if 0x30 \<le> b \<and> b \<le> 0x4f then DW_OP_lit (b - 0x30)
     else if 0x50 \<le> b \<and> b \<le> 0x6f then DW_OP_reg (b - 0x50)
     else if 0x70 \<le> b \<and> b \<le> 0x8f then DW_OP_breg (b - 0x70)
     else if b = 0x90 then DW_OP_regx else if b = 0x91 then DW_OP_fbreg
     else if b = 0x92 then DW_OP_bregx else if b = 0x93 then DW_OP_piece
     else if b = 0x94 then DW_OP_deref_size else if b = 0x95 then DW_OP_xderef_size
     else if b = 0x96 then DW_OP_nop else if b = 0x97 then DW_OP_push_object_address
     else if b = 0x98 then DW_OP_call2 else if b = 0x99 then DW_OP_call4
     else if b = 0x9a then DW_OP_call_ref
     else DW_OP_unknown b)"

section \<open>Call frame instructions\<close>

definition DWARF_CIE_VERSION :: u8 where "DWARF_CIE_VERSION = 3"
definition DWARF_CFA_OPCODE_MASK :: u8 where "DWARF_CFA_OPCODE_MASK = 0xc0"
definition DWARF_CFA_OPERAND_MASK :: u8 where "DWARF_CFA_OPERAND_MASK = 0x3f"

datatype dwarf_cfa_t =
    DW_CFA_advance_loc | DW_CFA_offset | DW_CFA_restore
  | DW_CFA_nop | DW_CFA_set_loc | DW_CFA_advance_loc1 | DW_CFA_advance_loc2
  | DW_CFA_advance_loc4 | DW_CFA_offset_extended | DW_CFA_restore_extended
  | DW_CFA_undefined | DW_CFA_same_value | DW_CFA_register
  | DW_CFA_remember_state | DW_CFA_restore_state
  | DW_CFA_def_cfa | DW_CFA_def_cfa_register | DW_CFA_def_cfa_offset
  | DW_CFA_def_cfa_expression | DW_CFA_expression | DW_CFA_offset_extended_sf
  | DW_CFA_def_cfa_sf | DW_CFA_def_cfa_offset_sf
  | DW_CFA_lo_user | DW_CFA_MIPS_advance_loc8 | DW_CFA_GNU_window_save
  | DW_CFA_GNU_args_size | DW_CFA_GNU_negative_offset_extended | DW_CFA_hi_user
  | DW_CFA_unknown u8

definition dwarf_cfa_op :: "u8 \<Rightarrow> dwarf_cfa_t" where
  "dwarf_cfa_op b =
    (if b = 0x40 then DW_CFA_advance_loc else if b = 0x80 then DW_CFA_offset
     else if b = 0xc0 then DW_CFA_restore else if b = 0x00 then DW_CFA_nop
     else if b = 0x01 then DW_CFA_set_loc else if b = 0x02 then DW_CFA_advance_loc1
     else if b = 0x03 then DW_CFA_advance_loc2 else if b = 0x04 then DW_CFA_advance_loc4
     else if b = 0x05 then DW_CFA_offset_extended else if b = 0x06 then DW_CFA_restore_extended
     else if b = 0x07 then DW_CFA_undefined else if b = 0x08 then DW_CFA_same_value
     else if b = 0x09 then DW_CFA_register else if b = 0x0a then DW_CFA_remember_state
     else if b = 0x0b then DW_CFA_restore_state else if b = 0x0c then DW_CFA_def_cfa
     else if b = 0x0d then DW_CFA_def_cfa_register else if b = 0x0e then DW_CFA_def_cfa_offset
     else if b = 0x0f then DW_CFA_def_cfa_expression else if b = 0x10 then DW_CFA_expression
     else if b = 0x11 then DW_CFA_offset_extended_sf else if b = 0x12 then DW_CFA_def_cfa_sf
     else if b = 0x13 then DW_CFA_def_cfa_offset_sf else if b = 0x1c then DW_CFA_lo_user
     else if b = 0x1d then DW_CFA_MIPS_advance_loc8 else if b = 0x2d then DW_CFA_GNU_window_save
     else if b = 0x2e then DW_CFA_GNU_args_size
     else if b = 0x2f then DW_CFA_GNU_negative_offset_extended
     else if b = 0x3c then DW_CFA_hi_user
     else DW_CFA_unknown b)"

section \<open>Pointer encodings\<close>

abbreviation (input) DW_EH_PE_FORMAT_MASK :: u8 where "DW_EH_PE_FORMAT_MASK \<equiv> 0x0f"
abbreviation (input) DW_EH_PE_APPL_MASK :: u8 where "DW_EH_PE_APPL_MASK \<equiv> 0x70"
abbreviation (input) DW_EH_PE_indirect :: u8 where "DW_EH_PE_indirect \<equiv> 0x80"
abbreviation (input) DW_EH_PE_omit :: u8 where "DW_EH_PE_omit \<equiv> 0xff"
abbreviation (input) DW_EH_PE_ptr :: u8 where "DW_EH_PE_ptr \<equiv> 0x00"
abbreviation (input) DW_EH_PE_uleb128 :: u8 where "DW_EH_PE_uleb128 \<equiv> 0x01"
abbreviation (input) DW_EH_PE_udata2 :: u8 where "DW_EH_PE_udata2 \<equiv> 0x02"
abbreviation (input) DW_EH_PE_udata4 :: u8 where "DW_EH_PE_udata4 \<equiv> 0x03"
abbreviation (input) DW_EH_PE_udata8 :: u8 where "DW_EH_PE_udata8 \<equiv> 0x04"
abbreviation (input) DW_EH_PE_sleb128 :: u8 where "DW_EH_PE_sleb128 \<equiv> 0x09"
abbreviation (input) DW_EH_PE_sdata2 :: u8 where "DW_EH_PE_sdata2 \<equiv> 0x0a"
abbreviation (input) DW_EH_PE_sdata4 :: u8 where "DW_EH_PE_sdata4 \<equiv> 0x0b"
abbreviation (input) DW_EH_PE_sdata8 :: u8 where "DW_EH_PE_sdata8 \<equiv> 0x0c"
abbreviation (input) DW_EH_PE_absptr :: u8 where "DW_EH_PE_absptr \<equiv> 0x00"
abbreviation (input) DW_EH_PE_pcrel :: u8 where "DW_EH_PE_pcrel \<equiv> 0x10"
abbreviation (input) DW_EH_PE_textrel :: u8 where "DW_EH_PE_textrel \<equiv> 0x20"
abbreviation (input) DW_EH_PE_datarel :: u8 where "DW_EH_PE_datarel \<equiv> 0x30"
abbreviation (input) DW_EH_PE_funcrel :: u8 where "DW_EH_PE_funcrel \<equiv> 0x40"
abbreviation (input) DW_EH_PE_aligned :: u8 where "DW_EH_PE_aligned \<equiv> 0x50"

section \<open>Register save rules and the CFI state\<close>

datatype dwarf_where_t =
    DWARF_WHERE_UNDEF
  | DWARF_WHERE_SAME
  | DWARF_WHERE_CFAREL
  | DWARF_WHERE_REG
  | DWARF_WHERE_EXPR

record dwarf_save_loc_t =
  sl_where :: dwarf_where_t
  sl_val :: u64

text \<open>
  The array \<open>reg\<close> has \<open>DWARF_NUM_PRESERVED_REGS + 2\<close> entries. The member \<open>next\<close> of the C structure
  links the register states saved by \<open>DW_CFA_remember_state\<close>; the model keeps those in a list.
\<close>

record dwarf_reg_state_t =
  rs_reg :: "dwarf_save_loc_t list"
  rs_ip :: u64
  rs_ret_addr_column :: u64
  rs_lru_chain :: u16
  rs_coll_chain :: u16
  rs_hint :: u16
  rs_valid :: bool
  rs_signal_frame :: bool

record dwarf_cie_info_t =
  cie_instr_start :: u64
  cie_instr_end :: u64
  fde_instr_start :: u64
  fde_instr_end :: u64
  code_align :: u64
  data_align :: u64
  dci_ret_addr_column :: u64
  dci_handler :: u64
  dci_abi :: u16
  dci_tag :: u16
  dci_fde_encoding :: u8
  dci_lsda_encoding :: u8
  sized_augmentation :: bool
  have_abi_marker :: bool
  dci_signal_frame :: bool

record dwarf_state_record_t =
  sr_fde_encoding :: u8
  sr_args_size :: u64
  rs_initial :: dwarf_reg_state_t
  rs_current :: dwarf_reg_state_t

section \<open>Procedure information\<close>

datatype unw_dyn_info_format_t =
    UNW_INFO_FORMAT_DYNAMIC
  | UNW_INFO_FORMAT_TABLE
  | UNW_INFO_FORMAT_REMOTE_TABLE
  | UNW_INFO_FORMAT_ARM_EXIDX

text \<open>
  \<open>unwind_info\<close> is a \<open>void *\<close>: NULL, a \<open>struct dwarf_cie_info\<close> in an object of the pool
  \<open>dwarf_cie_info_pool\<close> (its address and its contents), or a registered \<open>unw_dyn_info_t\<close>.
\<close>

datatype unwind_info_t =
    UI_NULL
  | UI_cie addr dwarf_cie_info_t
  | UI_dyn addr

record unw_proc_info_t =
  start_ip :: u64
  end_ip :: u64
  pi_lsda :: u64
  pi_handler :: u64
  pi_gp :: u64
  pi_flags :: u64
  pi_format :: unw_dyn_info_format_t
  pi_unwind_info_size :: nat
  pi_unwind_info :: unwind_info_t

text \<open>\<open>memset (pi, 0, sizeof (*pi))\<close>; format 0 is \<open>UNW_INFO_FORMAT_DYNAMIC\<close>.\<close>

definition zero_proc_info :: unw_proc_info_t where
  "zero_proc_info = \<lparr>start_ip = 0, end_ip = 0, pi_lsda = 0, pi_handler = 0, pi_gp = 0,
     pi_flags = 0, pi_format = UNW_INFO_FORMAT_DYNAMIC, pi_unwind_info_size = 0,
     pi_unwind_info = UI_NULL\<rparr>"

definition UNW_PI_FLAG_DEBUG_FRAME :: u64 where
  "UNW_PI_FLAG_DEBUG_FRAME = 32"

section \<open>Cursors\<close>

datatype unw_tdep_frame_type_t =
    UNW_X86_64_FRAME_STANDARD
  | UNW_X86_64_FRAME_SIGRETURN
  | UNW_X86_64_FRAME_OTHER
  | UNW_X86_64_FRAME_GUESSED

record unw_tdep_frame_t =
  virtual_address :: u64
  frame_type :: unw_tdep_frame_type_t
  last_frame :: bool
  cfa_reg_rsp :: bool
  cfa_reg_offset :: int
  rbp_cfa_offset :: int
  rsp_cfa_offset :: int

datatype sigcontext_format_t =
    X86_64_SCF_NONE
  | X86_64_SCF_LINUX_RT_SIGFRAME
  | X86_64_SCF_FREEBSD_SIGFRAME
  | X86_64_SCF_FREEBSD_SYSCALL

text \<open>
  In the local build a \<open>dwarf_loc_t\<close> has the single member \<open>val\<close>, the address a register was saved
  at; 0 is \<open>DWARF_NULL_LOC\<close>.
\<close>

type_synonym dwarf_loc_t = u64

definition DWARF_NULL_LOC :: dwarf_loc_t where
  "DWARF_NULL_LOC = 0"

definition DWARF_IS_NULL_LOC :: "dwarf_loc_t \<Rightarrow> bool" where
  "DWARF_IS_NULL_LOC l = (l = 0)"

text \<open>
  \<open>struct cursor\<close> starts with its \<open>struct dwarf_cursor\<close>, so a cursor is the record of the DWARF
  cursor extended by the machine-dependent members. \<open>as\<close> is the local address space and \<open>as_arg\<close>
  the cursor itself, for every cursor \<open>unw_init_local\<close> makes.
\<close>

record dwarf_cursor =
  c_cfa :: u64
  c_ip :: u64
  c_args_size :: u64
  c_ret_addr_column :: u64
  c_eh_args :: "u64 list"
  c_eh_valid_mask :: u32
  c_loc :: "dwarf_loc_t list"
  c_stash_frames :: bool
  c_use_prev_instr :: bool
  c_pi_valid :: bool
  c_pi_is_dynamic :: bool
  c_pi :: unw_proc_info_t
  c_hint :: u16
  c_prev_rs :: u16

record cursor = dwarf_cursor +
  c_frame_info :: unw_tdep_frame_t
  c_sigcontext_format :: sigcontext_format_t
  c_sigcontext_addr :: u64
  c_validate :: bool
  c_uc :: addr

end
