(* ===== verification/Unw_Pointer.thy ===== *)
theory Unw_Pointer
  imports Unw_Memory Dwarf_Types
begin

text \<open>
  Encoded pointers: \<open>dwarf_read_encoded_pointer_inlined\<close> of \<^verbatim>\<open>include/dwarf_i.h\<close>, which
  \<^verbatim>\<open>Gpe.c\<close> exports as \<open>dwarf_read_encoded_pointer\<close>. The format nibble of the encoding selects how
  the value is stored, the application bits what it is relative to, and the indirect bit a final
  load. The result pairs the value with the advanced address.
\<close>

section \<open>The reader\<close>

text \<open>The first switch: the value in its stored format.\<close>

definition read_pointer_format :: "memory \<Rightarrow> addr \<Rightarrow> u8 \<Rightarrow> (u64 \<times> addr) outcome" where
  "read_pointer_format m a encoding =
     (let fmt = encoding AND DW_EH_PE_FORMAT_MASK in
      if fmt = DW_EH_PE_ptr then dwarf_readw m a
      else if fmt = DW_EH_PE_uleb128 then dwarf_read_uleb128 m a
      else if fmt = DW_EH_PE_udata2 then (let (v, a') = dwarf_readu16 m a in Ok (ucast v, a'))
      else if fmt = DW_EH_PE_udata4 then (let (v, a') = dwarf_readu32 m a in Ok (ucast v, a'))
      else if fmt = DW_EH_PE_udata8 then (let (v, a') = dwarf_readu64 m a in Ok (v, a'))
      else if fmt = DW_EH_PE_sleb128 then dwarf_read_uleb128 m a
      else if fmt = DW_EH_PE_sdata2 then (let (v, a') = dwarf_reads16 m a in Ok (scast v, a'))
      else if fmt = DW_EH_PE_sdata4 then (let (v, a') = dwarf_reads32 m a in Ok (scast v, a'))
      else if fmt = DW_EH_PE_sdata8 then (let (v, a') = dwarf_reads64 m a in Ok (v, a'))
      else Fail UNW_EINVAL)"

text \<open>The second switch: the base the value is relative to.\<close>

definition apply_pointer_base :: "addr \<Rightarrow> u8 \<Rightarrow> unw_proc_info_t \<Rightarrow> u64 \<Rightarrow> u64 outcome" where
  "apply_pointer_base initial_addr encoding pi val =
     (let appl = encoding AND DW_EH_PE_APPL_MASK in
      if appl = DW_EH_PE_absptr then Ok val
      else if appl = DW_EH_PE_pcrel then Ok (val + initial_addr)
      else if appl = DW_EH_PE_datarel then Ok (val + pi_gp pi)
      else if appl = DW_EH_PE_funcrel then Ok (val + start_ip pi)
      else Fail UNW_EINVAL)"

definition dwarf_read_encoded_pointer ::
  "memory \<Rightarrow> addr \<Rightarrow> u8 \<Rightarrow> unw_proc_info_t \<Rightarrow> (u64 \<times> addr) outcome" where
  "dwarf_read_encoded_pointer m a encoding pi =
     (if encoding = DW_EH_PE_omit then Ok (0, a)
      else if encoding = DW_EH_PE_aligned
      then dwarf_readw m ((a + dwarf_addr_size - 1) AND (- dwarf_addr_size))
      else obind (read_pointer_format m a encoding) (\<lambda>(val, a').
        if val = 0 then Ok (0, a')
        else obind (apply_pointer_base a encoding pi val) (\<lambda>val.
          let val = (if 8 > dwarf_addr_size then ucast (ucast val :: u32) else val) in
          if encoding AND DW_EH_PE_indirect \<noteq> 0
          then obind (dwarf_readw m val) (\<lambda>(val, _). Ok (val, a'))
          else Ok (val, a'))))"

section \<open>Lemmas\<close>

lemma dwarf_readw_eq [simp]: "dwarf_readw m a = Ok (read_word m a, a + 8)"
  by (simp add: dwarf_readw_def dwarf_addr_size_def dwarf_readu64_def read_word_def)

text \<open>The formats and the applications the two switches know.\<close>

definition known_format :: "u8 \<Rightarrow> bool" where
  "known_format encoding = (encoding AND 0x0f \<in> {0, 1, 2, 3, 4, 9, 10, 11, 12})"

definition known_appl :: "u8 \<Rightarrow> bool" where
  "known_appl encoding = (encoding AND 0x70 \<in> {0, 0x10, 0x30, 0x40})"

lemma leb_loop_not_Fail: "leb_loop m a v s \<noteq> Fail e"
proof (induction m a v s rule: leb_loop.induct)
  case (1 m a val shift)
  then show ?case
    by (subst leb_loop.simps) (auto simp: Let_def obind_eq_Fail shl64_def defined_def)
qed

lemma uleb128_not_Fail: "dwarf_read_uleb128 m a \<noteq> Fail e"
  by (auto simp: dwarf_read_uleb128_def obind_eq_Fail leb_loop_not_Fail)

lemma read_pointer_format_Fail:
  "read_pointer_format m a enc = Fail e \<longleftrightarrow> \<not> known_format enc \<and> e = UNW_EINVAL"
  by (auto simp: read_pointer_format_def known_format_def Let_def uleb128_not_Fail
      split: prod.splits)

lemma apply_pointer_base_Fail:
  "apply_pointer_base a enc pi v = Fail e \<longleftrightarrow> \<not> known_appl enc \<and> e = UNW_EINVAL"
  by (auto simp: apply_pointer_base_def known_appl_def Let_def)

lemma encoded_pointer_direct:
  assumes "enc \<noteq> 0xff" "enc \<noteq> 0x50" "read_pointer_format m a enc = Ok (v, a')"
  shows "dwarf_read_encoded_pointer m a enc pi =
    (if v = 0 then Ok (0, a')
     else obind (apply_pointer_base a enc pi v) (\<lambda>v.
       Ok (if enc AND 0x80 \<noteq> 0 then read_word m v else v, a')))"
  using assms
  by (cases "apply_pointer_base a enc pi v")
     (auto simp: dwarf_read_encoded_pointer_def dwarf_addr_size_def)

lemma scast_ucast_32:
  assumes "- (2 ^ 31) \<le> sint d" "sint d < 2 ^ 31"
  shows "scast (ucast (d :: u64) :: u32) = d"
proof -
  have "sint (ucast d :: u32) = signed_take_bit 31 (sint d)"
    by (simp add: signed_ucast_eq signed_take_bit_eq_iff_take_bit_eq sint_uint
        unsigned_ucast_eq)
  also have "\<dots> = sint d"
    using assms by (simp add: signed_take_bit_int_eq_self)
  finally have "word_of_int (sint (ucast d :: u32)) = (word_of_int (sint d) :: u64)" by simp
  then show ?thesis by simp
qed

section \<open>Properties\<close>

text \<open>The two signed pc-relative encodings the compiler emits round-trip: when the displacement
  of a target from the address of the pointer fits in 32 bits and is stored there, reading it with
  \<open>DW_EH_PE_pcrel | DW_EH_PE_sdata4\<close> returns the target and advances by four bytes. A pointer to its
  own address is read as 0, because a stored 0 is always absolute.\<close>

lemma pcrel_sdata4_roundtrip:
  assumes "- (2 ^ 31) \<le> sint (t - a)" "sint (t - a) < 2 ^ 31"
  shows "dwarf_read_encoded_pointer (mem_put m 4 a (t - a)) a
           (DW_EH_PE_pcrel OR DW_EH_PE_sdata4) pi = Ok (if t = a then 0 else t, a + 4)"
proof -
  have u: "(ucast (take_bit 32 (t - a)) :: u32) = ucast (t - a)"
    by (rule bit_word_eqI) (simp add: bit_simps)
  have "read_pointer_format (mem_put m 4 a (t - a)) a 0x1b = Ok (t - a, a + 4)"
    using mem_le_put [of 4 m a "t - a"] scast_ucast_32 [OF assms]
    by (simp add: read_pointer_format_def dwarf_reads32_def u)
  then show ?thesis
    using encoded_pointer_direct [of "0x1b" "mem_put m 4 a (t - a)" a "t - a" "a + 4" pi]
    by (simp add: apply_pointer_base_def)
qed

text \<open>An encoded pointer is refused exactly when its format nibble is unknown, or when a
  non-zero value has an application other than absptr, pcrel, datarel and funcrel; the error is
  always \<open>UNW_EINVAL\<close>. In particular \<open>DW_EH_PE_textrel\<close> is refused.\<close>

lemma encoded_pointer_error_iff:
  "dwarf_read_encoded_pointer m a enc pi = Fail e \<longleftrightarrow>
     e = UNW_EINVAL \<and> enc \<noteq> DW_EH_PE_omit \<and> enc \<noteq> DW_EH_PE_aligned \<and>
     (\<not> known_format enc \<or>
      (\<exists>v a'. read_pointer_format m a enc = Ok (v, a') \<and> v \<noteq> 0 \<and> \<not> known_appl enc))"
proof (cases "enc = 0xff \<or> enc = 0x50")
  case True
  then show ?thesis by (elim disjE) (simp_all add: dwarf_read_encoded_pointer_def)
next
  case False
  then have ne: "enc \<noteq> 0xff" "enc \<noteq> 0x50" by simp_all
  show ?thesis
  proof (cases "read_pointer_format m a enc")
    case (Ok r)
    obtain v a' where r: "r = (v, a')" by (cases r)
    have kf: "known_format enc"
      using read_pointer_format_Fail [of m a enc UNW_EINVAL] Ok by simp
    have "dwarf_read_encoded_pointer m a enc pi = Fail e \<longleftrightarrow>
        v \<noteq> 0 \<and> apply_pointer_base a enc pi v = Fail e"
      using encoded_pointer_direct [OF ne] Ok r by (simp add: obind_eq_Fail)
    then show ?thesis using ne Ok r kf apply_pointer_base_Fail [of a enc pi v e] by auto
  next
    case (Fail e')
    then show ?thesis using ne read_pointer_format_Fail [of m a enc e']
      by (auto simp: dwarf_read_encoded_pointer_def)
  qed (use ne read_pointer_format_Fail [of m a enc UNW_EINVAL] in
       \<open>simp_all add: dwarf_read_encoded_pointer_def\<close>)
qed

text \<open>The padding of \<open>DW_EH_PE_aligned\<close>: the word is read at the next multiple of 8, less than
  8 bytes further on, and the address is left behind it; nothing is read relative to anything.\<close>

lemma encoded_pointer_aligned:
  assumes "unat a + 8 < 2 ^ 64"
  shows "\<exists>b. dwarf_read_encoded_pointer m a DW_EH_PE_aligned pi = Ok (read_word m b, b + 8)
           \<and> unat b mod 8 = 0 \<and> a \<le> b \<and> unat b < unat a + 8"
proof -
  let ?b = "(7 + a) AND (- 8)"
  have "unat ?b = 8 * (unat (7 + a) div 8)" using unat_and_minus_exp [of "7 + a" 3] by simp
  moreover have "unat (7 + a) = unat a + 7"
    using assms unat_add_numeral_u64 [of a 7] by (simp add: add.commute)
  ultimately have b: "unat ?b = 8 * ((unat a + 7) div 8)" by simp
  then have "unat ?b mod 8 = 0" by simp
  moreover have "unat a \<le> 8 * ((unat a + 7) div 8)" "8 * ((unat a + 7) div 8) < unat a + 8"
    by presburger+
  then have "a \<le> ?b \<and> unat ?b < unat a + 8" unfolding word_le_nat_alt b by blast
  moreover have "dwarf_read_encoded_pointer m a 0x50 pi = Ok (read_word m ?b, ?b + 8)"
    by (simp add: dwarf_read_encoded_pointer_def dwarf_addr_size_def)
  ultimately show ?thesis by (intro exI [of _ ?b] conjI) simp_all
qed

lemma sleb_encode_leb_value:
  assumes "i < 0"
  shows "int (leb_value (sleb_encode i)) = i + 2 ^ (7 * length (sleb_encode i))"
  using sleb_encode_value [of i] assms by (simp add: sleb_value_def split: if_splits)

text \<open>The format \<open>DW_EH_PE_sleb128\<close> is read by the unsigned reader: the signed encoding of a
  negative 64-bit number is returned without its sign extension, as the number plus the power of
  128 that its length gives.\<close>

lemma sleb128_format_unsigned:
  assumes "bytes_at m a (sleb_encode i)" "- (2 ^ 63) \<le> i" "i < 0"
  shows "dwarf_read_encoded_pointer m a DW_EH_PE_sleb128 pi =
    Ok (word_of_int (i + 2 ^ (7 * length (sleb_encode i))),
        a + word_of_nat (length (sleb_encode i)))"
proof -
  let ?bs = "sleb_encode i"
  have "length ?bs \<le> Suc 9"
    using assms(2,3) pow_128_10(2) by (intro sleb_encode_length) simp_all
  then have "dwarf_read_uleb128 m a = Ok (word_of_nat (leb_value ?bs), a + word_of_nat (length ?bs))"
    using leb_loop_correct [OF sleb_encode_shape assms(1), of 0 0]
    by (simp add: dwarf_read_uleb128_def)
  then have "read_pointer_format m a 9 =
      Ok (word_of_int (i + 2 ^ (7 * length ?bs)), a + word_of_nat (length ?bs))"
    by (simp add: read_pointer_format_def flip: sleb_encode_leb_value [OF assms(3)])
  then show ?thesis
    using encoded_pointer_direct [of 9 m a _ _ pi] by (simp add: apply_pointer_base_def)
qed

end
