(* ===== verification/Mempool.thy ===== *)
theory Mempool
  imports Unw_Memory
begin

text \<open>
  The memory pools of \<^verbatim>\<open>mempool.c\<close>. A pool keeps its free objects on a list that is linked
  through the objects themselves: the model stores the links in the pool memory of the environment
  (\<open>obj->next\<close> is the first word of a free object) and refines that list to a list of addresses. The
  kernel allocator \<open>malloc (size, M_LIBUNWIND_TYPE, M_WAITOK)\<close> is not part of the sources: it is the
  member \<open>ke_malloc\<close>, the result of the n-th call for a given size, 0 being NULL. The locale
  \<open>object_pool\<close> is the contract the unwinder relies on; it is interpreted on the pool operations.
\<close>

section \<open>State\<close>

record kernel_env =
  ke_malloc :: "nat \<Rightarrow> u64 \<Rightarrow> addr"
  ke_calls :: nat
  ke_mem :: memory
  ke_sos_memory :: addr
  ke_sos_memory_freepos :: u64
  ke_pg_size :: u64

record mempool =
  mp_obj_size :: u64
  mp_chunk_size :: u64
  mp_reserve :: u32
  mp_num_free :: u32
  mp_free_list :: addr

definition MAX_ALIGN :: u64 where "MAX_ALIGN = 16"
definition SOS_MEMORY_SIZE :: u64 where "SOS_MEMORY_SIZE = 16384"
definition PAGE_SIZE :: u64 where "PAGE_SIZE = 4096"

definition UNW_ALIGN :: "u64 \<Rightarrow> u64 \<Rightarrow> u64" where
  "UNW_ALIGN x a = (x + a - 1) AND NOT (a - 1)"

section \<open>Operations\<close>

text \<open>\<open>fetch_and_add\<close> is available, so the first branch of the conditional compilation is built.\<close>

definition sos_alloc :: "kernel_env \<Rightarrow> u64 \<Rightarrow> (addr \<times> kernel_env) outcome" where
  "sos_alloc e sz =
     (let sz = UNW_ALIGN sz MAX_ALIGN in
      if ke_sos_memory e AND (MAX_ALIGN - 1) \<noteq> 0 then Panic
      else
        let pos = ke_sos_memory_freepos e;
            e = e\<lparr>ke_sos_memory_freepos := pos + sz\<rparr> in
        if (ke_sos_memory e + pos) AND (MAX_ALIGN - 1) \<noteq> 0 then Panic
        else if \<not> pos + sz \<le> SOS_MEMORY_SIZE then Panic
        else Ok (ke_sos_memory e + pos, e))"

definition free_object :: "memory \<Rightarrow> mempool \<Rightarrow> addr \<Rightarrow> memory \<times> mempool" where
  "free_object m pool obj =
     (write_word m obj (mp_free_list pool),
      pool\<lparr>mp_free_list := obj, mp_num_free := mp_num_free pool + 1\<rparr>)"

text \<open>
  The loop of \<open>add_memory\<close>, with \<open>lim = mem + size - obj_size\<close>. An object size of 0 would put the
  first object on the list for ever; a pointer may not be advanced past the end of the address
  space.
\<close>

function add_memory_loop ::
  "memory \<Rightarrow> mempool \<Rightarrow> addr \<Rightarrow> addr \<Rightarrow> u64 \<Rightarrow> (memory \<times> mempool) outcome" where
  "add_memory_loop m pool obj lim obj_size =
     (if obj \<le> lim then
        let (m', pool') = free_object m pool obj in
        if obj_size = 0 then Diverge
        else defined (unat obj + unat obj_size < 2 ^ 64)
               (if unat obj + unat obj_size < 2 ^ 64
                then add_memory_loop m' pool' (obj + obj_size) lim obj_size else UB)
      else Ok (m, pool))"
  by pat_completeness auto
termination
proof (relation "measure (\<lambda>(m, pool, obj, lim, s). 2 ^ 64 - unat obj)", goal_cases)
  case (2 m pool obj lim s p m' pool')
  then have "0 < unat s" by (simp add: unat_gt_0)
  with 2 show ?case by (simp add: unat_add_no_wrap)
qed simp

declare add_memory_loop.simps [simp del]

definition add_memory ::
  "memory \<Rightarrow> mempool \<Rightarrow> addr \<Rightarrow> u64 \<Rightarrow> u64 \<Rightarrow> (memory \<times> mempool) outcome" where
  "add_memory m pool mem sz obj_size =
     add_memory_loop m pool mem (mem + sz - obj_size) obj_size"

definition get_memory :: "kernel_env \<Rightarrow> u64 \<Rightarrow> addr \<times> kernel_env" where
  "get_memory e sz = (ke_malloc e (ke_calls e) sz, e\<lparr>ke_calls := Suc (ke_calls e)\<rparr>)"

text \<open>The memory \<open>expand\<close> obtains: its address, its size and the environment after the calls.\<close>

definition expand_memory :: "kernel_env \<Rightarrow> mempool \<Rightarrow> (addr \<times> u64 \<times> kernel_env) outcome" where
  "expand_memory e pool =
     (let sz = mp_chunk_size pool; (mem, e) = get_memory e sz in
      if mem = 0 then
        let sz = UNW_ALIGN (mp_obj_size pool) (ke_pg_size e); (mem, e) = get_memory e sz in
        if mem = 0 then
          let sz = mp_obj_size pool in
          obind (sos_alloc e sz) (\<lambda>(mem, e). Ok (mem, sz, e))
        else Ok (mem, sz, e)
      else Ok (mem, sz, e))"

definition expand :: "kernel_env \<Rightarrow> mempool \<Rightarrow> (kernel_env \<times> mempool) outcome" where
  "expand e pool =
     obind (expand_memory e pool) (\<lambda>(mem, sz, e).
     obind (add_memory (ke_mem e) pool mem sz (mp_obj_size pool)) (\<lambda>(m, pool).
       Ok (e\<lparr>ke_mem := m\<rparr>, pool)))"

definition mempool_init :: "kernel_env \<Rightarrow> u64 \<Rightarrow> u64 \<Rightarrow> (kernel_env \<times> mempool) outcome" where
  "mempool_init e obj_size reserve =
     (let e = (if ke_pg_size e = 0 then e\<lparr>ke_pg_size := PAGE_SIZE\<rparr> else e);
          obj_size = UNW_ALIGN obj_size MAX_ALIGN in
      obind (if reserve = 0 then
               defined (obj_size \<noteq> 0)
                 (let r = ke_pg_size e div obj_size div 4 in Ok (if r = 0 then 16 else r))
             else Ok reserve) (\<lambda>reserve.
        expand e \<lparr>mp_obj_size = obj_size,
                  mp_chunk_size = UNW_ALIGN (2 * reserve * obj_size) (ke_pg_size e),
                  mp_reserve = ucast reserve, mp_num_free = 0, mp_free_list = 0\<rparr>))"

definition mempool_alloc :: "kernel_env \<Rightarrow> mempool \<Rightarrow> (addr \<times> kernel_env \<times> mempool) outcome" where
  "mempool_alloc e pool =
     obind (if mp_num_free pool \<le> mp_reserve pool then expand e pool else Ok (e, pool))
       (\<lambda>(e, pool).
         if \<not> mp_num_free pool > 0 then Panic
         else
           let pool = pool\<lparr>mp_num_free := mp_num_free pool - 1\<rparr>; obj = mp_free_list pool in
           defined (obj \<noteq> 0)
             (Ok (obj, e, pool\<lparr>mp_free_list := read_word (ke_mem e) obj\<rparr>)))"

definition mempool_free :: "kernel_env \<Rightarrow> mempool \<Rightarrow> addr \<Rightarrow> kernel_env \<times> mempool" where
  "mempool_free e pool obj =
     (let (m, pool) = free_object (ke_mem e) pool obj in (e\<lparr>ke_mem := m\<rparr>, pool))"

section \<open>The free list as a list of addresses\<close>

primrec chain :: "memory \<Rightarrow> addr \<Rightarrow> addr list \<Rightarrow> bool" where
  "chain m h [] = (h = 0)"
| "chain m h (x # xs) = (h = x \<and> x \<noteq> 0 \<and> chain m (read_word m x) xs)"

definition aligned16 :: "addr \<Rightarrow> bool" where
  "aligned16 a = (unat a mod 16 = 0)"

lemma unat_aligned16_add:
  assumes "aligned16 a" "i < 16"
  shows "unat (a + word_of_nat i) = unat a + i"
proof -
  have "unat a + i < 2 ^ 64" using unat_u64_less [of a] assms unfolding aligned16_def by simp presburger
  then show ?thesis by (rule unat_add_numeral_u64)
qed

lemma aligned16_apart:
  assumes "aligned16 a" "aligned16 b" "a \<noteq> b" "i < 8" "j < 8"
  shows "a + word_of_nat i \<noteq> b + word_of_nat j"
proof
  assume "a + word_of_nat i = b + word_of_nat j"
  then have "unat a + i = unat b + j"
    using assms unat_aligned16_add [of a i] unat_aligned16_add [of b j] by simp
  with assms have "unat a = unat b" unfolding aligned16_def by presburger
  with assms(3) show False using unat_eqI by blast
qed

lemma read_write_other:
  assumes "aligned16 a" "aligned16 b" "a \<noteq> b"
  shows "read_word (write_word m a v) b = read_word m b"
  by (rule read_write_apart) (use assms aligned16_apart in \<open>auto simp: apart_def\<close>)

lemma chain_write:
  assumes "aligned16 a" "a \<notin> set xs" "\<forall>x\<in>set xs. aligned16 x"
  shows "chain (write_word m a v) h xs = chain m h xs"
  using assms by (induction xs arbitrary: h) (auto simp: read_write_other)

lemma free_object_chain:
  assumes "chain m (mp_free_list pool) xs" "aligned16 a" "a \<noteq> 0" "a \<notin> set xs"
    "\<forall>x\<in>set xs. aligned16 x" "free_object m pool a = (m', pool')"
  shows "chain m' (mp_free_list pool') (a # xs)"
  using assms by (auto simp: free_object_def chain_write)

lemma add_memory_loop_chain:
  assumes "chain m (mp_free_list pool) xs" "distinct xs" "\<forall>x\<in>set xs. aligned16 x"
    "\<forall>x\<in>set xs. x < obj \<or> lim < x" "aligned16 obj" "obj \<noteq> 0"
    "unat os mod 16 = 0" "os \<noteq> 0" "unat lim + unat os < 2 ^ 64"
  shows "\<exists>m' pool' ys. add_memory_loop m pool obj lim os = Ok (m', pool') \<and>
    chain m' (mp_free_list pool') (ys @ xs) \<and> distinct (ys @ xs) \<and>
    (\<forall>y\<in>set ys. aligned16 y \<and> obj \<le> y \<and> y \<le> lim) \<and>
    length ys = (if obj \<le> lim then (unat lim - unat obj) div unat os + 1 else 0) \<and>
    pool' = pool\<lparr>mp_free_list := mp_free_list pool',
                  mp_num_free := mp_num_free pool + word_of_nat (length ys)\<rparr>"
  using assms
proof (induction m pool obj lim os arbitrary: xs rule: add_memory_loop.induct)
  case (1 m pool obj lim os)
  note chain = "1.prems"(1) and dist = "1.prems"(2) and al = "1.prems"(3) and out = "1.prems"(4)
    and alo = "1.prems"(5) and os0 = "1.prems"(8) and bound = "1.prems"(9)
  show ?case
  proof (cases "obj \<le> lim")
    case False
    then have "add_memory_loop m pool obj lim os = Ok (m, pool)"
      by (subst add_memory_loop.simps) simp
    with False chain dist show ?thesis by (intro exI [of _ m] exI [of _ pool] exI [of _ "[]"]) simp
  next
    case True
    obtain m1 p1 where fo: "free_object m pool obj = (m1, p1)" by fastforce
    have nw: "unat obj + unat os < 2 ^ 64"
      using True bound unfolding word_le_nat_alt by linarith
    then have u: "unat (obj + os) = unat obj + unat os" by (simp add: unat_add_no_wrap)
    have pos: "0 < unat os" using os0 by (simp add: unat_gt_0)
    have step: "add_memory_loop m pool obj lim os = add_memory_loop m1 p1 (obj + os) lim os"
      using True fo os0 nw by (subst add_memory_loop.simps) simp
    have "obj \<notin> set xs" using out True by auto
    then have ch1: "chain m1 (mp_free_list p1) (obj # xs)"
      using free_object_chain [OF chain alo "1.prems"(6) _ al fo] by blast
    have lt: "obj < obj + os" using u pos by (simp add: word_less_nat_alt)
    have al1: "aligned16 (obj + os)"
      using alo "1.prems"(7) u unfolding aligned16_def by presburger
    have "\<forall>x\<in>set (obj # xs). x < obj + os \<or> lim < x" using out lt by (auto dest: order_less_trans)
    moreover have "distinct (obj # xs)" "\<forall>x\<in>set (obj # xs). aligned16 x"
      using dist al alo \<open>obj \<notin> set xs\<close> by auto
    moreover have "obj + os \<noteq> 0" using u pos by (metis unat_0 add_is_0 less_numeral_extra(3))
    ultimately obtain m' pool' ys where
      eq: "add_memory_loop m1 p1 (obj + os) lim os = Ok (m', pool')" and
      ch: "chain m' (mp_free_list pool') (ys @ obj # xs)" and di: "distinct (ys @ obj # xs)" and
      ys: "\<forall>y\<in>set ys. aligned16 y \<and> obj + os \<le> y \<and> y \<le> lim" and
      len: "length ys = (if obj + os \<le> lim then (unat lim - unat (obj + os)) div unat os + 1 else 0)"
      and p': "pool' = p1\<lparr>mp_free_list := mp_free_list pool',
                  mp_num_free := mp_num_free p1 + word_of_nat (length ys)\<rparr>"
      using "1.IH" [OF True fo [symmetric] refl os0 nw ch1] al1 "1.prems"(7) os0 bound by metis
    have n: "length ys + 1 = (unat lim - unat obj) div unat os + 1"
    proof (cases "obj + os \<le> lim")
      case le: True
      then have "unat lim - unat obj = unat os + (unat lim - unat (obj + os))"
        unfolding word_le_nat_alt u by linarith
      then show ?thesis using le len pos by (simp add: div_add_self1)
    next
      case False
      then have "unat lim - unat obj < unat os" using pos unfolding word_le_nat_alt u by linarith
      then show ?thesis using False len by simp
    qed
    have n1: "mp_num_free p1 = mp_num_free pool + 1" "p1 = pool\<lparr>mp_free_list := obj,
        mp_num_free := mp_num_free pool + 1\<rparr>"
      using fo by (auto simp: free_object_def)
    have "\<forall>y\<in>set (ys @ [obj]). aligned16 y \<and> obj \<le> y \<and> y \<le> lim"
      using ys alo True lt by (auto intro: order_trans [OF less_imp_le])
    moreover have "pool' = pool\<lparr>mp_free_list := mp_free_list pool',
        mp_num_free := mp_num_free pool + word_of_nat (length (ys @ [obj]))\<rparr>"
      by (subst p') (simp add: n1 algebra_simps)
    ultimately show ?thesis using step eq ch di n True
      by (intro exI [of _ m'] exI [of _ pool'] exI [of _ "ys @ [obj]"]) simp
  qed
qed

section \<open>The pool invariant\<close>

text \<open>
  A chunk of memory; the documented behaviour of the kernel's \<open>malloc\<close>: a chunk that is not NULL is
  aligned, lies inside the address space, overlaps neither a chunk of another call (a pool never
  returns memory) nor the static \<open>sos_memory\<close>.
\<close>

definition in_chunk :: "addr \<Rightarrow> u64 \<Rightarrow> addr \<Rightarrow> bool" where
  "in_chunk c s x = (c \<noteq> 0 \<and> unat c \<le> unat x \<and> unat x < unat c + unat s)"

definition malloc_ok :: "kernel_env \<Rightarrow> bool" where
  "malloc_ok e =
     (\<forall>i s. ke_malloc e i s = 0 \<or>
        (aligned16 (ke_malloc e i s) \<and> unat (ke_malloc e i s) + unat s < 2 ^ 64 \<and>
         (\<forall>x. in_chunk (ke_malloc e i s) s x \<longrightarrow>
            \<not> in_chunk (ke_sos_memory e) SOS_MEMORY_SIZE x \<and>
            (\<forall>j t. j \<noteq> i \<longrightarrow> \<not> in_chunk (ke_malloc e j t) t x))))"

definition env_inv :: "kernel_env \<Rightarrow> bool" where
  "env_inv e = (malloc_ok e \<and> aligned16 (ke_sos_memory e) \<and> ke_sos_memory e \<noteq> 0 \<and>
     unat (ke_sos_memory e) + 16384 < 2 ^ 64 \<and> unat (ke_sos_memory_freepos e) mod 16 = 0 \<and>
     ke_sos_memory_freepos e \<le> SOS_MEMORY_SIZE \<and> ke_pg_size e = PAGE_SIZE)"

text \<open>Addresses inside memory that the allocator has handed out so far.\<close>

definition owned :: "kernel_env \<Rightarrow> addr \<Rightarrow> bool" where
  "owned e x = (aligned16 x \<and>
     ((\<exists>i s. i < ke_calls e \<and> in_chunk (ke_malloc e i s) s x) \<or>
      in_chunk (ke_sos_memory e) (ke_sos_memory_freepos e) x))"

definition pool_shape :: "mempool \<Rightarrow> bool" where
  "pool_shape pool =
     (mp_obj_size pool \<noteq> 0 \<and> unat (mp_obj_size pool) mod 16 = 0 \<and>
      unat (mp_obj_size pool) < 2 ^ 63 \<and> mp_obj_size pool \<le> mp_chunk_size pool)"

definition pool_list :: "kernel_env \<Rightarrow> mempool \<Rightarrow> addr list \<Rightarrow> bool" where
  "pool_list e pool xs =
     (chain (ke_mem e) (mp_free_list pool) xs \<and> distinct xs \<and> (\<forall>x\<in>set xs. owned e x) \<and>
      mp_num_free pool = word_of_nat (length xs))"

definition pool_inv :: "kernel_env \<times> mempool \<Rightarrow> bool" where
  "pool_inv ep = (case ep of (e, pool) \<Rightarrow>
     env_inv e \<and> pool_shape pool \<and> (\<exists>xs. pool_list e pool xs))"

definition avail :: "kernel_env \<times> mempool \<Rightarrow> addr set" where
  "avail ep = (case ep of (e, pool) \<Rightarrow> {x. \<exists>xs. pool_list e pool xs \<and> x \<in> set xs})"

lemma chain_unique: "chain m h xs \<Longrightarrow> chain m h ys \<Longrightarrow> xs = ys"
proof (induction xs arbitrary: h ys)
  case Nil
  then show ?case by (cases ys) auto
next
  case (Cons x xs)
  then show ?case by (cases ys) auto
qed

lemma avail_eq: "pool_list e pool xs \<Longrightarrow> avail (e, pool) = set xs"
  unfolding avail_def pool_list_def by (auto dest: chain_unique)

lemma owned_aligned: "owned e x \<Longrightarrow> aligned16 x"
  by (simp add: owned_def)

lemma owned_nonzero: "owned e x \<Longrightarrow> x \<noteq> 0"
  by (auto simp: owned_def in_chunk_def unat_0_iff)

lemma owned_mono:
  assumes "owned e x" "ke_calls e \<le> ke_calls e'" "ke_malloc e' = ke_malloc e"
    "ke_sos_memory e' = ke_sos_memory e" "ke_sos_memory_freepos e \<le> ke_sos_memory_freepos e'"
  shows "owned e' x"
proof -
  have "in_chunk (ke_sos_memory e') (ke_sos_memory_freepos e') x"
    if "in_chunk (ke_sos_memory e) (ke_sos_memory_freepos e) x"
    using that assms(4,5) by (simp add: in_chunk_def word_le_nat_alt)
  moreover have "i < ke_calls e'" if "i < ke_calls e" for i using that assms(2) by simp
  ultimately show ?thesis using assms(1,3) unfolding owned_def by metis
qed

lemma unat_UNW_ALIGN:
  assumes "unat x + 2 ^ n \<le> 2 ^ 64" "n < 64"
  shows "unat (UNW_ALIGN x (2 ^ n)) = 2 ^ n * ((unat x + (2 ^ n - 1)) div 2 ^ n)"
proof -
  have m: "unat (2 ^ n - 1 :: u64) = 2 ^ n - 1"
  proof -
    have "(2 ^ n - 1 :: u64) = word_of_nat (2 ^ n - 1)" by (simp add: of_nat_diff)
    moreover have "(2 :: nat) ^ n < 2 ^ 64" using assms(2) by (intro power_strict_increasing) simp_all
    ultimately show ?thesis by (simp only: unat_of_nat) simp
  qed
  have "x + 2 ^ n - 1 = x + (2 ^ n - 1)" by simp
  moreover have "unat (x + (2 ^ n - 1)) = unat x + (2 ^ n - 1)"
    using assms m by (simp add: unat_add_no_wrap)
  moreover have "NOT (2 ^ n - 1) = (- (2 ^ n) :: u64)"
    by (simp add: not_eq_complement)
  ultimately show ?thesis
    unfolding UNW_ALIGN_def by (simp only: unat_and_minus_exp)
qed

lemmas env_simps = env_inv_def malloc_ok_def

lemma get_memory_ok:
  assumes "env_inv e" "get_memory e s = (mem, e')"
  shows "env_inv e'" "ke_mem e' = ke_mem e" "owned e x \<Longrightarrow> owned e' x"
    "mem \<noteq> 0 \<Longrightarrow> aligned16 mem \<and> unat mem + unat s < 2 ^ 64"
    "mem \<noteq> 0 \<Longrightarrow> in_chunk mem s x \<Longrightarrow> aligned16 x \<Longrightarrow> owned e' x \<and> \<not> owned e x"
proof -
  have e': "e' = e\<lparr>ke_calls := Suc (ke_calls e)\<rparr>" and mem: "mem = ke_malloc e (ke_calls e) s"
    using assms(2) by (simp_all add: get_memory_def)
  show "env_inv e'" "ke_mem e' = ke_mem e" using assms(1) e' by (simp_all add: env_simps)
  show "owned e x \<Longrightarrow> owned e' x" using e' by (auto intro: owned_mono)
  have ok: "malloc_ok e" "ke_sos_memory_freepos e \<le> SOS_MEMORY_SIZE"
    using assms(1) by (simp_all add: env_inv_def)
  show "mem \<noteq> 0 \<Longrightarrow> aligned16 mem \<and> unat mem + unat s < 2 ^ 64"
    using ok(1) mem unfolding malloc_ok_def by blast
  assume ne: "mem \<noteq> 0" and x: "in_chunk mem s x" "aligned16 x"
  have "owned e' x" using x mem e' unfolding owned_def by auto
  moreover have "\<not> in_chunk (ke_sos_memory e) (ke_sos_memory_freepos e) x"
    using ok x ne mem unfolding malloc_ok_def in_chunk_def word_le_nat_alt by fastforce
  moreover have "\<not> in_chunk (ke_malloc e i t) t x" if "i < ke_calls e" for i t
    using ok(1) x(1) ne mem that unfolding malloc_ok_def by (metis less_irrefl)
  ultimately show "owned e' x \<and> \<not> owned e x" unfolding owned_def by blast
qed

lemma UNW_ALIGN_16_id:
  assumes "unat s mod 16 = 0" "unat s < 2 ^ 63"
  shows "UNW_ALIGN s MAX_ALIGN = s"
proof -
  have "unat (UNW_ALIGN s 16) = 16 * ((unat s + 15) div 16)"
    using unat_UNW_ALIGN [of s 4] assms(2) by simp
  also have "\<dots> = unat s" using assms(1) by presburger
  finally show ?thesis unfolding MAX_ALIGN_def by (rule unat_eqI)
qed

lemma sos_alloc_ok:
  assumes "env_inv e" "unat s mod 16 = 0" "unat s < 2 ^ 63" "sos_alloc e s = Ok (mem, e')"
  shows "env_inv e'" "ke_mem e' = ke_mem e" "owned e x \<Longrightarrow> owned e' x"
    "mem \<noteq> 0" "aligned16 mem" "unat mem + unat s < 2 ^ 64"
    "in_chunk mem s x \<Longrightarrow> aligned16 x \<Longrightarrow> owned e' x \<and> \<not> owned e x"
proof -
  let ?p = "ke_sos_memory_freepos e" and ?b = "ke_sos_memory e"
  from assms(4) have e': "e' = e\<lparr>ke_sos_memory_freepos := ?p + s\<rparr>" and mem: "mem = ?b + ?p"
    and le: "?p + s \<le> SOS_MEMORY_SIZE"
    by (auto simp: sos_alloc_def Let_def UNW_ALIGN_16_id [OF assms(2,3)] split: if_splits)
  have inv: "malloc_ok e" "aligned16 ?b" "?b \<noteq> 0" "unat ?b + 16384 < 2 ^ 64"
    "unat ?p mod 16 = 0" "unat ?p \<le> 16384"
    using assms(1) by (auto simp: env_inv_def SOS_MEMORY_SIZE_def word_le_nat_alt)
  have ps: "unat (?p + s) = unat ?p + unat s"
    using inv(6) assms(3) by (intro unat_add_no_wrap) simp
  have le': "unat ?p + unat s \<le> 16384" using le ps by (simp add: SOS_MEMORY_SIZE_def word_le_nat_alt)
  have um: "unat mem = unat ?b + unat ?p"
    using inv(4,6) unfolding mem by (intro unat_add_no_wrap) simp
  show "ke_mem e' = ke_mem e" using e' by simp
  show "env_inv e'" using assms(1,2) inv(5) e' le ps
    by (simp add: env_simps SOS_MEMORY_SIZE_def) presburger
  have mono: "ke_sos_memory_freepos e \<le> ke_sos_memory_freepos e'"
    using e' ps by (simp add: word_le_nat_alt)
  then show "owned e x \<Longrightarrow> owned e' x" using e' by (auto intro: owned_mono)
  show ne: "mem \<noteq> 0" using um inv(3) by (metis unat_0 unat_0_iff add_is_0)
  show "aligned16 mem" using um inv(2,5) unfolding aligned16_def by presburger
  show "unat mem + unat s < 2 ^ 64" using um le' inv(4) by linarith
  assume x: "in_chunk mem s x" "aligned16 x"
  then have in_sos: "in_chunk ?b (?p + s) x" and out: "\<not> in_chunk ?b ?p x"
    using um ps inv(3) unfolding in_chunk_def by linarith+
  have "in_chunk ?b SOS_MEMORY_SIZE x"
    using in_sos ps le' unfolding in_chunk_def SOS_MEMORY_SIZE_def by simp
  then have "\<not> in_chunk (ke_malloc e i t) t x" for i t
    using inv(1) unfolding malloc_ok_def in_chunk_def by blast
  with x in_sos out e' show "owned e' x \<and> \<not> owned e x" unfolding owned_def by simp
qed

text \<open>A fresh piece of memory: what every branch of \<open>expand\<close> obtains.\<close>

definition fresh_memory :: "kernel_env \<Rightarrow> kernel_env \<Rightarrow> addr \<Rightarrow> u64 \<Rightarrow> bool" where
  "fresh_memory e e' mem s =
     (env_inv e' \<and> ke_mem e' = ke_mem e \<and> (\<forall>x. owned e x \<longrightarrow> owned e' x) \<and> mem \<noteq> 0 \<and>
      aligned16 mem \<and> unat mem + unat s < 2 ^ 64 \<and>
      (\<forall>x. in_chunk mem s x \<and> aligned16 x \<longrightarrow> owned e' x \<and> \<not> owned e x))"

lemma obj_size_le_page_align:
  assumes "pool_shape pool"
  shows "mp_obj_size pool \<le> UNW_ALIGN (mp_obj_size pool) PAGE_SIZE"
proof -
  have "unat (UNW_ALIGN (mp_obj_size pool) PAGE_SIZE)
      = 4096 * ((unat (mp_obj_size pool) + 4095) div 4096)"
    using assms unat_UNW_ALIGN [of "mp_obj_size pool" 12]
    by (simp add: pool_shape_def PAGE_SIZE_def)
  moreover have "n \<le> 4096 * ((n + 4095) div 4096)" for n :: nat
    using mult_div_mod_eq [of 4096 "n + 4095"] mod_less_divisor [of 4096 "n + 4095"] by linarith
  ultimately show ?thesis unfolding word_le_nat_alt by simp
qed

lemma get_memory_fresh:
  assumes "env_inv e" "get_memory e s = (mem, e')" "mem \<noteq> 0"
  shows "fresh_memory e e' mem s"
  using get_memory_ok [OF assms(1,2)] assms(3) unfolding fresh_memory_def by blast

lemma sos_alloc_fresh:
  assumes "env_inv e" "pool_shape pool" "sos_alloc e (mp_obj_size pool) = Ok (mem, e')"
  shows "fresh_memory e e' mem (mp_obj_size pool)"
proof -
  have "unat (mp_obj_size pool) mod 16 = 0" "unat (mp_obj_size pool) < 2 ^ 63"
    using assms(2) by (simp_all add: pool_shape_def)
  from sos_alloc_ok [OF assms(1) this assms(3)] show ?thesis unfolding fresh_memory_def by blast
qed

lemma fresh_memory_trans:
  assumes "fresh_memory e1 e2 mem s" "ke_mem e1 = ke_mem e" "\<And>x. owned e x \<Longrightarrow> owned e1 x"
  shows "fresh_memory e e2 mem s"
  using assms unfolding fresh_memory_def by metis

lemma expand_memory_ok:
  assumes "env_inv e" "pool_shape pool" "expand_memory e pool = Ok (mem, s, e')"
  shows "fresh_memory e e' mem s \<and> mp_obj_size pool \<le> s"
proof -
  obtain m1 e1 where g1: "get_memory e (mp_chunk_size pool) = (m1, e1)" by fastforce
  note f1 = get_memory_ok [OF assms(1) g1]
  have pg: "ke_pg_size e1 = PAGE_SIZE" using f1(1) by (simp add: env_inv_def)
  obtain m2 e2 where g2: "get_memory e1 (UNW_ALIGN (mp_obj_size pool) PAGE_SIZE) = (m2, e2)"
    by fastforce
  note f2 = get_memory_ok [OF f1(1) g2]
  note eq = assms(3) [unfolded expand_memory_def Let_def g1 prod.case pg g2]
  show ?thesis
  proof (cases "m1 = 0")
    case False
    with eq have "mem = m1" "s = mp_chunk_size pool" "e' = e1" by simp_all
    with get_memory_fresh [OF assms(1) g1 False] assms(2) show ?thesis by (simp add: pool_shape_def)
  next
    case m1: True
    show ?thesis
    proof (cases "m2 = 0")
      case False
      with eq m1 have "mem = m2" "s = UNW_ALIGN (mp_obj_size pool) PAGE_SIZE" "e' = e2" by simp_all
      with fresh_memory_trans [OF get_memory_fresh [OF f1(1) g2 False] f1(2,3)]
        obj_size_le_page_align [OF assms(2)]
      show ?thesis by simp
    next
      case True
      note eq' = eq [unfolded if_P [OF m1] if_P [OF True]]
      then obtain so: "sos_alloc e2 (mp_obj_size pool) = Ok (mem, e')" and s: "s = mp_obj_size pool"
        by (cases "sos_alloc e2 (mp_obj_size pool)") auto
      have "fresh_memory e e' mem s"
        unfolding s
        by (rule fresh_memory_trans [OF sos_alloc_fresh [OF f2(1) assms(2) so]])
           (simp add: f1(2) f2(2), rule f2(3), erule f1(3))
      with s show ?thesis by simp
    qed
  qed
qed

lemma add_memory_fresh:
  assumes "fresh_memory e e' mem s" "mp_obj_size pool \<le> s" "pool_shape pool"
    "pool_list e pool xs"
  shows "\<exists>m' pool' ys. add_memory (ke_mem e') pool mem s (mp_obj_size pool) = Ok (m', pool') \<and>
    pool_list (e'\<lparr>ke_mem := m'\<rparr>) pool' (ys @ xs) \<and> (\<forall>y\<in>set ys. \<not> owned e y) \<and>
    length ys = unat s div unat (mp_obj_size pool) \<and> pool_shape pool' \<and>
    mp_reserve pool' = mp_reserve pool \<and> mp_obj_size pool' = mp_obj_size pool"
proof -
  let ?os = "mp_obj_size pool" and ?lim = "mem + s - mp_obj_size pool"
  have os: "?os \<noteq> 0" "unat ?os mod 16 = 0" "0 < unat ?os"
    using assms(3) by (auto simp: pool_shape_def unat_gt_0)
  have f: "mem \<noteq> 0" "aligned16 mem" "unat mem + unat s < 2 ^ 64" "ke_mem e' = ke_mem e"
    and ow: "\<And>x. owned e x \<Longrightarrow> owned e' x"
    and fr: "\<And>x. in_chunk mem s x \<Longrightarrow> aligned16 x \<Longrightarrow> owned e' x \<and> \<not> owned e x"
    using assms(1) by (auto simp: fresh_memory_def)
  have le: "unat ?os \<le> unat s" using assms(2) by (simp add: word_le_nat_alt)
  have us: "unat (s - ?os) = unat s - unat ?os" using assms(2) by (rule unat_sub)
  have "unat (mem + (s - ?os)) = unat mem + unat (s - ?os)"
    using f(3) us by (intro unat_add_no_wrap) simp
  then have lim: "unat ?lim = unat mem + (unat s - unat ?os)" using us by (simp add: add_diff_eq)
  have ml: "mem \<le> ?lim" using lim by (simp add: word_le_nat_alt)
  have pl: "chain (ke_mem e') (mp_free_list pool) xs" "distinct xs" "\<forall>x\<in>set xs. owned e x"
    "mp_num_free pool = word_of_nat (length xs)"
    using assms(4) f(4) by (simp_all add: pool_list_def)
  have inch: "in_chunk mem s y" if "mem \<le> y" "y \<le> ?lim" for y
    using that lim f(1) le os(3) unfolding in_chunk_def word_le_nat_alt by linarith
  have al: "\<forall>x\<in>set xs. aligned16 x" using pl(3) owned_aligned by blast
  have out: "\<forall>x\<in>set xs. x < mem \<or> ?lim < x"
    using pl(3) fr inch owned_aligned by (metis not_less)
  have bound: "unat ?lim + unat ?os < 2 ^ 64" using lim le f(3) by linarith
  obtain m' pool' ys where r:
    "add_memory (ke_mem e') pool mem s ?os = Ok (m', pool')"
    "chain m' (mp_free_list pool') (ys @ xs)" "distinct (ys @ xs)"
    "\<forall>y\<in>set ys. aligned16 y \<and> mem \<le> y \<and> y \<le> ?lim"
    "length ys = (unat ?lim - unat mem) div unat ?os + 1"
    "pool' = pool\<lparr>mp_free_list := mp_free_list pool',
                  mp_num_free := mp_num_free pool + word_of_nat (length ys)\<rparr>"
    using add_memory_loop_chain [OF pl(1,2) al out f(2,1) os(2,1) bound]
    unfolding add_memory_def [symmetric] if_P [OF ml] by (elim exE conjE) rule
  have ys: "owned e' y \<and> \<not> owned e y" if "y \<in> set ys" for y
    using r(4) that fr inch by blast
  have own: "owned (e'\<lparr>ke_mem := m'\<rparr>) y \<longleftrightarrow> owned e' y" for y by (simp add: owned_def)
  have "mp_num_free pool' = word_of_nat (length (ys @ xs))"
    by (subst r(6)) (simp add: pl(4))
  moreover have "unat s = unat ?os + (unat s - unat ?os)" using le by simp
  then have "unat s div unat ?os = (unat s - unat ?os) div unat ?os + 1"
    using os(3) by (metis div_add_self1 Suc_eq_plus1 less_numeral_extra(3))
  moreover have "pool_shape pool'" "mp_reserve pool' = mp_reserve pool"
    "mp_obj_size pool' = mp_obj_size pool"
    using assms(3) by (subst r(6), simp add: pool_shape_def)+
  ultimately show ?thesis using r(1-3,5) ys pl(3) ow own lim
    by (intro exI [of _ m'] exI [of _ pool'] exI [of _ ys]) (auto simp: pool_list_def)
qed

lemma expand_ok:
  assumes "env_inv e" "pool_shape pool" "pool_list e pool xs" "expand e pool = Ok (e', pool')"
  shows "\<exists>ys. pool_list e' pool' (ys @ xs) \<and> (\<forall>y\<in>set ys. \<not> owned e y) \<and> env_inv e' \<and>
    pool_shape pool' \<and> (\<forall>x. owned e x \<longrightarrow> owned e' x) \<and> mp_reserve pool' = mp_reserve pool"
proof -
  from assms(4) obtain mem s e1 m where em: "expand_memory e pool = Ok (mem, s, e1)"
    and am: "add_memory (ke_mem e1) pool mem s (mp_obj_size pool) = Ok (m, pool')"
    and e': "e' = e1\<lparr>ke_mem := m\<rparr>"
    by (auto simp: expand_def)
  have f: "fresh_memory e e1 mem s" "mp_obj_size pool \<le> s"
    using expand_memory_ok [OF assms(1,2) em] by auto
  have "env_inv e'" "\<And>x. owned e x \<Longrightarrow> owned e' x"
    using f(1) e' by (auto simp: fresh_memory_def env_simps owned_def)
  with add_memory_fresh [OF f assms(2,3)] am e' show ?thesis by auto
qed

text \<open>Under the invariant a failed allocation is an assertion, never an undefined operation.\<close>

lemma expand_Ok_or_Panic:
  assumes "env_inv e" "pool_shape pool" "pool_list e pool xs"
  shows "(\<exists>e' pool' ys. expand e pool = Ok (e', pool') \<and> pool_list e' pool' (ys @ xs)) \<or>
    expand e pool = Panic"
proof -
  have "(\<exists>r. expand_memory e pool = Ok r) \<or> expand_memory e pool = Panic"
    by (auto simp: expand_memory_def sos_alloc_def Let_def split: prod.splits)
  then show ?thesis
  proof
    assume "\<exists>r. expand_memory e pool = Ok r"
    then obtain mem s e1 where em: "expand_memory e pool = Ok (mem, s, e1)" by auto
    from expand_memory_ok [OF assms(1,2) em] add_memory_fresh [OF _ _ assms(2,3)]
    show ?thesis using em by (fastforce simp: expand_def)
  next
    assume "expand_memory e pool = Panic"
    then show ?thesis by (simp add: expand_def)
  qed
qed

lemma mempool_alloc_Ok_or_Panic:
  assumes "pool_inv (e, pool)"
  shows "(\<exists>r. mempool_alloc e pool = Ok r) \<or> mempool_alloc e pool = Panic"
proof -
  obtain xs where i: "env_inv e" "pool_shape pool" "pool_list e pool xs"
    using assms by (auto simp: pool_inv_def)
  let ?r = "if mp_num_free pool \<le> mp_reserve pool then expand e pool else Ok (e, pool)"
  consider e1 p1 zs where "?r = Ok (e1, p1)" "pool_list e1 p1 zs" | "?r = Panic"
    using expand_Ok_or_Panic [OF i] i(3) by (cases "mp_num_free pool \<le> mp_reserve pool") auto
  then show ?thesis
  proof cases
    case (1 e1 p1 zs)
    then show ?thesis unfolding mempool_alloc_def 1(1)
      by (cases zs) (auto simp: pool_list_def Let_def)
  next
    case 2
    then show ?thesis unfolding mempool_alloc_def 2 by simp
  qed
qed

section \<open>The pool interface\<close>

text \<open>
  What the unwinder relies on: an allocated object is not available any more and was not held by a
  client, a freed object is available again, and no other object changes its state.
\<close>

locale object_pool =
  fixes alloc :: "'p \<Rightarrow> (addr \<times> 'p) outcome"
    and release :: "'p \<Rightarrow> addr \<Rightarrow> 'p"
    and inv :: "'p \<Rightarrow> bool"
    and available :: "'p \<Rightarrow> addr set"
    and owns :: "'p \<Rightarrow> addr \<Rightarrow> bool"
  assumes alloc_law: "inv p \<Longrightarrow> alloc p = Ok (x, p') \<Longrightarrow>
      inv p' \<and> owns p' x \<and> x \<notin> available p' \<and> available p \<subseteq> insert x (available p') \<and>
      (\<forall>y. owns p y \<longrightarrow> owns p' y) \<and>
      (\<forall>y. owns p y \<longrightarrow> y \<notin> available p \<longrightarrow> y \<noteq> x \<and> y \<notin> available p')"
    and release_law: "inv p \<Longrightarrow> owns p x \<Longrightarrow> x \<notin> available p \<Longrightarrow>
      inv (release p x) \<and> available (release p x) = insert x (available p) \<and>
      (\<forall>y. owns (release p x) y = owns p y)"
begin

text \<open>The objects a client holds: allocated, pairwise distinct, not available.\<close>

definition held :: "'p \<Rightarrow> addr list \<Rightarrow> bool" where
  "held p hs = (inv p \<and> distinct hs \<and> (\<forall>h\<in>set hs. owns p h \<and> h \<notin> available p))"

lemma held_Nil [simp]: "held p [] = inv p"
  by (simp add: held_def)

lemma held_alloc:
  assumes "held p hs" "alloc p = Ok (x, p')"
  shows "held p' (x # hs) \<and> available p \<subseteq> insert x (available p')"
  using assms alloc_law [of p x p'] unfolding held_def by auto

lemma held_release:
  assumes "held p (h # hs)"
  shows "held (release p h) hs \<and> available (release p h) = insert h (available p)"
  using assms release_law [of p h] unfolding held_def by auto

lemma held_release_all:
  "held p hs \<Longrightarrow> inv (foldl release p hs) \<and> available (foldl release p hs) = set hs \<union> available p"
proof (induction hs arbitrary: p)
  case (Cons h hs)
  with held_release [OF Cons.prems] show ?case by auto
qed simp

text \<open>A sequence of allocations.\<close>

primrec alloc_many :: "nat \<Rightarrow> 'p \<Rightarrow> (addr list \<times> 'p) outcome" where
  "alloc_many 0 p = Ok ([], p)"
| "alloc_many (Suc n) p =
     obind (alloc p) (\<lambda>(x, p). obind (alloc_many n p) (\<lambda>(xs, p). Ok (x # xs, p)))"

lemma alloc_many_held:
  "held p hs \<Longrightarrow> alloc_many n p = Ok (xs, p') \<Longrightarrow>
     held p' (rev xs @ hs) \<and> length xs = n \<and> available p \<subseteq> set xs \<union> available p'"
proof (induction n arbitrary: p hs xs)
  case (Suc n)
  then obtain x p1 ys where s: "alloc p = Ok (x, p1)" "alloc_many n p1 = Ok (ys, p')" "xs = x # ys"
    by auto
  with held_alloc [OF Suc.prems(1) s(1)] Suc.IH [of p1 "x # hs" ys] show ?case by auto
qed simp

end

definition pool_alloc :: "kernel_env \<times> mempool \<Rightarrow> (addr \<times> kernel_env \<times> mempool) outcome" where
  "pool_alloc ep = mempool_alloc (fst ep) (snd ep)"

definition pool_release :: "kernel_env \<times> mempool \<Rightarrow> addr \<Rightarrow> kernel_env \<times> mempool" where
  "pool_release ep x = mempool_free (fst ep) (snd ep) x"

definition pool_owns :: "kernel_env \<times> mempool \<Rightarrow> addr \<Rightarrow> bool" where
  "pool_owns ep x = owned (fst ep) x"

lemma mempool_alloc_law:
  assumes "pool_inv (e, pool)" "mempool_alloc e pool = Ok (x, e', pool')"
  shows "pool_inv (e', pool') \<and> owned e' x \<and> x \<notin> avail (e', pool') \<and>
    avail (e, pool) \<subseteq> insert x (avail (e', pool')) \<and> (\<forall>y. owned e y \<longrightarrow> owned e' y) \<and>
    (\<forall>y. owned e y \<longrightarrow> y \<notin> avail (e, pool) \<longrightarrow> y \<noteq> x \<and> y \<notin> avail (e', pool'))"
proof -
  obtain xs where i: "env_inv e" "pool_shape pool" "pool_list e pool xs"
    using assms(1) by (auto simp: pool_inv_def)
  let ?r = "if mp_num_free pool \<le> mp_reserve pool then expand e pool else Ok (e, pool)"
  obtain e1 p1 where r: "?r = Ok (e1, p1)"
    using assms(2) unfolding mempool_alloc_def obind_eq_Ok by (metis surj_pair)
  note eq = assms(2) [unfolded mempool_alloc_def r obind.simps prod.case Let_def]
  have p1: "?r = Ok (e', p1)" "mp_free_list p1 \<noteq> 0" "x = mp_free_list p1"
      "pool' = p1\<lparr>mp_num_free := mp_num_free p1 - 1,
                  mp_free_list := read_word (ke_mem e') (mp_free_list p1)\<rparr>"
    using eq unfolding r by (auto split: if_split_asm)
  obtain ys where ys: "pool_list e' p1 (ys @ xs)" "\<forall>y\<in>set ys. \<not> owned e y" "env_inv e'"
    "pool_shape p1" "\<forall>x. owned e x \<longrightarrow> owned e' x"
  proof (cases "mp_num_free pool \<le> mp_reserve pool")
    case True
    with p1(1) expand_ok [OF i] that show ?thesis by auto
  next
    case False
    with p1(1) i that [of "[]"] show ?thesis by auto
  qed
  from ys(1) p1(2) obtain zs where zs: "ys @ xs = x # zs"
    using p1(3) by (cases "ys @ xs") (auto simp: pool_list_def)
  have pl: "pool_list e' pool' zs"
    using ys(1) p1(3,4) unfolding zs by (auto simp: pool_list_def)
  have "pool_shape pool'" using ys(4) p1(4) by (simp add: pool_shape_def)
  then have "pool_inv (e', pool')" using ys(3) pl by (auto simp: pool_inv_def)
  moreover have "x \<notin> set zs" "owned e' x" using ys(1) unfolding zs by (auto simp: pool_list_def)
  moreover have "set xs \<subseteq> insert x (set zs)" "insert x (set zs) = set ys \<union> set xs"
    using arg_cong [OF zs, of set] by auto
  ultimately show ?thesis
    using ys(2,5) by (auto simp: avail_eq [OF pl] avail_eq [OF i(3)])
qed

lemma mempool_free_law:
  assumes "pool_inv (e, pool)" "owned e x" "x \<notin> avail (e, pool)"
    "mempool_free e pool x = (e', pool')"
  shows "pool_inv (e', pool') \<and> avail (e', pool') = insert x (avail (e, pool)) \<and>
    (\<forall>y. owned e' y = owned e y)"
proof -
  obtain xs where i: "env_inv e" "pool_shape pool" "pool_list e pool xs"
    using assms(1) by (auto simp: pool_inv_def)
  have nx: "x \<notin> set xs" using assms(3) avail_eq [OF i(3)] by simp
  obtain m where fo: "free_object (ke_mem e) pool x = (m, pool')" and e': "e' = e\<lparr>ke_mem := m\<rparr>"
    using assms(4) by (auto simp: mempool_free_def split: prod.splits)
  have own: "owned e' y = owned e y" for y using e' by (simp add: owned_def)
  have "chain m (mp_free_list pool') (x # xs)"
    by (rule free_object_chain [OF _ owned_aligned [OF assms(2)] owned_nonzero [OF assms(2)] nx _ fo])
       (use i(3) owned_aligned in \<open>auto simp: pool_list_def\<close>)
  moreover have "mp_num_free pool' = word_of_nat (length (x # xs))"
    using fo i(3) by (auto simp: free_object_def pool_list_def)
  ultimately have pl: "pool_list e' pool' (x # xs)"
    using i(3) nx assms(2) own unfolding pool_list_def by (simp add: e')
  have "pool_shape pool'" using i(2) fo by (auto simp: free_object_def pool_shape_def)
  moreover have "env_inv e'" using i(1) e' by (simp add: env_simps)
  ultimately show ?thesis
    using pl own by (auto simp: pool_inv_def avail_eq [OF pl] avail_eq [OF i(3)])
qed

interpretation mp: object_pool pool_alloc pool_release pool_inv avail pool_owns
proof unfold_locales
  fix p x p'
  assume "pool_inv p" "pool_alloc p = Ok (x, p')"
  then show "pool_inv p' \<and> pool_owns p' x \<and> x \<notin> avail p' \<and> avail p \<subseteq> insert x (avail p') \<and>
      (\<forall>y. pool_owns p y \<longrightarrow> pool_owns p' y) \<and>
      (\<forall>y. pool_owns p y \<longrightarrow> y \<notin> avail p \<longrightarrow> y \<noteq> x \<and> y \<notin> avail p')"
    using mempool_alloc_law [of "fst p" "snd p" x "fst p'" "snd p'"]
    by (simp add: pool_alloc_def pool_owns_def)
next
  fix p x
  assume "pool_inv p" "pool_owns p x" "x \<notin> avail p"
  then show "pool_inv (pool_release p x) \<and> avail (pool_release p x) = insert x (avail p) \<and>
      (\<forall>y. pool_owns (pool_release p x) y = pool_owns p y)"
    using mempool_free_law [of "fst p" "snd p" x "fst (pool_release p x)" "snd (pool_release p x)"]
    by (simp add: pool_release_def pool_owns_def)
qed

section \<open>Properties of the pools\<close>

primrec mempool_allocs ::
  "nat \<Rightarrow> kernel_env \<times> mempool \<Rightarrow> (addr list \<times> kernel_env \<times> mempool) outcome" where
  "mempool_allocs 0 ep = Ok ([], ep)"
| "mempool_allocs (Suc n) ep =
     obind (mempool_alloc (fst ep) (snd ep)) (\<lambda>(x, ep).
     obind (mempool_allocs n ep) (\<lambda>(xs, ep). Ok (x # xs, ep)))"

primrec mempool_frees :: "kernel_env \<times> mempool \<Rightarrow> addr list \<Rightarrow> kernel_env \<times> mempool" where
  "mempool_frees ep [] = ep"
| "mempool_frees ep (x # xs) = mempool_frees (mempool_free (fst ep) (snd ep) x) xs"

lemma mempool_allocs_eq: "mempool_allocs n ep = mp.alloc_many n ep"
  by (induction n arbitrary: ep) (simp_all add: pool_alloc_def)

lemma mempool_frees_eq: "mempool_frees ep xs = foldl pool_release ep xs"
  by (induction xs arbitrary: ep) (simp_all add: pool_release_def)

text \<open>An environment in which the kernel hands out one chunk, for the witnesses.\<close>

definition env0 :: kernel_env where
  "env0 = \<lparr>ke_malloc = (\<lambda>i s. if i = 0 \<and> s \<le> 2 ^ 40 then 0x100000 else 0), ke_calls = 0,
     ke_mem = (\<lambda>_. 0), ke_sos_memory = 2 ^ 50, ke_sos_memory_freepos = 0, ke_pg_size = PAGE_SIZE\<rparr>"

definition pool0 :: mempool where
  "pool0 = \<lparr>mp_obj_size = 16, mp_chunk_size = 4096, mp_reserve = 16, mp_num_free = 0,
     mp_free_list = 0\<rparr>"

lemma env0_inv: "env_inv env0"
proof -
  have "unat s \<le> 2 ^ 40" if "s \<le> 2 ^ 40" for s :: u64
    using that by (simp add: word_le_nat_alt)
  then have "malloc_ok env0"
    by (auto simp: malloc_ok_def env0_def aligned16_def in_chunk_def SOS_MEMORY_SIZE_def)
       (fastforce intro: order.strict_trans1)+
  then show ?thesis
    by (simp add: env_inv_def env0_def aligned16_def SOS_MEMORY_SIZE_def)
qed

lemma pool0_inv: "pool_inv (env0, pool0)"
proof -
  have "pool_list env0 pool0 []" by (simp add: pool_list_def pool0_def)
  moreover have "pool_shape pool0" by (simp add: pool_shape_def pool0_def)
  ultimately show ?thesis using env0_inv by (auto simp: pool_inv_def)
qed

text \<open>C35: no object is handed out twice: for a pool that satisfies its invariant, the objects of any
  number of successive \<open>mempool_alloc\<close> calls are pairwise distinct and none is left on the free list;
  freeing them all restores the invariant and makes available again everything that was available
  before, together with the objects the pool was expanded by.\<close>

theorem mempool_no_double_alloc:
  assumes "pool_inv ep" "mempool_allocs n ep = Ok (xs, ep')"
  shows "distinct xs \<and> length xs = n \<and> set xs \<inter> avail ep' = {} \<and> pool_inv ep' \<and>
    pool_inv (mempool_frees ep' (rev xs)) \<and>
    avail ep \<subseteq> avail (mempool_frees ep' (rev xs)) \<and>
    avail (mempool_frees ep' (rev xs)) = set xs \<union> avail ep'"
proof -
  have h: "mp.held ep' (rev xs)" "length xs = n" "avail ep \<subseteq> set xs \<union> avail ep'"
    using mp.alloc_many_held [of ep "[]" n xs ep'] assms by (simp_all add: mempool_allocs_eq)
  then show ?thesis
    using mp.held_release_all [OF h(1)] by (auto simp: mp.held_def mempool_frees_eq)
qed

lemma mempool_alloc_returns:
  assumes "pool_inv (e, pool)" "ke_malloc e (ke_calls e) (mp_chunk_size pool) \<noteq> 0"
    "unat (mp_reserve pool) + unat (mp_chunk_size pool) div unat (mp_obj_size pool) < 2 ^ 32"
  shows "is_Ok (mempool_alloc e pool)"
proof -
  obtain xs where i: "env_inv e" "pool_shape pool" "pool_list e pool xs"
    using assms(1) by (auto simp: pool_inv_def)
  have take: "is_Ok (if \<not> mp_num_free p > 0 then Panic
      else let p' = p\<lparr>mp_num_free := mp_num_free p - 1\<rparr>; obj = mp_free_list p' in
        defined (obj \<noteq> 0) (Ok (obj, e', p'\<lparr>mp_free_list := read_word (ke_mem e') obj\<rparr>)))"
    if "pool_list e' p zs" "mp_num_free p > 0" for e' p zs
    using that by (cases zs) (auto simp: is_Ok_def pool_list_def Let_def)
  show ?thesis
  proof (cases "mp_num_free pool \<le> mp_reserve pool")
    case False
    then have "mp_num_free pool > 0" by (simp add: not_le le_less_trans [OF word_zero_le])
    with take [OF i(3)] False show ?thesis by (simp add: mempool_alloc_def)
  next
    case True
    obtain m e1 where g: "get_memory e (mp_chunk_size pool) = (m, e1)" by fastforce
    have m: "m \<noteq> 0" using g assms(2) by (simp add: get_memory_def)
    have em: "expand_memory e pool = Ok (m, mp_chunk_size pool, e1)"
      using g m by (simp add: expand_memory_def)
    obtain m' pool' ys where a:
      "add_memory (ke_mem e1) pool m (mp_chunk_size pool) (mp_obj_size pool) = Ok (m', pool')"
      "pool_list (e1\<lparr>ke_mem := m'\<rparr>) pool' (ys @ xs)"
      "length ys = unat (mp_chunk_size pool) div unat (mp_obj_size pool)"
      using add_memory_fresh [OF get_memory_fresh [OF i(1) g m] _ i(2,3)] i(2)
      by (auto simp: pool_shape_def)
    have "0 < length ys"
      using i(2) a(3) by (auto simp: pool_shape_def word_le_nat_alt div_greater_zero_iff unat_gt_0)
    moreover have "mp_num_free pool' = word_of_nat (length ys) + mp_num_free pool"
      using a(2) i(3) by (simp add: pool_list_def)
    moreover have "length ys + unat (mp_num_free pool) < 2 ^ 32"
      using True assms(3) a(3) by (simp add: word_le_nat_alt)
    ultimately have "0 < unat (mp_num_free pool')"
      by (simp add: unat_word_ariths unat_of_nat)
    then have "mp_num_free pool' > 0" by (simp add: unat_gt_0 word_neq_0_conv)
    with take [OF a(2)] True em a(1) show ?thesis
      by (simp add: mempool_alloc_def expand_def)
  qed
qed

text \<open>An allocation succeeds: when the kernel's \<open>malloc\<close> gives the chunk that \<open>expand\<close> asks
  for (as \<open>M_WAITOK\<close> promises) and the 32-bit counter cannot overflow by it, \<open>mempool_alloc\<close> returns
  an object; neither its assertion nor a NULL free list is reached.\<close>

lemma mempool_alloc_succeeds:
  assumes "pool_inv (e, pool)" "ke_malloc e (ke_calls e) (mp_chunk_size pool) \<noteq> 0"
    "unat (mp_reserve pool) + unat (mp_chunk_size pool) div unat (mp_obj_size pool) < 2 ^ 32"
  shows "is_Ok (mempool_alloc e pool)"
  using assms by (rule mempool_alloc_returns)

theorem mempool_no_double_alloc_witness:
  "\<exists>x ep. mempool_allocs 1 (env0, pool0) = Ok ([x], ep) \<and> x \<notin> avail ep \<and>
     x \<in> avail (mempool_frees ep [x])"
proof -
  have "is_Ok (mempool_alloc env0 pool0)"
    by (rule mempool_alloc_returns [OF pool0_inv]) (simp_all add: env0_def pool0_def)
  then obtain x ep where "mempool_allocs 1 (env0, pool0) = Ok ([x], ep)" by (auto simp: is_Ok_def)
  with mempool_no_double_alloc [OF pool0_inv this] show ?thesis by auto
qed

text \<open>Freeing an object and allocating again is LIFO: while the free list stays above the reserve
  the next allocation returns the object just freed and leaves the pool as it was before the
  free.\<close>

lemma mempool_free_alloc_roundtrip:
  assumes "x \<noteq> 0" "mp_reserve pool < mp_num_free pool + 1"
    "mempool_free e pool x = (e', pool')"
  shows "mempool_alloc e' pool' = Ok (x, e', pool)"
proof -
  have "0 < mp_num_free pool + 1" using assms(2) by (rule le_less_trans [OF word_zero_le])
  with assms show ?thesis
    by (auto simp: mempool_free_def free_object_def mempool_alloc_def Let_def)
qed

text \<open>The object and chunk sizes \<open>mempool_init\<close> chooses with the default reserve.\<close>

lemma UNW_ALIGN_bounds:
  assumes "unat x + 2 ^ n \<le> 2 ^ 64" "n < 64"
  shows "x \<le> UNW_ALIGN x (2 ^ n) \<and> unat (UNW_ALIGN x (2 ^ n)) < unat x + 2 ^ n \<and>
    unat (UNW_ALIGN x (2 ^ n)) mod 2 ^ n = 0"
proof -
  let ?k = "2 ^ n :: nat" and ?m = "unat x + (2 ^ n - 1)"
  have "?k * (?m div ?k) + ?m mod ?k = ?m" "?m mod ?k < ?k" "0 < ?k" by simp_all
  then have "unat x \<le> ?k * (?m div ?k)" "?k * (?m div ?k) < unat x + ?k" by linarith+
  then show ?thesis unfolding word_le_nat_alt unat_UNW_ALIGN [OF assms] by simp
qed

text \<open>\<open>UNW_ALIGN\<close> with a power of two rounds up to the next multiple, when that does not exceed
  the word.\<close>

lemma UNW_ALIGN_correct:
  assumes "unat x + 2 ^ n \<le> 2 ^ 64" "n < 64"
  shows "x \<le> UNW_ALIGN x (2 ^ n) \<and> unat (UNW_ALIGN x (2 ^ n)) < unat x + 2 ^ n \<and>
    unat (UNW_ALIGN x (2 ^ n)) mod 2 ^ n = 0"
  using assms by (rule UNW_ALIGN_bounds)

lemma init_sizes:
  fixes os r :: u64
  assumes "0 < unat os" "unat os < 2 ^ 32" "unat os mod 16 = 0"
    "r = (let q = PAGE_SIZE div os div 4 in if q = 0 then 16 else q)"
  shows "unat r \<le> 64" "0 < unat r"
    "unat (2 * r * os) = 2 * unat r * unat os" "2 * unat r * unat os < 2 ^ 39"
proof -
  let ?q = "4096 div unat os div 4"
  have q: "unat (PAGE_SIZE div os div 4) = ?q"
    by (simp add: unat_div PAGE_SIZE_def)
  have "?q = 4096 div (unat os * 4)" by (simp add: div_mult2_eq)
  then have "?q * (unat os * 4) \<le> 4096" by simp
  then have qm: "?q * unat os \<le> 1024" by linarith
  have "16 \<le> unat os" using assms(1,3) by presburger
  then have "?q * 16 \<le> ?q * unat os" by simp
  with qm have q64: "?q \<le> 64" by linarith
  have r: "unat r = (if ?q = 0 then 16 else ?q)"
    using assms(4) q by (simp add: Let_def flip: unat_0_iff)
  then show "unat r \<le> 64" "0 < unat r" using q64 by (simp_all split: if_splits)
  have "unat r * unat os \<le> 64 * unat os" using \<open>unat r \<le> 64\<close> by (rule mult_le_mono1)
  also have "\<dots> < 2 ^ 38" using assms(2) by simp
  finally show small: "2 * unat r * unat os < 2 ^ 39" by (simp add: mult.commute)
  moreover have "unat (2 * r) = 2 * unat r"
    using \<open>unat r \<le> 64\<close> by (simp add: unat_word_ariths)
  ultimately show "unat (2 * r * os) = 2 * unat r * unat os"
    by (simp add: unat_word_ariths(2) [of "2 * r"])
qed

lemma init_pool:
  assumes "env_inv e" "0 < unat n" "unat n \<le> 2 ^ 31"
  shows "\<exists>pool. mempool_init e n 0 = expand e pool \<and> pool_shape pool \<and>
    mp_free_list pool = 0 \<and> mp_num_free pool = 0 \<and>
    n \<le> mp_obj_size pool \<and> unat (mp_obj_size pool) < unat n + 16 \<and>
    2 * unat (mp_reserve pool) * unat (mp_obj_size pool) \<le> unat (mp_chunk_size pool) \<and>
    mp_chunk_size pool \<le> 2 ^ 40"
proof -
  define os where "os = UNW_ALIGN n MAX_ALIGN"
  define r where "r = (let q = PAGE_SIZE div os div 4 in if q = 0 then 16 else q)"
  define pool where "pool = \<lparr>mp_obj_size = os, mp_chunk_size = UNW_ALIGN (2 * r * os) PAGE_SIZE,
    mp_reserve = ucast r, mp_num_free = 0, mp_free_list = 0\<rparr>"
  have al: "n \<le> os" "unat os < unat n + 16" "unat os mod 16 = 0"
    using UNW_ALIGN_bounds [of n 4] assms(3) by (simp_all add: os_def MAX_ALIGN_def)
  have os: "0 < unat os" "unat os < 2 ^ 32" using al(1,2) assms(2,3) by (simp_all add: word_le_nat_alt)
  note rs = init_sizes [OF os al(3) r_def]
  have ur: "unat (mp_reserve pool) = unat r"
    using rs(1) by (simp add: pool_def unsigned_ucast_eq take_bit_nat_eq_self)
  have "unat (2 * r * os) + 2 ^ 12 \<le> 2 ^ 64" using rs(4) unfolding rs(3) by simp
  from UNW_ALIGN_bounds [OF this]
  have ck: "2 * unat r * unat os \<le> unat (mp_chunk_size pool)"
    "unat (mp_chunk_size pool) < 2 * unat r * unat os + 4096"
    using rs(3) by (simp_all add: pool_def PAGE_SIZE_def word_le_nat_alt)
  have "unat os \<le> 2 * unat r * unat os" using rs(2) by simp
  also note ck(1)
  finally have "os \<le> mp_chunk_size pool" by (simp add: word_le_nat_alt)
  then have "pool_shape pool" using os al(3) by (auto simp: pool_shape_def pool_def)
  moreover have "mempool_init e n 0 = expand e pool"
    using assms(1) os(1) unfolding mempool_init_def
    by (auto simp: env_inv_def PAGE_SIZE_def Let_def pool_def r_def defined_def unat_gt_0
        simp flip: os_def)
  moreover have "mp_chunk_size pool \<le> 2 ^ 40"
    using less_trans [OF ck(2) add_strict_right_mono [OF rs(4), of 4096]]
    by (simp add: word_le_nat_alt)
  ultimately show ?thesis using al ck ur
    by (intro exI [of _ pool]) (simp add: pool_def)
qed

lemma expand_empty:
  assumes "env_inv e" "pool_shape pool" "mp_free_list pool = 0" "mp_num_free pool = 0"
    "ke_malloc e (ke_calls e) (mp_chunk_size pool) \<noteq> 0"
  shows "\<exists>e' pool'. expand e pool = Ok (e', pool') \<and> pool_inv (e', pool') \<and>
    card (avail (e', pool')) = unat (mp_chunk_size pool) div unat (mp_obj_size pool) \<and>
    mp_reserve pool' = mp_reserve pool \<and> mp_obj_size pool' = mp_obj_size pool"
proof -
  obtain m e1 where g: "get_memory e (mp_chunk_size pool) = (m, e1)" by fastforce
  have m: "m \<noteq> 0" using g assms(5) by (simp add: get_memory_def)
  have em: "expand_memory e pool = Ok (m, mp_chunk_size pool, e1)"
    using g m by (simp add: expand_memory_def)
  have fr: "fresh_memory e e1 m (mp_chunk_size pool)" by (rule get_memory_fresh [OF assms(1) g m])
  have "mp_obj_size pool \<le> mp_chunk_size pool" "pool_list e pool []"
    using assms(2-4) by (simp_all add: pool_shape_def pool_list_def)
  then obtain m' pool' ys where a:
    "add_memory (ke_mem e1) pool m (mp_chunk_size pool) (mp_obj_size pool) = Ok (m', pool')"
    "pool_list (e1\<lparr>ke_mem := m'\<rparr>) pool' ys" "pool_shape pool'"
    "length ys = unat (mp_chunk_size pool) div unat (mp_obj_size pool)"
    "mp_reserve pool' = mp_reserve pool" "mp_obj_size pool' = mp_obj_size pool"
    using add_memory_fresh [OF fr _ assms(2), of "[]"] by auto
  moreover have "env_inv (e1\<lparr>ke_mem := m'\<rparr>)" using fr by (simp add: fresh_memory_def env_simps)
  moreover have "card (avail (e1\<lparr>ke_mem := m'\<rparr>, pool')) = length ys"
    using a(2) unfolding avail_eq [OF a(2)] by (simp add: pool_list_def distinct_card)
  ultimately show ?thesis using em by (auto simp: expand_def pool_inv_def)
qed

text \<open>\<open>mempool_init\<close> with the default reserve makes a valid pool: for an object size of up to
  \<open>2^31\<close> bytes, and a kernel that gives the first chunk, it succeeds, rounds the object size up by
  less than 16, and puts at least twice the reserve on the free list.\<close>

lemma mempool_init_valid:
  assumes "env_inv e" "0 < unat n" "unat n \<le> 2 ^ 31"
    "\<And>s. s \<le> 2 ^ 40 \<Longrightarrow> ke_malloc e (ke_calls e) s \<noteq> 0"
  shows "\<exists>e' pool. mempool_init e n 0 = Ok (e', pool) \<and> pool_inv (e', pool) \<and>
    n \<le> mp_obj_size pool \<and> unat (mp_obj_size pool) < unat n + 16 \<and>
    2 * unat (mp_reserve pool) \<le> card (avail (e', pool))"
proof -
  obtain p where p: "mempool_init e n 0 = expand e p" "pool_shape p" "mp_free_list p = 0"
    "mp_num_free p = 0" "n \<le> mp_obj_size p" "unat (mp_obj_size p) < unat n + 16"
    "2 * unat (mp_reserve p) * unat (mp_obj_size p) \<le> unat (mp_chunk_size p)"
    "mp_chunk_size p \<le> 2 ^ 40"
    using init_pool [OF assms(1-3)] by blast
  have "0 < unat (mp_obj_size p)" using p(2) by (simp add: pool_shape_def unat_gt_0)
  then have "2 * unat (mp_reserve p) \<le> unat (mp_chunk_size p) div unat (mp_obj_size p)"
    using p(7) by (simp add: less_eq_div_iff_mult_less_eq)
  with expand_empty [OF assms(1) p(2-4) assms(4) [OF p(8)]] p(1,5,6) show ?thesis by auto
qed

end
