(* ===== verification/Unw_Regs.thy ===== *)
theory Unw_Regs
  imports Unw_Memory Dwarf_Types
begin

text \<open>
  The local address space and the register interface: \<open>access_mem\<close> with its cache of validated pages
  and \<open>access_reg\<close> (\<^verbatim>\<open>Ginit.c\<close>), the register slots of a \<open>ucontext_t\<close> (\<^verbatim>\<open>Gos-freebsd.c\<close>,
  \<^verbatim>\<open>ucontext_i.h\<close>), \<open>dwarf_get\<close> and \<open>dwarf_put\<close> (\<^verbatim>\<open>include/tdep-x86_64/libunwind_i.h\<close>),
  \<open>tdep_access_reg\<close> (\<^verbatim>\<open>Gregs.c\<close>), the API calls \<open>unw_get_reg\<close>, \<open>unw_set_reg\<close> and
  \<open>unw_get_save_loc\<close>, and the initialisation of a cursor (\<^verbatim>\<open>init.h\<close>, \<^verbatim>\<open>Ginit_local.c\<close>). The
  machine is the memory together with the static page cache of \<^verbatim>\<open>Ginit.c\<close>. The locale
  \<open>register_file\<close> states what a client of the register interface relies on.
\<close>

section \<open>The machine\<close>

record machine =
  m_mem :: memory
  m_last_good_addr :: "addr list"
  m_lga_victim :: nat

definition NLGA :: nat where "NLGA = 4"

definition PAGE_START :: "addr \<Rightarrow> addr" where
  "PAGE_START a = a AND NOT (4096 - 1)"

text \<open>\<open>mem_validate_func\<close> is always \<open>msync_validate\<close>, which accepts every address.\<close>

definition msync_validate :: "addr \<Rightarrow> u64 \<Rightarrow> int" where
  "msync_validate a len = 0"

text \<open>The second loop of \<open>validate_mem\<close>: the slot it stores into, and whether it was a free one.\<close>

fun lga_slot :: "addr list \<Rightarrow> nat \<Rightarrow> nat \<Rightarrow> nat \<times> bool" where
  "lga_slot lga 0 victim = (victim, False)"
| "lga_slot lga (Suc n) victim =
     (if lga ! victim = 0 then (victim, True) else lga_slot lga n ((victim + 1) mod NLGA))"

definition validate_mem :: "machine \<Rightarrow> addr \<Rightarrow> bool \<times> machine" where
  "validate_mem M a =
     (let len = (if PAGE_START (a + 8 - 1) = PAGE_START a then 4096 else 4096 * 2);
          a = PAGE_START a in
      if a = 0 then (False, M)
      else if \<exists>i<NLGA. m_last_good_addr M ! i \<noteq> 0 \<and> a = m_last_good_addr M ! i then (True, M)
      else if msync_validate a len = - 1 then (False, M)
      else case lga_slot (m_last_good_addr M) NLGA (m_lga_victim M) of
          (victim, True) \<Rightarrow> (True, M\<lparr>m_last_good_addr := (m_last_good_addr M)[victim := a]\<rparr>)
        | (victim, False) \<Rightarrow>
            (True, M\<lparr>m_last_good_addr := (m_last_good_addr M)[victim := a],
                     m_lga_victim := (victim + 1) mod NLGA\<rparr>))"

definition access_mem_read :: "machine \<Rightarrow> 'a cursor_scheme \<Rightarrow> addr \<Rightarrow> (u64 \<times> machine) outcome" where
  "access_mem_read M c a =
     (if c_validate c then
        (let (valid, M') = validate_mem M a in
         if valid then Ok (read_word (m_mem M') a, M') else Fail UNW_EUNSPEC)
      else Ok (read_word (m_mem M) a, M))"

definition access_mem_write :: "machine \<Rightarrow> addr \<Rightarrow> u64 \<Rightarrow> machine" where
  "access_mem_write M a v = M\<lparr>m_mem := write_word (m_mem M) a v\<rparr>"

section \<open>The registers of a \<open>ucontext_t\<close>\<close>

text \<open>The FreeBSD offsets of \<^verbatim>\<open>ucontext_i.h\<close>, by register number.\<close>

definition uc_mcontext_gregs :: "u64 list" where
  "uc_mcontext_gregs =
     [0x48, 0x28, 0x30, 0x50, 0x20, 0x18, 0x58, 0xc8,
      0x38, 0x40, 0x60, 0x68, 0x70, 0x78, 0x80, 0x88, 0xb0]"

definition x86_64_r_uc_addr :: "addr \<Rightarrow> int \<Rightarrow> addr" where
  "x86_64_r_uc_addr uc reg =
     (if 0 \<le> reg \<and> reg \<le> 16 then uc + uc_mcontext_gregs ! nat reg else 0)"

definition unw_is_fpreg :: "int \<Rightarrow> bool" where
  "unw_is_fpreg regnum = False"

definition access_reg_read :: "machine \<Rightarrow> 'a cursor_scheme \<Rightarrow> int \<Rightarrow> u64 outcome" where
  "access_reg_read M c reg =
     (if unw_is_fpreg reg then Fail UNW_EBADREG
      else let a = x86_64_r_uc_addr (c_uc c) reg in
        if a = 0 then Fail UNW_EBADREG else Ok (read_word (m_mem M) a))"

definition access_reg_write :: "machine \<Rightarrow> 'a cursor_scheme \<Rightarrow> int \<Rightarrow> u64 \<Rightarrow> machine outcome" where
  "access_reg_write M c reg v =
     (if unw_is_fpreg reg then Fail UNW_EBADREG
      else let a = x86_64_r_uc_addr (c_uc c) reg in
        if a = 0 then Fail UNW_EBADREG
        else Ok (M\<lparr>m_mem := write_word (m_mem M) a v\<rparr>))"

definition access_fpreg :: "'a cursor_scheme \<Rightarrow> int \<Rightarrow> unit outcome" where
  "access_fpreg c reg =
     (if \<not> unw_is_fpreg reg then Fail UNW_EBADREG
      else if x86_64_r_uc_addr (c_uc c) reg = 0 then Fail UNW_EBADREG
      else Ok ())"

definition DWARF_REG_LOC :: "'a cursor_scheme \<Rightarrow> int \<Rightarrow> dwarf_loc_t" where
  "DWARF_REG_LOC c r = x86_64_r_uc_addr (c_uc c) r"

section \<open>Locations\<close>

text \<open>In the local build \<open>DWARF_IS_REG_LOC\<close> is 0, so both macros go to memory.\<close>

definition dwarf_get :: "machine \<Rightarrow> 'a cursor_scheme \<Rightarrow> dwarf_loc_t \<Rightarrow> (u64 \<times> machine) outcome" where
  "dwarf_get M c l = (if DWARF_IS_NULL_LOC l then Fail UNW_EBADREG else access_mem_read M c l)"

definition dwarf_put :: "machine \<Rightarrow> dwarf_loc_t \<Rightarrow> u64 \<Rightarrow> machine outcome" where
  "dwarf_put M l v = (if DWARF_IS_NULL_LOC l then Fail UNW_EBADREG else Ok (access_mem_write M l v))"

definition dwarf_getfp :: "dwarf_loc_t \<Rightarrow> unit outcome" where
  "dwarf_getfp l = (if DWARF_IS_NULL_LOC l then Fail UNW_EBADREG else Panic)"

definition dwarf_putfp :: "dwarf_loc_t \<Rightarrow> unit outcome" where
  "dwarf_putfp l = (if DWARF_IS_NULL_LOC l then Fail UNW_EBADREG else Panic)"

section \<open>\<open>tdep_access_reg\<close>\<close>

text \<open>
  A write returns the cursor and the machine with the outcome, because the write of \<open>RIP\<close> updates
  the cursor before the store that may fail.
\<close>

definition tdep_access_reg_read ::
  "machine \<Rightarrow> 'a cursor_scheme \<Rightarrow> int \<Rightarrow> (u64 \<times> machine) outcome" where
  "tdep_access_reg_read M c reg =
     (if reg = int RIP then dwarf_get M c (c_loc c ! RIP)
      else if reg = int UNW_X86_64_CFA \<or> reg = int RSP then Ok (c_cfa c, M)
      else if reg = int RAX \<or> reg = int RDX then
        (let arg_num = nat (reg - int RAX) in
         if c_eh_valid_mask c AND push_bit arg_num 1 \<noteq> 0 then Ok (c_eh_args c ! arg_num, M)
         else dwarf_get M c (c_loc c ! (if reg = int RAX then RAX else RDX)))
      else if reg \<in> {2, 3, 4, 5, 6, 8, 9, 10, 11, 12, 13, 14, 15}
      then dwarf_get M c (c_loc c ! nat reg)
      else Fail UNW_EBADREG)"

definition tdep_access_reg_write ::
  "machine \<Rightarrow> 'a cursor_scheme \<Rightarrow> int \<Rightarrow> u64 \<Rightarrow> machine outcome \<times> 'a cursor_scheme" where
  "tdep_access_reg_write M c reg v =
     (if reg = int RIP then
        (let c = c\<lparr>c_ip := v\<rparr> in (dwarf_put M (c_loc c ! RIP) v, c))
      else if reg = int UNW_X86_64_CFA \<or> reg = int RSP then (Fail UNW_EREADONLYREG, c)
      else if reg = int RAX \<or> reg = int RDX then
        (let arg_num = nat (reg - int RAX) in
         (Ok M, c\<lparr>c_eh_args := (c_eh_args c)[arg_num := v],
                  c_eh_valid_mask := c_eh_valid_mask c OR push_bit arg_num 1\<rparr>))
      else if reg \<in> {2, 3, 4, 5, 6, 8, 9, 10, 11, 12, 13, 14, 15}
      then (dwarf_put M (c_loc c ! nat reg) v, c)
      else (Fail UNW_EBADREG, c))"

definition tdep_access_fpreg :: "'a cursor_scheme \<Rightarrow> int \<Rightarrow> unit outcome" where
  "tdep_access_fpreg c reg = Fail UNW_EBADREG"

definition unw_get_reg :: "machine \<Rightarrow> 'a cursor_scheme \<Rightarrow> int \<Rightarrow> (u64 \<times> machine) outcome" where
  "unw_get_reg M c regnum =
     (if regnum = int RIP then Ok (c_ip c, M) else tdep_access_reg_read M c regnum)"

definition unw_set_reg ::
  "machine \<Rightarrow> 'a cursor_scheme \<Rightarrow> int \<Rightarrow> u64 \<Rightarrow> machine outcome \<times> 'a cursor_scheme" where
  "unw_set_reg M c regnum v = tdep_access_reg_write M c regnum v"

definition unw_get_fpreg :: "'a cursor_scheme \<Rightarrow> int \<Rightarrow> unit outcome" where
  "unw_get_fpreg c regnum = tdep_access_fpreg c regnum"

definition unw_set_fpreg :: "'a cursor_scheme \<Rightarrow> int \<Rightarrow> unit outcome" where
  "unw_set_fpreg c regnum = tdep_access_fpreg c regnum"

section \<open>Save locations, names, messages\<close>

datatype unw_save_loc_t = UNW_SLT_NONE | UNW_SLT_MEMORY addr | UNW_SLT_REG int

definition unw_get_save_loc :: "'a cursor_scheme \<Rightarrow> int \<Rightarrow> unw_save_loc_t" where
  "unw_get_save_loc c reg =
     (let l = (if reg \<in> {int RBX, int RSP, int RBP, int R12, int R13, int R14, int R15}
               then c_loc c ! nat reg else DWARF_NULL_LOC) in
      if DWARF_IS_NULL_LOC l then UNW_SLT_NONE else UNW_SLT_MEMORY l)"

definition regname :: "string list" where
  "regname = [''RAX'', ''RDX'', ''RCX'', ''RBX'', ''RSI'', ''RDI'', ''RBP'', ''RSP'', ''R8'', ''R9'',
     ''R10'', ''R11'', ''R12'', ''R13'', ''R14'', ''R15'', ''RIP'']"

text \<open>The guard compares signed integers, so a negative number reads in front of the table.\<close>

definition unw_regname :: "int \<Rightarrow> string outcome" where
  "unw_regname reg =
     (if reg < int (length regname) then defined (0 \<le> reg) (Ok (regname ! nat reg)) else Ok ''???'')"

definition error_of_code :: "int \<Rightarrow> unw_error_t option" where
  "error_of_code n =
     (if 0 \<le> n \<and> n \<le> 10
      then Some ([UNW_ESUCCESS, UNW_EUNSPEC, UNW_ENOMEM, UNW_EBADREG, UNW_EREADONLYREG,
        UNW_ESTOPUNWIND, UNW_EINVALIDIP, UNW_EBADFRAME, UNW_EINVAL, UNW_EBADVERSION,
        UNW_ENOINFO] ! nat n)
      else None)"

definition unw_strerror :: "int \<Rightarrow> string" where
  "unw_strerror err_code =
     (case error_of_code (- err_code) of
        Some UNW_ESUCCESS \<Rightarrow> ''no error''
      | Some UNW_EUNSPEC \<Rightarrow> ''unspecified (general) error''
      | Some UNW_ENOMEM \<Rightarrow> ''out of memory''
      | Some UNW_EBADREG \<Rightarrow> ''bad register number''
      | Some UNW_EREADONLYREG \<Rightarrow> ''attempt to write read-only register''
      | Some UNW_ESTOPUNWIND \<Rightarrow> ''stop unwinding''
      | Some UNW_EINVALIDIP \<Rightarrow> ''invalid IP''
      | Some UNW_EBADFRAME \<Rightarrow> ''bad frame''
      | Some UNW_EINVAL \<Rightarrow> ''unsupported operation or bad value''
      | Some UNW_EBADVERSION \<Rightarrow> ''unwind info has unsupported version''
      | Some UNW_ENOINFO \<Rightarrow> ''no unwind info found''
      | None \<Rightarrow> ''invalid error code'')"

section \<open>Cursor initialisation\<close>

definition common_init :: "machine \<Rightarrow> cursor \<Rightarrow> bool \<Rightarrow> (cursor \<times> machine) outcome" where
  "common_init M c use_prev_instr =
     (let c = c\<lparr>c_loc := map (\<lambda>off. c_uc c + off) uc_mcontext_gregs\<rparr> in
      obind (dwarf_get M c (c_loc c ! RIP)) (\<lambda>(ip, M).
      let c = c\<lparr>c_ip := ip\<rparr> in
      obind (dwarf_get M c (DWARF_REG_LOC c (int RSP))) (\<lambda>(cfa, M).
      Ok (c\<lparr>c_cfa := cfa, c_sigcontext_format := X86_64_SCF_NONE, c_sigcontext_addr := 0,
            c_args_size := 0, c_ret_addr_column := 16, c_stash_frames := False,
            c_use_prev_instr := use_prev_instr, c_pi_valid := False, c_pi_is_dynamic := False,
            c_hint := 0, c_prev_rs := 0\<rparr>, M))))"

text \<open>The cursor part of \<open>unw_init_local\<close>; the library initialisation is \<open>tdep_init\<close>.\<close>

definition unw_init_local :: "machine \<Rightarrow> cursor \<Rightarrow> addr \<Rightarrow> (cursor \<times> machine) outcome" where
  "unw_init_local M c uc = common_init M (c\<lparr>c_uc := uc, c_validate := False\<rparr>) True"

section \<open>The page cache\<close>

definition lga_inv :: "machine \<Rightarrow> bool" where
  "lga_inv M = (length (m_last_good_addr M) = NLGA \<and> m_lga_victim M < NLGA \<and>
     (\<forall>a\<in>set (m_last_good_addr M). PAGE_START a = a))"

lemma PAGE_START_idem [simp]: "PAGE_START (PAGE_START a) = PAGE_START a"
  by (simp add: PAGE_START_def and.assoc)

lemma PAGE_START_0 [simp]: "PAGE_START 0 = 0"
  by (simp add: PAGE_START_def)

lemma lga_slot_less: "victim < NLGA \<Longrightarrow> fst (lga_slot lga n victim) < NLGA"
  by (induction lga n victim rule: lga_slot.induct) (simp_all add: NLGA_def)

lemma validate_mem_cases:
  "validate_mem M a =
     (if PAGE_START a = 0 then (False, M)
      else if PAGE_START a \<in> set (take NLGA (m_last_good_addr M)) then (True, M)
      else let (i, free) = lga_slot (m_last_good_addr M) NLGA (m_lga_victim M) in
        (True, M\<lparr>m_last_good_addr := (m_last_good_addr M)[i := PAGE_START a],
                 m_lga_victim := if free then m_lga_victim M else (i + 1) mod NLGA\<rparr>))"
  if "length (m_last_good_addr M) = NLGA"
proof -
  have "(\<exists>i<NLGA. m_last_good_addr M ! i \<noteq> 0 \<and> PAGE_START a = m_last_good_addr M ! i) \<longleftrightarrow>
      PAGE_START a \<in> set (take NLGA (m_last_good_addr M))" if "PAGE_START a \<noteq> 0"
    using that \<open>length (m_last_good_addr M) = NLGA\<close> by (auto simp: in_set_conv_nth)
  then show ?thesis
    by (auto simp: validate_mem_def msync_validate_def Let_def split: prod.splits bool.splits)
qed

lemma validate_mem_inv:
  assumes "lga_inv M" "validate_mem M a = (v, M')"
  shows "v \<longleftrightarrow> PAGE_START a \<noteq> 0" "lga_inv M'" "m_mem M' = m_mem M"
    "v \<Longrightarrow> PAGE_START a \<in> set (m_last_good_addr M')"
proof -
  have len: "length (m_last_good_addr M) = NLGA" "m_lga_victim M < NLGA"
    using assms(1) by (simp_all add: lga_inv_def)
  obtain i b where s: "lga_slot (m_last_good_addr M) NLGA (m_lga_victim M) = (i, b)" by fastforce
  have i: "i < NLGA" using lga_slot_less [OF len(2), of "m_last_good_addr M" NLGA] s by simp
  have m: "(i + 1) mod NLGA < NLGA" by (simp add: NLGA_def)
  note eq = assms(2) [unfolded validate_mem_cases [OF len(1)] s Let_def prod.case, symmetric]
  show "v \<longleftrightarrow> PAGE_START a \<noteq> 0" "m_mem M' = m_mem M" using eq by (auto split: if_splits)
  show "v \<Longrightarrow> PAGE_START a \<in> set (m_last_good_addr M')"
    using eq i len by (auto simp: set_update_memI split: if_splits dest: in_set_takeD)
  show "lga_inv M'"
    using eq assms(1) i m by (auto simp: lga_inv_def split: if_splits dest!: set_update_subset_insert [THEN subsetD])
qed

lemma access_mem_read_mem:
  "access_mem_read M c a = Ok (v, M') \<Longrightarrow> v = read_word (m_mem M') a"
  by (auto simp: access_mem_read_def split: if_splits prod.splits)

text \<open>Reading through the cursor changes the page cache only, and always comes back.\<close>

lemma validate_mem_mem: "m_mem (snd (validate_mem M a)) = m_mem M"
  by (auto simp: validate_mem_def Let_def split: prod.splits bool.splits)

lemma access_mem_read_OkD: "access_mem_read M c a = Ok (v, M') \<Longrightarrow> m_mem M' = m_mem M"
  using validate_mem_mem [of M a] by (auto simp: access_mem_read_def split: if_splits prod.splits)

lemma dwarf_get_OkD:
  "dwarf_get M c l = Ok (v, M') \<Longrightarrow> m_mem M' = m_mem M \<and> v = read_word (m_mem M) l"
  using access_mem_read_OkD [of M c l v M'] access_mem_read_mem [of M c l v M']
  by (auto simp: dwarf_get_def split: if_splits)

lemma dwarf_get_returns [simp]: "returns (dwarf_get M c l)"
  by (auto simp: dwarf_get_def access_mem_read_def split: prod.splits)

lemma unw_get_reg_OkD: "unw_get_reg M c r = Ok (v, M') \<Longrightarrow> m_mem M' = m_mem M"
  by (auto simp: unw_get_reg_def tdep_access_reg_read_def Let_def split: if_splits
      dest: dwarf_get_OkD)

lemma unw_get_reg_returns [simp]: "returns (unw_get_reg M c r)"
  by (simp add: unw_get_reg_def tdep_access_reg_read_def Let_def)

section \<open>The register file\<close>

locale register_file =
  fixes getr :: "'s \<Rightarrow> int \<Rightarrow> u64 option"
    and setr :: "'s \<Rightarrow> int \<Rightarrow> u64 \<Rightarrow> 's"
    and ok :: "'s \<Rightarrow> bool"
    and writable :: "int set"
    and readable :: "int set"
  assumes ok_set: "ok s \<Longrightarrow> r \<in> writable \<Longrightarrow> ok (setr s r v)"
    and get_set_same: "ok s \<Longrightarrow> r \<in> writable \<Longrightarrow> getr (setr s r v) r = Some v"
    and get_set_other:
      "ok s \<Longrightarrow> r \<in> writable \<Longrightarrow> q \<in> readable \<Longrightarrow> q \<noteq> r \<Longrightarrow> getr (setr s r v) q = getr s q"
begin

primrec set_all :: "'s \<Rightarrow> (int \<times> u64) list \<Rightarrow> 's" where
  "set_all s [] = s"
| "set_all s (rv # rvs) = set_all (setr s (fst rv) (snd rv)) rvs"

lemma set_all_ok: "ok s \<Longrightarrow> fst ` set rvs \<subseteq> writable \<Longrightarrow> ok (set_all s rvs)"
  by (induction rvs arbitrary: s) (simp_all add: ok_set)

lemma get_set_all:
  assumes "ok s" "fst ` set rvs \<subseteq> writable" "q \<in> readable" "distinct (map fst rvs)"
  shows "getr (set_all s rvs) q = (case map_of rvs q of None \<Rightarrow> getr s q | Some v \<Rightarrow> Some v)"
  using assms
proof (induction rvs arbitrary: s)
  case (Cons rv rvs)
  obtain r v where rv: "rv = (r, v)" by (cases rv)
  have IH: "getr (set_all (setr s r v) rvs) q =
      (case map_of rvs q of None \<Rightarrow> getr (setr s r v) q | Some v \<Rightarrow> Some v)"
    using Cons ok_set rv by simp
  show ?case
  proof (cases "q = r")
    case True
    then have "map_of rvs q = None"
      using Cons.prems(4) rv by (auto simp: map_of_eq_None_iff)
    then show ?thesis using IH True rv Cons.prems get_set_same by simp
  next
    case False
    then show ?thesis using IH rv Cons.prems get_set_other by (auto split: option.splits)
  qed
qed simp

end

text \<open>
  The register interface of a cursor whose registers are all saved in memory, in places that do not
  overlap, and which does not validate addresses (\<open>unw_init_local\<close> makes such a cursor).
\<close>

definition rf_get :: "machine \<times> cursor \<Rightarrow> int \<Rightarrow> u64 option" where
  "rf_get s r = (case unw_get_reg (fst s) (snd s) r of Ok (v, _) \<Rightarrow> Some v | _ \<Rightarrow> None)"

definition rf_set :: "machine \<times> cursor \<Rightarrow> int \<Rightarrow> u64 \<Rightarrow> machine \<times> cursor" where
  "rf_set s r v = (case unw_set_reg (fst s) (snd s) r v of
     (Ok M, c) \<Rightarrow> (M, c) | (_, c) \<Rightarrow> (fst s, c))"

definition rf_ok :: "machine \<times> cursor \<Rightarrow> bool" where
  "rf_ok s = (length (c_loc (snd s)) = 17 \<and> length (c_eh_args (snd s)) = 2 \<and>
     \<not> c_validate (snd s) \<and> (\<forall>r<17. c_loc (snd s) ! r \<noteq> 0) \<and>
     (\<forall>r<17. \<forall>q<17. r \<noteq> q \<longrightarrow> apart (c_loc (snd s) ! r) (c_loc (snd s) ! q)))"

definition rf_mem :: "int set" where
  "rf_mem = {2, 3, 4, 5, 6, 8, 9, 10, 11, 12, 13, 14, 15}"

definition rf_writable :: "int set" where
  "rf_writable = {0, 1, 16} \<union> rf_mem"

definition rf_readable :: "int set" where
  "rf_readable = {0, 1, 7, 16, 17} \<union> rf_mem"

lemma rf_mem_range: "r \<in> rf_mem \<Longrightarrow> 0 \<le> r \<and> nat r < 17 \<and> r \<noteq> 0 \<and> r \<noteq> 1 \<and> r \<noteq> 16 \<and> r \<noteq> 7 \<and> r \<noteq> 17"
  by (auto simp: rf_mem_def)

lemma dwarf_put_nonnull: "l \<noteq> 0 \<Longrightarrow> dwarf_put M l v = Ok (M\<lparr>m_mem := write_word (m_mem M) l v\<rparr>)"
  by (simp add: dwarf_put_def DWARF_IS_NULL_LOC_def access_mem_write_def)

lemma dwarf_get_plain:
  "\<not> c_validate c \<Longrightarrow> l \<noteq> 0 \<Longrightarrow> dwarf_get M c l = Ok (read_word (m_mem M) l, M)"
  by (simp add: dwarf_get_def DWARF_IS_NULL_LOC_def access_mem_read_def)

lemma rf_get_simps:
  assumes "rf_ok (M, c)"
  shows "rf_get (M, c) 16 = Some (c_ip c)" "rf_get (M, c) 7 = Some (c_cfa c)"
    "rf_get (M, c) 17 = Some (c_cfa c)"
    "rf_get (M, c) 0 = Some (if bit (c_eh_valid_mask c) 0 then c_eh_args c ! 0
       else read_word (m_mem M) (c_loc c ! 0))"
    "rf_get (M, c) 1 = Some (if bit (c_eh_valid_mask c) 1 then c_eh_args c ! 1
       else read_word (m_mem M) (c_loc c ! 1))"
    "r \<in> rf_mem \<Longrightarrow> rf_get (M, c) r = Some (read_word (m_mem M) (c_loc c ! nat r))"
proof -
  have ok: "\<not> c_validate c" "\<And>r. r < 17 \<Longrightarrow> c_loc c ! r \<noteq> 0" using assms by (auto simp: rf_ok_def)
  have m: "c_eh_valid_mask c AND 1 \<noteq> 0 \<longleftrightarrow> bit (c_eh_valid_mask c) 0"
    "c_eh_valid_mask c AND 2 \<noteq> 0 \<longleftrightarrow> bit (c_eh_valid_mask c) 1"
    using and_exp_eq_0_iff_not_bit [of "c_eh_valid_mask c" 0]
      and_exp_eq_0_iff_not_bit [of "c_eh_valid_mask c" 1] by simp_all
  show "rf_get (M, c) 16 = Some (c_ip c)" "rf_get (M, c) 7 = Some (c_cfa c)"
    "rf_get (M, c) 17 = Some (c_cfa c)"
    by (simp_all add: rf_get_def unw_get_reg_def tdep_access_reg_read_def)
  show "rf_get (M, c) 0 = Some (if bit (c_eh_valid_mask c) 0 then c_eh_args c ! 0
       else read_word (m_mem M) (c_loc c ! 0))"
    "rf_get (M, c) 1 = Some (if bit (c_eh_valid_mask c) 1 then c_eh_args c ! 1
       else read_word (m_mem M) (c_loc c ! 1))"
    using m ok by (simp_all add: rf_get_def unw_get_reg_def tdep_access_reg_read_def Let_def
        dwarf_get_plain push_bit_eq_mult)
  show "rf_get (M, c) r = Some (read_word (m_mem M) (c_loc c ! nat r))" if "r \<in> rf_mem"
    using that rf_mem_range [OF that] ok
    by (simp add: rf_get_def unw_get_reg_def tdep_access_reg_read_def dwarf_get_plain
        flip: rf_mem_def)
qed

lemma rf_set_simps:
  assumes "rf_ok (M, c)"
  shows "rf_set (M, c) 16 v = (M\<lparr>m_mem := write_word (m_mem M) (c_loc c ! 16) v\<rparr>, c\<lparr>c_ip := v\<rparr>)"
    "rf_set (M, c) 0 v = (M, c\<lparr>c_eh_args := (c_eh_args c)[0 := v],
       c_eh_valid_mask := c_eh_valid_mask c OR 1\<rparr>)"
    "rf_set (M, c) 1 v = (M, c\<lparr>c_eh_args := (c_eh_args c)[1 := v],
       c_eh_valid_mask := c_eh_valid_mask c OR 2\<rparr>)"
    "r \<in> rf_mem \<Longrightarrow> rf_set (M, c) r v = (M\<lparr>m_mem := write_word (m_mem M) (c_loc c ! nat r) v\<rparr>, c)"
proof -
  have ok: "\<And>r. r < 17 \<Longrightarrow> c_loc c ! r \<noteq> 0" using assms by (auto simp: rf_ok_def)
  show "rf_set (M, c) 16 v = (M\<lparr>m_mem := write_word (m_mem M) (c_loc c ! 16) v\<rparr>, c\<lparr>c_ip := v\<rparr>)"
    "rf_set (M, c) 0 v = (M, c\<lparr>c_eh_args := (c_eh_args c)[0 := v],
       c_eh_valid_mask := c_eh_valid_mask c OR 1\<rparr>)"
    "rf_set (M, c) 1 v = (M, c\<lparr>c_eh_args := (c_eh_args c)[1 := v],
       c_eh_valid_mask := c_eh_valid_mask c OR 2\<rparr>)"
    using ok by (simp_all add: rf_set_def unw_set_reg_def tdep_access_reg_write_def Let_def
        dwarf_put_nonnull push_bit_eq_mult)
  show "rf_set (M, c) r v = (M\<lparr>m_mem := write_word (m_mem M) (c_loc c ! nat r) v\<rparr>, c)"
    if "r \<in> rf_mem"
    using that rf_mem_range [OF that] ok
    by (simp add: rf_set_def unw_set_reg_def tdep_access_reg_write_def dwarf_put_nonnull
        flip: rf_mem_def)
qed

lemma rf_ok_set:
  assumes "rf_ok (M, c)" "r \<in> rf_writable"
  shows "rf_ok (rf_set (M, c) r v)"
  using assms unfolding rf_writable_def
  by (auto simp: rf_set_simps [OF assms(1)]) (auto simp: rf_ok_def)

lemma rf_get_set_same:
  assumes "rf_ok (M, c)" "r \<in> rf_writable"
  shows "rf_get (rf_set (M, c) r v) r = Some v"
proof -
  have ok: "rf_ok (rf_set (M, c) r v)" by (rule rf_ok_set [OF assms])
  have len: "length (c_eh_args c) = 2" using assms(1) by (simp add: rf_ok_def)
  consider "r = 0" | "r = 1" | "r = 16" | "r \<in> rf_mem" using assms(2) by (auto simp: rf_writable_def)
  then show ?thesis
    using ok len
    by cases (simp_all add: rf_set_simps [OF assms(1)] rf_get_simps bit_or_iff bit_1_iff bit_numeral_rec)
qed

lemma rf_apart:
  assumes "rf_ok (M, c)" "r < 17" "q < 17" "r \<noteq> q"
  shows "read_word (write_word m (c_loc c ! r) v) (c_loc c ! q) = read_word m (c_loc c ! q)"
  using assms by (intro read_write_apart) (auto simp: rf_ok_def)

lemma rf_get_set_other:
  assumes "rf_ok (M, c)" "r \<in> rf_writable" "q \<in> rf_readable" "q \<noteq> r"
  shows "rf_get (rf_set (M, c) r v) q = rf_get (M, c) q"
proof -
  have ok: "rf_ok (rf_set (M, c) r v)" by (rule rf_ok_set [OF assms(1,2)])
  have b: "bit (w OR 1) (Suc 0) = bit w (Suc 0)" "bit (w OR 2) 0 = bit w 0" for w :: u32
    by (simp_all add: bit_or_iff bit_1_iff bit_numeral_rec)
  consider (args) "r = 0 \<or> r = 1" | (mem) "r \<in> rf_mem \<or> r = 16"
    using assms(2) by (auto simp: rf_writable_def)
  then show ?thesis
  proof cases
    case args
    then show ?thesis using assms(3,4) ok
      by (auto simp: rf_set_simps [OF assms(1)] rf_readable_def rf_get_simps rf_get_simps [OF assms(1)] b)
  next
    case mem
    then have r: "nat r < 17" "r \<noteq> 0" "r \<noteq> 1" using rf_mem_range [of r] by auto
    obtain c' where set: "rf_set (M, c) r v = (M\<lparr>m_mem := write_word (m_mem M) (c_loc c ! nat r) v\<rparr>, c')"
      and c': "c_loc c' = c_loc c" "c_eh_args c' = c_eh_args c"
        "c_eh_valid_mask c' = c_eh_valid_mask c" "c_cfa c' = c_cfa c" "r \<noteq> 16 \<Longrightarrow> c_ip c' = c_ip c"
      using mem by (auto simp: rf_set_simps [OF assms(1)])
    have ap: "read_word (write_word m (c_loc c ! nat r) v) (c_loc c ! k) = read_word m (c_loc c ! k)"
      if "k < 17" "k \<noteq> nat r" for m k using rf_apart [OF assms(1) r(1) that(1)] that(2) by metis
    have ap01: "read_word (write_word m (c_loc c ! nat r) v) (c_loc c ! 0) = read_word m (c_loc c ! 0)"
      "read_word (write_word m (c_loc c ! nat r) v) (c_loc c ! Suc 0) = read_word m (c_loc c ! Suc 0)"
      for m using ap [of 0] ap [of "Suc 0"] mem rf_mem_range [of r] by auto
    have "nat q \<noteq> nat r" if "q \<in> rf_mem"
      using that assms(4) mem rf_mem_range [of q] rf_mem_range [of r] by auto
    then show ?thesis using assms(3,4) ok mem r c' ap ap01 unfolding set rf_readable_def
      by (elim UnE insertE) (simp_all add: rf_get_simps rf_get_simps [OF assms(1)] rf_mem_range)
  qed
qed

interpretation rf: register_file rf_get rf_set rf_ok rf_writable rf_readable
proof unfold_locales
  fix s r v q
  assume ok: "rf_ok s" and r: "r \<in> rf_writable"
  then show "rf_ok (rf_set s r v)" "rf_get (rf_set s r v) r = Some v"
    using rf_ok_set rf_get_set_same by (metis surj_pair)+
  assume "q \<in> rf_readable" "q \<noteq> r"
  with ok r show "rf_get (rf_set s r v) q = rf_get s q" using rf_get_set_other by (metis surj_pair)
qed

section \<open>Properties of the register interface\<close>

text \<open>A sequence of \<open>unw_set_reg\<close> calls.\<close>

primrec unw_set_regs :: "machine \<times> cursor \<Rightarrow> (int \<times> u64) list \<Rightarrow> machine \<times> cursor" where
  "unw_set_regs s [] = s"
| "unw_set_regs s (rv # rvs) = unw_set_regs (rf_set s (fst rv) (snd rv)) rvs"

lemma unw_set_regs_eq: "unw_set_regs s rvs = rf.set_all s rvs"
  by (induction rvs arbitrary: s) simp_all

lemma uc_regs_apart:
  assumes "r < 17" "q < 17" "r \<noteq> q"
  shows "apart (uc + uc_mcontext_gregs ! r) (uc + uc_mcontext_gregs ! q)"
proof -
  have all: "\<forall>r\<in>set [0..<17]. \<forall>q\<in>set [0..<17]. r = q \<or>
      unat (uc_mcontext_gregs ! r) + 8 \<le> unat (uc_mcontext_gregs ! q) \<or>
      unat (uc_mcontext_gregs ! q) + 8 \<le> unat (uc_mcontext_gregs ! r)"
    "\<forall>r\<in>set [0..<17]. unat (uc_mcontext_gregs ! r) < 256"
    by (simp_all add: uc_mcontext_gregs_def upt_rec)
  let ?a = "uc_mcontext_gregs ! r" and ?b = "uc_mcontext_gregs ! q"
  have d: "unat ?a + 8 \<le> unat ?b \<or> unat ?b + 8 \<le> unat ?a" "unat ?a < 256" "unat ?b < 256"
    using all assms by force+
  have u: "unat (x + word_of_nat i) = unat x + i" if "unat x < 256" "i < 8" for x :: u64 and i
    using that by (intro unat_add_numeral_u64) simp
  have "?a + word_of_nat i \<noteq> ?b + word_of_nat j" if "i < 8" "j < 8" for i j
  proof
    assume "?a + word_of_nat i = ?b + word_of_nat j"
    then have "unat ?a + i = unat ?b + j" using u [OF d(2) that(1)] u [OF d(3) that(2)] by metis
    with d(1) that show False by linarith
  qed
  then show ?thesis by (simp add: apart_def add.assoc)
qed

lemma init_local_ok:
  assumes "uc \<noteq> 0" "unat uc + 256 < 2 ^ 64" "length (c_eh_args c) = 2"
  shows "\<exists>c'. unw_init_local M c uc = Ok (c', M) \<and> rf_ok (M, c') \<and>
    c_loc c' = map (\<lambda>off. uc + off) uc_mcontext_gregs \<and>
    c_ip c' = read_word (m_mem M) (uc + 0xb0) \<and> c_cfa c' = read_word (m_mem M) (uc + 0xc8) \<and>
    c_eh_valid_mask c' = c_eh_valid_mask c \<and> c_use_prev_instr c' \<and> \<not> c_pi_valid c'"
proof -
  have nz: "uc + uc_mcontext_gregs ! r \<noteq> 0" if "r < 17" for r
  proof -
    have "\<forall>r\<in>set [0..<17]. unat (uc_mcontext_gregs ! r) < 256"
      by (simp add: uc_mcontext_gregs_def upt_rec)
    with that have "unat (uc_mcontext_gregs ! r) < 256" by force
    with assms(2) have "unat (uc + uc_mcontext_gregs ! r) = unat uc + unat (uc_mcontext_gregs ! r)"
      by (intro unat_add_no_wrap) simp
    moreover have "0 < unat uc" using assms(1) by (simp add: unat_gt_0)
    ultimately show ?thesis by (metis unat_0 add_is_0 less_numeral_extra(3))
  qed
  have "length uc_mcontext_gregs = 17" "uc_mcontext_gregs ! 16 = 0xb0" "uc_mcontext_gregs ! 7 = 0xc8"
    by (simp_all add: uc_mcontext_gregs_def)
  with nz [of 16] nz [of 7] nz uc_regs_apart assms(3) show ?thesis
    unfolding unw_init_local_def common_init_def
    by (simp add: dwarf_get_def DWARF_IS_NULL_LOC_def access_mem_read_def DWARF_REG_LOC_def
        x86_64_r_uc_addr_def rf_ok_def)
qed

text \<open>After \<open>unw_init_local\<close> on a saved context, the cursor reads every register from it: the
  instruction pointer and the CFA are the saved \<open>rip\<close> and \<open>rsp\<close>, and \<open>unw_get_reg\<close> returns for each
  other register the value of its slot.\<close>

lemma init_local_registers:
  assumes "uc \<noteq> 0" "unat uc + 256 < 2 ^ 64" "length (c_eh_args c) = 2" "c_eh_valid_mask c = 0"
  shows "\<exists>c'. unw_init_local M c uc = Ok (c', M) \<and>
    unw_get_reg M c' (int RIP) = Ok (read_word (m_mem M) (uc + 0xb0), M) \<and>
    unw_get_reg M c' (int RSP) = Ok (read_word (m_mem M) (uc + 0xc8), M) \<and>
    (\<forall>r \<in> {0, 1, 2, 3, 4, 5, 6, 8, 9, 10, 11, 12, 13, 14, 15}.
      unw_get_reg M c' r = Ok (read_word (m_mem M) (x86_64_r_uc_addr uc r), M))"
proof -
  obtain c' where c': "unw_init_local M c uc = Ok (c', M)" "rf_ok (M, c')"
    "c_loc c' = map (\<lambda>off. uc + off) uc_mcontext_gregs" "c_ip c' = read_word (m_mem M) (uc + 0xb0)"
    "c_cfa c' = read_word (m_mem M) (uc + 0xc8)" "c_eh_valid_mask c' = 0"
    using init_local_ok [OF assms(1-3)] assms(4) by metis
  have len: "length uc_mcontext_gregs = 17" by (simp add: uc_mcontext_gregs_def)
  have l: "\<not> c_validate c'" "\<And>r. r < 17 \<Longrightarrow> c_loc c' ! r \<noteq> 0" using c'(2) by (auto simp: rf_ok_def)
  have "unw_get_reg M c' r = Ok (read_word (m_mem M) (x86_64_r_uc_addr uc r), M)"
    if "r \<in> {0, 1} \<union> rf_mem" for r
  proof -
    have r: "0 \<le> r" "nat r < 17" "r \<noteq> 16" "r \<noteq> 17" "r \<noteq> 7" using that rf_mem_range [of r] by auto
    have "r \<le> 16" using r by linarith
    then have a: "x86_64_r_uc_addr uc r = c_loc c' ! nat r"
      using r c'(3) len by (simp add: x86_64_r_uc_addr_def)
    have g: "dwarf_get M c' (c_loc c' ! nat r) = Ok (read_word (m_mem M) (c_loc c' ! nat r), M)"
      using l r by (intro dwarf_get_plain) auto
    then show ?thesis using that r c'(6) a
      by (auto simp: unw_get_reg_def tdep_access_reg_read_def Let_def simp flip: rf_mem_def)
  qed
  moreover have "{0, 1, 2, 3, 4, 5, 6, 8, 9, 10, 11, 12, 13, 14, 15} = {0, 1} \<union> rf_mem"
    unfolding rf_mem_def Un_insert_left Un_empty_left by (rule refl)
  moreover have "unw_get_reg M c' (int RIP) = Ok (read_word (m_mem M) (uc + 0xb0), M)"
    "unw_get_reg M c' (int RSP) = Ok (read_word (m_mem M) (uc + 0xc8), M)"
    using c'(4,5) by (simp_all add: unw_get_reg_def tdep_access_reg_read_def)
  ultimately show ?thesis using c'(1) by metis
qed

text \<open>A cursor and a machine for the witnesses.\<close>

definition cursor0 :: cursor where
  "cursor0 = \<lparr>c_cfa = 0, c_ip = 0, c_args_size = 0, c_ret_addr_column = 0, c_eh_args = [0, 0],
     c_eh_valid_mask = 0, c_loc = replicate 17 0, c_stash_frames = False, c_use_prev_instr = False,
     c_pi_valid = False, c_pi_is_dynamic = False, c_pi = zero_proc_info, c_hint = 0, c_prev_rs = 0,
     c_frame_info = \<lparr>virtual_address = 0, frame_type = UNW_X86_64_FRAME_STANDARD, last_frame = False,
       cfa_reg_rsp = False, cfa_reg_offset = 0, rbp_cfa_offset = 0, rsp_cfa_offset = 0\<rparr>,
     c_sigcontext_format = X86_64_SCF_NONE, c_sigcontext_addr = 0, c_validate = False, c_uc = 0\<rparr>"

definition machine0 :: machine where
  "machine0 = \<lparr>m_mem = (\<lambda>_. 0), m_last_good_addr = [0, 0, 0, 0], m_lga_victim = 0\<rparr>"



text \<open>What \<open>unw_set_reg\<close> refuses: the stack pointer and the CFA are read-only and an unknown
  number is a bad register, both without a change of the cursor; but a write of \<open>RIP\<close> whose save
  location is unknown fails with the instruction pointer of the cursor already changed.\<close>

lemma set_reg_errors:
  "unw_set_reg M c (int RSP) v = (Fail UNW_EREADONLYREG, c) \<and>
   unw_set_reg M c (int UNW_X86_64_CFA) v = (Fail UNW_EREADONLYREG, c) \<and>
   (0 \<le> r \<and> r \<le> 17 \<or> unw_set_reg M c r v = (Fail UNW_EBADREG, c)) \<and>
   (c_loc c ! RIP \<noteq> DWARF_NULL_LOC \<or>
      fst (unw_set_reg M c (int RIP) v) = Fail UNW_EBADREG \<and>
      c_ip (snd (unw_set_reg M c (int RIP) v)) = v)"
  by (auto simp: unw_set_reg_def tdep_access_reg_write_def dwarf_put_def DWARF_IS_NULL_LOC_def
      DWARF_NULL_LOC_def)

text \<open>The page cache of \<open>validate_mem\<close> stays well formed (four page addresses, a victim inside),
  an address is refused exactly on page 0, an accepted page is cached, and memory is not
  changed.\<close>

lemma validate_mem_cache:
  assumes "lga_inv M" "validate_mem M a = (valid, M')"
  shows "(valid \<longleftrightarrow> PAGE_START a \<noteq> 0) \<and> lga_inv M' \<and> m_mem M' = m_mem M \<and>
    (valid \<longrightarrow> PAGE_START a \<in> set (m_last_good_addr M'))"
  using validate_mem_inv [OF assms] by blast

end
