(* ===== verification/Dwarf_Expr.thy ===== *)
theory Dwarf_Expr
  imports Unw_Regs
begin

text \<open>
  The DWARF expression evaluator of \<^verbatim>\<open>Gexpr.c\<close>. The state of \<open>dwarf_eval_expr\<close> is the address of
  the next opcode, the two operands (which keep their value when an opcode reads none), the array
  \<open>stack\<close> of 64 words and the unsigned index \<open>tos\<close>; an element of the array that was never written is
  \<open>None\<close> and reading it is undefined. The groups of cases of the big switch are one definition each.
  In \<open>push (x)\<close> the C code tests for overflow, then evaluates \<open>stack[tos++] = (x)\<close>; where \<open>x\<close> itself
  uses \<open>tos\<close> (\<open>DW_OP_dup\<close>, \<open>DW_OP_pick\<close>, \<open>DW_OP_over\<close>, \<open>DW_OP_neg\<close>, \<open>DW_OP_not\<close>) the order of the two
  is left open by C, and the model evaluates \<open>x\<close> first, as the code needs.
\<close>

section \<open>Operands\<close>

datatype operand_type = VAL8 | VAL16 | VAL32 | VAL64 | ULEB128 | SLEB128 | OFFSET | ADDR

text \<open>The table \<open>operands\<close>: the types of the operands of an opcode, none for the others.\<close>

definition operands :: "dwarf_expr_op_t \<Rightarrow> operand_type list" where
  "operands opcode = (case opcode of
      DW_OP_addr \<Rightarrow> [ADDR]
    | DW_OP_const1u \<Rightarrow> [VAL8]
    | DW_OP_const1s \<Rightarrow> [VAL8]
    | DW_OP_const2u \<Rightarrow> [VAL16]
    | DW_OP_const2s \<Rightarrow> [VAL16]
    | DW_OP_const4u \<Rightarrow> [VAL32]
    | DW_OP_const4s \<Rightarrow> [VAL32]
    | DW_OP_const8u \<Rightarrow> [VAL64]
    | DW_OP_const8s \<Rightarrow> [VAL64]
    | DW_OP_pick \<Rightarrow> [VAL8]
    | DW_OP_plus_uconst \<Rightarrow> [ULEB128]
    | DW_OP_skip \<Rightarrow> [VAL16]
    | DW_OP_bra \<Rightarrow> [VAL16]
    | DW_OP_breg _ \<Rightarrow> [SLEB128]
    | DW_OP_regx \<Rightarrow> [ULEB128]
    | DW_OP_fbreg \<Rightarrow> [SLEB128]
    | DW_OP_bregx \<Rightarrow> [ULEB128, SLEB128]
    | DW_OP_piece \<Rightarrow> [ULEB128]
    | DW_OP_deref_size \<Rightarrow> [VAL8]
    | DW_OP_xderef_size \<Rightarrow> [VAL8]
    | DW_OP_call2 \<Rightarrow> [VAL16]
    | DW_OP_call4 \<Rightarrow> [VAL32]
    | DW_OP_call_ref \<Rightarrow> [OFFSET]
    | _ \<Rightarrow> [])"

definition sword :: "u64 \<Rightarrow> int" where
  "sword v = sint v"

definition read_operand :: "memory \<Rightarrow> addr \<Rightarrow> operand_type \<Rightarrow> (u64 \<times> addr) outcome" where
  "read_operand m a operand_type =
     (let operand_type = (if operand_type = ADDR then VAL64 else operand_type) in
      case operand_type of
        VAL8 \<Rightarrow> (let (v, a) = dwarf_readu8 m a in Ok (ucast v, a))
      | VAL16 \<Rightarrow> (let (v, a) = dwarf_readu16 m a in Ok (ucast v, a))
      | VAL32 \<Rightarrow> (let (v, a) = dwarf_readu32 m a in Ok (ucast v, a))
      | VAL64 \<Rightarrow> (let (v, a) = dwarf_readu64 m a in Ok (v, a))
      | ULEB128 \<Rightarrow> dwarf_read_uleb128 m a
      | SLEB128 \<Rightarrow> dwarf_read_sleb128 m a
      | _ \<Rightarrow> Fail UNW_EINVAL)"

section \<open>The evaluation stack\<close>

record expr_state =
  es_addr :: addr
  es_operand1 :: u64
  es_operand2 :: u64
  es_stack :: "u64 option list"
  es_tos :: u32

definition MAX_EXPR_STACK_SIZE :: u32 where
  "MAX_EXPR_STACK_SIZE = 64"

definition pop :: "expr_state \<Rightarrow> (u64 \<times> expr_state) outcome" where
  "pop s =
     (if es_tos s - 1 \<ge> MAX_EXPR_STACK_SIZE then Fail UNW_EINVAL
      else let tos = es_tos s - 1 in
        case es_stack s ! unat tos of
          None \<Rightarrow> UB
        | Some v \<Rightarrow> Ok (v, s\<lparr>es_tos := tos\<rparr>))"

definition push :: "u64 \<Rightarrow> expr_state \<Rightarrow> expr_state outcome" where
  "push x s =
     (if es_tos s \<ge> MAX_EXPR_STACK_SIZE then Fail UNW_EINVAL
      else Ok (s\<lparr>es_stack := (es_stack s)[unat (es_tos s) := Some x], es_tos := es_tos s + 1\<rparr>))"

definition pick :: "u64 \<Rightarrow> expr_state \<Rightarrow> u64 outcome" where
  "pick n s =
     (let index = es_tos s - 1 - ucast n in
      if index \<ge> MAX_EXPR_STACK_SIZE then Fail UNW_EINVAL
      else case es_stack s ! unat index of None \<Rightarrow> UB | Some v \<Rightarrow> Ok v)"

text \<open>\<open>push (x)\<close> for an \<open>x\<close> that works on the stack: the overflow test comes first.\<close>

definition push_expr ::
  "(expr_state \<Rightarrow> (u64 \<times> expr_state) outcome) \<Rightarrow> expr_state \<Rightarrow> expr_state outcome" where
  "push_expr x s =
     (if es_tos s \<ge> MAX_EXPR_STACK_SIZE then Fail UNW_EINVAL
      else obind (x s) (\<lambda>(v, s). push v s))"

definition push_pick :: "u64 \<Rightarrow> expr_state \<Rightarrow> expr_state outcome" where
  "push_pick n = push_expr (\<lambda>s. obind (pick n s) (\<lambda>v. Ok (v, s)))"

text \<open>\<open>tmp1 = pop (); tmp2 = pop (); push (f tmp1 tmp2)\<close>.\<close>

definition binop :: "(u64 \<Rightarrow> u64 \<Rightarrow> u64 outcome) \<Rightarrow> expr_state \<Rightarrow> expr_state outcome" where
  "binop f s =
     obind (pop s) (\<lambda>(tmp1, s). obind (pop s) (\<lambda>(tmp2, s). obind (f tmp1 tmp2) (\<lambda>v. push v s)))"

section \<open>The cases of the switch\<close>

definition exec_stack_op :: "dwarf_expr_op_t \<Rightarrow> expr_state \<Rightarrow> expr_state outcome" where
  "exec_stack_op opcode s = (case opcode of
      DW_OP_dup \<Rightarrow> push_pick 0 s
    | DW_OP_drop \<Rightarrow> obind (pop s) (\<lambda>(_, s). Ok s)
    | DW_OP_pick \<Rightarrow> push_pick (es_operand1 s) s
    | DW_OP_over \<Rightarrow> push_pick 1 s
    | DW_OP_swap \<Rightarrow>
        obind (pop s) (\<lambda>(tmp1, s). obind (pop s) (\<lambda>(tmp2, s).
        obind (push tmp1 s) (\<lambda>s. push tmp2 s)))
    | DW_OP_rot \<Rightarrow>
        obind (pop s) (\<lambda>(tmp1, s). obind (pop s) (\<lambda>(tmp2, s). obind (pop s) (\<lambda>(tmp3, s).
        obind (push tmp1 s) (\<lambda>s. obind (push tmp3 s) (\<lambda>s. push tmp2 s)))))
    | _ \<Rightarrow> Fail UNW_EINVAL)"

text \<open>C division of \<open>int64_t\<close>: truncating, undefined where the quotient does not fit.\<close>

definition sdiv64 :: "int \<Rightarrow> int \<Rightarrow> u64 outcome" where
  "sdiv64 x y =
     (let q = (if (x < 0) = (y < 0) then \<bar>x\<bar> div \<bar>y\<bar> else - (\<bar>x\<bar> div \<bar>y\<bar>)) in
      defined (y \<noteq> 0 \<and> q < 2 ^ 63) (Ok (word_of_int q)))"

definition exec_arith_op :: "dwarf_expr_op_t \<Rightarrow> expr_state \<Rightarrow> expr_state outcome" where
  "exec_arith_op opcode s = (case opcode of
      DW_OP_abs \<Rightarrow> obind (pop s) (\<lambda>(tmp1, s).
        push (if tmp1 AND push_bit (8 * 8 - 1) 1 \<noteq> 0 then - tmp1 else tmp1) s)
    | DW_OP_and \<Rightarrow> binop (\<lambda>tmp1 tmp2. Ok (tmp1 AND tmp2)) s
    | DW_OP_div \<Rightarrow> binop (\<lambda>tmp1 tmp2.
        if tmp1 \<noteq> 0 then sdiv64 (sword tmp2) (sword tmp1) else Ok tmp1) s
    | DW_OP_minus \<Rightarrow> binop (\<lambda>tmp1 tmp2. Ok (tmp2 - tmp1)) s
    | DW_OP_mod \<Rightarrow> binop (\<lambda>tmp1 tmp2. Ok (if tmp1 \<noteq> 0 then tmp2 mod tmp1 else tmp1)) s
    | DW_OP_mul \<Rightarrow> binop (\<lambda>tmp1 tmp2. Ok (if tmp1 \<noteq> 0 then tmp2 * tmp1 else tmp1)) s
    | DW_OP_neg \<Rightarrow> push_expr (\<lambda>s. obind (pop s) (\<lambda>(v, s). Ok (- v, s))) s
    | DW_OP_not \<Rightarrow> push_expr (\<lambda>s. obind (pop s) (\<lambda>(v, s). Ok (NOT v, s))) s
    | DW_OP_or \<Rightarrow> binop (\<lambda>tmp1 tmp2. Ok (tmp1 OR tmp2)) s
    | DW_OP_plus \<Rightarrow> binop (\<lambda>tmp1 tmp2. Ok (tmp1 + tmp2)) s
    | DW_OP_plus_uconst \<Rightarrow> obind (pop s) (\<lambda>(tmp1, s). push (tmp1 + es_operand1 s) s)
    | _ \<Rightarrow> Fail UNW_EINVAL)"

definition exec_shift_op :: "dwarf_expr_op_t \<Rightarrow> expr_state \<Rightarrow> expr_state outcome" where
  "exec_shift_op opcode s = (case opcode of
      DW_OP_shl \<Rightarrow> binop (\<lambda>tmp1 tmp2. shl64 tmp2 tmp1) s
    | DW_OP_shr \<Rightarrow> binop (\<lambda>tmp1 tmp2. shr64 tmp2 tmp1) s
    | DW_OP_shra \<Rightarrow> binop (\<lambda>tmp1 tmp2. sar64 tmp2 tmp1) s
    | DW_OP_xor \<Rightarrow> binop (\<lambda>tmp1 tmp2. Ok (tmp1 XOR tmp2)) s
    | _ \<Rightarrow> Fail UNW_EINVAL)"

definition of_cond :: "bool \<Rightarrow> u64" where
  "of_cond b = (if b then 1 else 0)"

definition exec_cmp_op :: "dwarf_expr_op_t \<Rightarrow> expr_state \<Rightarrow> expr_state outcome" where
  "exec_cmp_op opcode s = (case opcode of
      DW_OP_le \<Rightarrow> binop (\<lambda>tmp1 tmp2. Ok (of_cond (sword tmp1 \<le> sword tmp2))) s
    | DW_OP_ge \<Rightarrow> binop (\<lambda>tmp1 tmp2. Ok (of_cond (sword tmp1 \<ge> sword tmp2))) s
    | DW_OP_eq \<Rightarrow> binop (\<lambda>tmp1 tmp2. Ok (of_cond (sword tmp1 = sword tmp2))) s
    | DW_OP_lt \<Rightarrow> binop (\<lambda>tmp1 tmp2. Ok (of_cond (sword tmp1 < sword tmp2))) s
    | DW_OP_gt \<Rightarrow> binop (\<lambda>tmp1 tmp2. Ok (of_cond (sword tmp1 > sword tmp2))) s
    | DW_OP_ne \<Rightarrow> binop (\<lambda>tmp1 tmp2. Ok (of_cond (sword tmp1 \<noteq> sword tmp2))) s
    | _ \<Rightarrow> Fail UNW_EINVAL)"

text \<open>The constants; the three signed ones change \<open>operand1\<close> itself.\<close>

definition exec_const_op :: "dwarf_expr_op_t \<Rightarrow> expr_state \<Rightarrow> expr_state outcome" where
  "exec_const_op opcode s =
     (let operand1 = es_operand1 s in
      case opcode of
        DW_OP_const1s \<Rightarrow>
          (let operand1 = (if operand1 AND 0x80 \<noteq> 0 then operand1 OR push_bit 8 (- 1) else operand1)
           in push operand1 (s\<lparr>es_operand1 := operand1\<rparr>))
      | DW_OP_const2s \<Rightarrow>
          (let operand1 = (if operand1 AND 0x8000 \<noteq> 0 then operand1 OR push_bit 16 (- 1) else operand1)
           in push operand1 (s\<lparr>es_operand1 := operand1\<rparr>))
      | DW_OP_const4s \<Rightarrow>
          (let operand1 = (if operand1 AND 0x80000000 \<noteq> 0
                           then operand1 OR push_bit 16 (push_bit 16 (- 1)) else operand1)
           in push operand1 (s\<lparr>es_operand1 := operand1\<rparr>))
      | _ \<Rightarrow> push operand1 s)"

text \<open>\<open>dwarf_is_big_endian\<close> is false.\<close>

definition deref_size :: "memory \<Rightarrow> u64 \<Rightarrow> addr \<Rightarrow> u64 outcome" where
  "deref_size m operand1 tmp1 =
     (if operand1 = 1 then Ok (ucast (fst (dwarf_readu8 m tmp1)))
      else if operand1 = 2 then Ok (ucast (fst (dwarf_readu16 m tmp1)))
      else if operand1 = 3 \<or> operand1 = 4 then
        (let tmp2 = ucast (fst (dwarf_readu32 m tmp1)) in
         Ok (if operand1 = 3 then tmp2 AND 0xffffff else tmp2))
      else if operand1 = 5 \<or> operand1 = 6 \<or> operand1 = 7 \<or> operand1 = 8 then
        (let tmp2 = fst (dwarf_readu64 m tmp1) in
         if operand1 \<noteq> 8 then obind (shl64 (NOT 0) (8 * operand1)) (\<lambda>mask. Ok (tmp2 AND mask))
         else Ok tmp2)
      else Fail UNW_EINVAL)"

definition exec_deref_op :: "memory \<Rightarrow> dwarf_expr_op_t \<Rightarrow> expr_state \<Rightarrow> expr_state outcome" where
  "exec_deref_op m opcode s = (case opcode of
      DW_OP_deref \<Rightarrow> obind (pop s) (\<lambda>(tmp1, s).
        obind (dwarf_readw m tmp1) (\<lambda>(tmp2, _). push tmp2 s))
    | DW_OP_deref_size \<Rightarrow> obind (pop s) (\<lambda>(tmp1, s).
        obind (deref_size m (es_operand1 s) tmp1) (\<lambda>tmp2. push tmp2 s))
    | _ \<Rightarrow> Fail UNW_EINVAL)"

definition exec_jump_op :: "dwarf_expr_op_t \<Rightarrow> expr_state \<Rightarrow> expr_state outcome" where
  "exec_jump_op opcode s = (case opcode of
      DW_OP_skip \<Rightarrow> Ok (s\<lparr>es_addr := es_addr s + scast (ucast (es_operand1 s) :: u16)\<rparr>)
    | DW_OP_bra \<Rightarrow> obind (pop s) (\<lambda>(tmp1, s).
        Ok (if tmp1 \<noteq> 0 then s\<lparr>es_addr := es_addr s + scast (ucast (es_operand1 s) :: u16)\<rparr> else s))
    | _ \<Rightarrow> Fail UNW_EINVAL)"

text \<open>\<open>DW_OP_breg\<close> and \<open>DW_OP_bregx\<close>: a register of the frame plus an offset.\<close>

definition exec_breg ::
  "machine \<Rightarrow> cursor \<Rightarrow> u64 \<Rightarrow> u64 \<Rightarrow> expr_state \<Rightarrow> (expr_state \<times> machine) outcome" where
  "exec_breg M c reg off s =
     obind (dwarf_to_unw_regnum reg) (\<lambda>regnum.
     obind (unw_get_reg M c (int regnum)) (\<lambda>(tmp1, M).
     obind (push (tmp1 + off) s) (\<lambda>s. Ok (s, M))))"

section \<open>One iteration and the loop\<close>

datatype expr_next = Expr_Cont expr_state | Expr_Reg u64

definition exec_op ::
  "machine \<Rightarrow> cursor \<Rightarrow> dwarf_expr_op_t \<Rightarrow> expr_state \<Rightarrow> (expr_next \<times> machine) outcome" where
  "exec_op M c opcode s =
     (let cont = (\<lambda>r. obind r (\<lambda>s. Ok (Expr_Cont s, M))) in
      case opcode of
        DW_OP_lit n \<Rightarrow> cont (push (ucast n) s)
      | DW_OP_breg n \<Rightarrow>
          obind (exec_breg M c (ucast n) (es_operand1 s) s) (\<lambda>(s, M). Ok (Expr_Cont s, M))
      | DW_OP_bregx \<Rightarrow>
          obind (exec_breg M c (es_operand1 s) (es_operand2 s) s) (\<lambda>(s, M). Ok (Expr_Cont s, M))
      | DW_OP_reg n \<Rightarrow>
          obind (dwarf_to_unw_regnum (ucast n)) (\<lambda>r. Ok (Expr_Reg (word_of_nat r), M))
      | DW_OP_regx \<Rightarrow>
          obind (dwarf_to_unw_regnum (es_operand1 s)) (\<lambda>r. Ok (Expr_Reg (word_of_nat r), M))
      | DW_OP_addr \<Rightarrow> cont (exec_const_op opcode s)
      | DW_OP_const1u \<Rightarrow> cont (exec_const_op opcode s)
      | DW_OP_const2u \<Rightarrow> cont (exec_const_op opcode s)
      | DW_OP_const4u \<Rightarrow> cont (exec_const_op opcode s)
      | DW_OP_const8u \<Rightarrow> cont (exec_const_op opcode s)
      | DW_OP_constu \<Rightarrow> cont (exec_const_op opcode s)
      | DW_OP_const8s \<Rightarrow> cont (exec_const_op opcode s)
      | DW_OP_consts \<Rightarrow> cont (exec_const_op opcode s)
      | DW_OP_const1s \<Rightarrow> cont (exec_const_op opcode s)
      | DW_OP_const2s \<Rightarrow> cont (exec_const_op opcode s)
      | DW_OP_const4s \<Rightarrow> cont (exec_const_op opcode s)
      | DW_OP_deref \<Rightarrow> cont (exec_deref_op (m_mem M) opcode s)
      | DW_OP_deref_size \<Rightarrow> cont (exec_deref_op (m_mem M) opcode s)
      | DW_OP_dup \<Rightarrow> cont (exec_stack_op opcode s)
      | DW_OP_drop \<Rightarrow> cont (exec_stack_op opcode s)
      | DW_OP_pick \<Rightarrow> cont (exec_stack_op opcode s)
      | DW_OP_over \<Rightarrow> cont (exec_stack_op opcode s)
      | DW_OP_swap \<Rightarrow> cont (exec_stack_op opcode s)
      | DW_OP_rot \<Rightarrow> cont (exec_stack_op opcode s)
      | DW_OP_shl \<Rightarrow> cont (exec_shift_op opcode s)
      | DW_OP_shr \<Rightarrow> cont (exec_shift_op opcode s)
      | DW_OP_shra \<Rightarrow> cont (exec_shift_op opcode s)
      | DW_OP_xor \<Rightarrow> cont (exec_shift_op opcode s)
      | DW_OP_le \<Rightarrow> cont (exec_cmp_op opcode s)
      | DW_OP_ge \<Rightarrow> cont (exec_cmp_op opcode s)
      | DW_OP_eq \<Rightarrow> cont (exec_cmp_op opcode s)
      | DW_OP_lt \<Rightarrow> cont (exec_cmp_op opcode s)
      | DW_OP_gt \<Rightarrow> cont (exec_cmp_op opcode s)
      | DW_OP_ne \<Rightarrow> cont (exec_cmp_op opcode s)
      | DW_OP_skip \<Rightarrow> cont (exec_jump_op opcode s)
      | DW_OP_bra \<Rightarrow> cont (exec_jump_op opcode s)
      | DW_OP_nop \<Rightarrow> cont (Ok s)
      | _ \<Rightarrow> cont (exec_arith_op opcode s))"

text \<open>Fetching the opcode and its operands.\<close>

definition fetch_op :: "memory \<Rightarrow> expr_state \<Rightarrow> (dwarf_expr_op_t \<times> expr_state) outcome" where
  "fetch_op m s =
     (let (opcode, a) = dwarf_readu8 m (es_addr s); op = dwarf_expr_op opcode in
      case operands op of
        [] \<Rightarrow> Ok (op, s\<lparr>es_addr := a\<rparr>)
      | t1 # ts \<Rightarrow>
          obind (read_operand m a t1) (\<lambda>(v1, a).
          let s = s\<lparr>es_operand1 := v1, es_addr := a\<rparr> in
          case ts of
            [] \<Rightarrow> Ok (op, s)
          | t2 # _ \<Rightarrow>
              obind (read_operand m a t2) (\<lambda>(v2, a).
                Ok (op, s\<lparr>es_operand2 := v2, es_addr := a\<rparr>))))"

definition expr_step ::
  "machine \<Rightarrow> cursor \<Rightarrow> expr_state \<Rightarrow> (expr_next \<times> machine) outcome" where
  "expr_step M c s = obind (fetch_op (m_mem M) s) (\<lambda>(op, s). exec_op M c op s)"

text \<open>The while loop; the result is the value and whether it is a register number.\<close>

fun expr_loop ::
  "nat \<Rightarrow> machine \<Rightarrow> cursor \<Rightarrow> addr \<Rightarrow> expr_state \<Rightarrow> (u64 \<times> bool \<times> machine) outcome" where
  "expr_loop fuel M c end_addr s =
     (if es_addr s < end_addr then
        (case fuel of
           0 \<Rightarrow> Diverge
         | Suc fuel \<Rightarrow>
             obind (expr_step M c s) (\<lambda>(next, M).
             case next of
               Expr_Reg r \<Rightarrow> Ok (r, True, M)
             | Expr_Cont s \<Rightarrow> expr_loop fuel M c end_addr s))
      else obind (pop s) (\<lambda>(v, s). Ok (v, False, M)))"

declare expr_loop.simps [simp del]

definition expr_init :: "addr \<Rightarrow> expr_state" where
  "expr_init a = \<lparr>es_addr = a, es_operand1 = 0, es_operand2 = 0,
     es_stack = replicate 64 None, es_tos = 0\<rparr>"

definition dwarf_eval_expr ::
  "nat \<Rightarrow> machine \<Rightarrow> cursor \<Rightarrow> addr \<Rightarrow> u64 \<Rightarrow> (u64 \<times> bool \<times> machine) outcome" where
  "dwarf_eval_expr fuel M c a len =
     obind (push (c_cfa c) (expr_init a)) (\<lambda>s. expr_loop fuel M c (a + len) s)"

section \<open>The stack as a list\<close>

text \<open>
  The contract of the evaluation stack: a list of at most \<open>cap\<close> words with the top at its head, where
  an operation that does not fit fails with \<open>UNW_EINVAL\<close> and nothing else of the state changes.
\<close>

locale bounded_stack =
  fixes pushs :: "u64 \<Rightarrow> 's \<Rightarrow> 's outcome"
    and pops :: "'s \<Rightarrow> (u64 \<times> 's) outcome"
    and picks :: "u64 \<Rightarrow> 's \<Rightarrow> u64 outcome"
    and items :: "'s \<Rightarrow> u64 list"
    and env :: "'s \<Rightarrow> 'e"
    and wf :: "'s \<Rightarrow> bool"
    and cap :: nat
  assumes items_cap: "wf s \<Longrightarrow> length (items s) \<le> cap"
    and push_full: "wf s \<Longrightarrow> length (items s) = cap \<Longrightarrow> pushs v s = Fail UNW_EINVAL"
    and push_room: "wf s \<Longrightarrow> length (items s) < cap \<Longrightarrow>
      \<exists>s'. pushs v s = Ok s' \<and> wf s' \<and> items s' = v # items s \<and> env s' = env s"
    and pop_empty: "wf s \<Longrightarrow> items s = [] \<Longrightarrow> pops s = Fail UNW_EINVAL"
    and pop_Cons: "wf s \<Longrightarrow> items s = v # vs \<Longrightarrow>
      \<exists>s'. pops s = Ok (v, s') \<and> wf s' \<and> items s' = vs \<and> env s' = env s"
    and pick_law: "wf s \<Longrightarrow> n < 256 \<Longrightarrow>
      picks n s = (if unat n < length (items s) then Ok (items s ! unat n) else Fail UNW_EINVAL)"
begin

text \<open>A computation on the stack simulates one on the list.\<close>

definition sim :: "'e \<Rightarrow> 's outcome \<Rightarrow> u64 list outcome \<Rightarrow> bool" where
  "sim e r t = rel_outcome (\<lambda>s xs. wf s \<and> items s = xs \<and> env s = e) r t"

lemma sim_simps [simp]:
  "sim e (Ok s) (Ok xs) = (wf s \<and> items s = xs \<and> env s = e)"
  "sim e (Fail x) (Fail y) = (x = y)" "sim e UB UB"
  by (simp_all add: sim_def)

lemma sim_push:
  assumes "wf s"
  shows "sim (env s) (pushs v s)
    (if length (items s) < cap then Ok (v # items s) else Fail UNW_EINVAL)"
proof (cases "length (items s) < cap")
  case True
  with push_room [OF assms True, of v] show ?thesis by auto
next
  case False
  with items_cap [OF assms] push_full [OF assms, of v] show ?thesis by simp
qed

lemma sim_pop:
  assumes "wf s"
    and "\<And>v vs s'. items s = v # vs \<Longrightarrow> wf s' \<Longrightarrow> items s' = vs \<Longrightarrow> env s' = env s \<Longrightarrow>
      length vs < cap \<Longrightarrow> sim (env s) (k (v, s')) (h v vs)"
  shows "sim (env s) (obind (pops s) k)
    (case items s of [] \<Rightarrow> Fail UNW_EINVAL | v # vs \<Rightarrow> h v vs)"
proof (cases "items s")
  case Nil
  then show ?thesis using pop_empty [OF assms(1)] by simp
next
  case (Cons v vs)
  then obtain s' where s': "pops s = Ok (v, s')" "wf s'" "items s' = vs" "env s' = env s"
    using pop_Cons [OF assms(1)] by metis
  then show ?thesis using assms(2) [OF Cons s'(2-4)] items_cap [OF assms(1)] Cons by simp
qed

lemma sim_unop:
  assumes "wf s" "\<And>v s'. env s' = env s \<Longrightarrow> g v s' = f v"
  shows "sim (env s) (obind (pops s) (\<lambda>(v, s). obind (g v s) (\<lambda>x. pushs x s)))
    (case items s of [] \<Rightarrow> Fail UNW_EINVAL | v # vs \<Rightarrow> obind (f v) (\<lambda>x. Ok (x # vs)))"
proof (rule sim_pop [OF assms(1)])
  fix v vs s'
  assume *: "wf s'" "items s' = vs" "env s' = env s" "length vs < cap"
  have "sim (env s) (obind (f v) (\<lambda>x. pushs x s')) (obind (f v) (\<lambda>x. Ok (x # vs)))"
    using sim_push [OF *(1)] *(2-4) by (cases "f v") (simp_all add: sim_def)
  then show "sim (env s) (case (v, s') of (v, s) \<Rightarrow> obind (g v s) (\<lambda>x. pushs x s))
      (obind (f v) (\<lambda>x. Ok (x # vs)))"
    using assms(2) [OF *(3)] by simp
qed

lemma sim_binop:
  assumes "wf s"
  shows "sim (env s)
    (obind (pops s) (\<lambda>(v, s). obind (pops s) (\<lambda>(w, s). obind (f v w) (\<lambda>x. pushs x s))))
    (case items s of v # w # vs \<Rightarrow> obind (f v w) (\<lambda>x. Ok (x # vs)) | _ \<Rightarrow> Fail UNW_EINVAL)"
proof -
  have "sim (env s)
      (obind (pops s) (\<lambda>(v, s). obind (pops s) (\<lambda>(w, s). obind (f v w) (\<lambda>x. pushs x s))))
      (case items s of [] \<Rightarrow> Fail UNW_EINVAL | v # vs \<Rightarrow>
        (case vs of [] \<Rightarrow> Fail UNW_EINVAL | w # ws \<Rightarrow> obind (f v w) (\<lambda>x. Ok (x # ws))))"
  proof (rule sim_pop [OF assms])
    fix v vs s'
    assume *: "wf s'" "items s' = vs" "env s' = env s"
    from sim_unop [OF *(1), of "\<lambda>w _. f v w" "f v"] *(2,3)
    show "sim (env s)
        (case (v, s') of (v, s) \<Rightarrow> obind (pops s) (\<lambda>(w, s). obind (f v w) (\<lambda>x. pushs x s)))
        (case vs of [] \<Rightarrow> Fail UNW_EINVAL | w # ws \<Rightarrow> obind (f v w) (\<lambda>x. Ok (x # ws)))"
      by simp
  qed
  then show ?thesis by (simp split: list.splits)
qed

lemma sim_push_pick:
  assumes "wf s" "n < 256" "length (items s) < cap"
  shows "sim (env s) (obind (picks n s) (\<lambda>v. pushs v s))
    (if unat n < length (items s) then Ok (items s ! unat n # items s) else Fail UNW_EINVAL)"
  using pick_law [OF assms(1,2)] sim_push [OF assms(1)] assms(3) by simp

lemma sim_swap:
  assumes "wf s"
  shows "sim (env s)
    (obind (pops s) (\<lambda>(v, s). obind (pops s) (\<lambda>(w, s). obind (pushs v s) (\<lambda>s. pushs w s))))
    (case items s of v # w # vs \<Rightarrow> Ok (w # v # vs) | _ \<Rightarrow> Fail UNW_EINVAL)"
proof -
  have "sim (env s)
    (obind (pops s) (\<lambda>(v, s). obind (pops s) (\<lambda>(w, s). obind (pushs v s) (\<lambda>s. pushs w s))))
      (case items s of [] \<Rightarrow> Fail UNW_EINVAL | v # vs \<Rightarrow>
        (case vs of [] \<Rightarrow> Fail UNW_EINVAL | w # ws \<Rightarrow> Ok (w # v # ws)))"
  proof (rule sim_pop [OF assms])
    fix v vs s1
    assume 1: "wf s1" "items s1 = vs" "env s1 = env s" "length vs < cap"
    have "sim (env s1) (obind (pops s1) (\<lambda>(w, s). obind (pushs v s) (\<lambda>s. pushs w s)))
        (case items s1 of [] \<Rightarrow> Fail UNW_EINVAL | w # ws \<Rightarrow> Ok (w # v # ws))"
    proof (rule sim_pop [OF 1(1)])
      fix w ws s2
      assume 2: "items s1 = w # ws" "wf s2" "items s2 = ws" "env s2 = env s1" "length ws < cap"
      obtain s3 where 3: "pushs v s2 = Ok s3" "wf s3" "items s3 = v # ws" "env s3 = env s1"
        using push_room [OF 2(2), of v] 2(3-5) by auto
      have "length (items s3) < cap" using 1(2,4) 2(1) 3(3) by auto
      with 3 sim_push [OF 3(2), of w]
      show "sim (env s1) (case (w, s2) of (w, s) \<Rightarrow> obind (pushs v s) (pushs w)) (Ok (w # v # ws))"
        by simp
    qed
    with 1(2,3) show "sim (env s)
        (case (v, s1) of (v, s) \<Rightarrow> obind (pops s) (\<lambda>(w, s). obind (pushs v s) (\<lambda>s. pushs w s)))
        (case vs of [] \<Rightarrow> Fail UNW_EINVAL | w # ws \<Rightarrow> Ok (w # v # ws))"
      by simp
  qed
  then show ?thesis by (simp split: list.splits)
qed

lemma sim_drop:
  assumes "wf s"
  shows "sim (env s) (obind (pops s) (\<lambda>(_, s). Ok s))
    (case items s of [] \<Rightarrow> Fail UNW_EINVAL | v # vs \<Rightarrow> Ok vs)"
  by (rule sim_pop [OF assms]) simp

end

text \<open>The array with its index implements the contract.\<close>

definition es_items :: "expr_state \<Rightarrow> u64 list" where
  "es_items s = rev (map the (take (unat (es_tos s)) (es_stack s)))"

definition es_env :: "expr_state \<Rightarrow> addr \<times> u64 \<times> u64" where
  "es_env s = (es_addr s, es_operand1 s, es_operand2 s)"

definition es_wf :: "expr_state \<Rightarrow> bool" where
  "es_wf s = (length (es_stack s) = 64 \<and> unat (es_tos s) \<le> 64 \<and>
     (\<forall>i<unat (es_tos s). es_stack s ! i \<noteq> None))"

lemma length_es_items: "es_wf s \<Longrightarrow> length (es_items s) = unat (es_tos s)"
  by (simp add: es_items_def es_wf_def)

lemma tos_full: "unat (es_tos s) \<le> 64 \<Longrightarrow> (es_tos s \<ge> MAX_EXPR_STACK_SIZE) = (unat (es_tos s) = 64)"
  by (auto simp: MAX_EXPR_STACK_SIZE_def word_le_nat_alt)

lemma unat_u32_pred: "unat (t :: u32) = Suc k \<Longrightarrow> unat (t - 1) = k"
proof -
  assume a: "unat t = Suc k"
  then have "1 \<le> t" by (simp add: word_le_nat_alt)
  then show ?thesis using a by (simp add: unat_sub)
qed

lemma unat_u32_succ: "unat (t :: u32) < 64 \<Longrightarrow> unat (t + 1) = Suc (unat t)"
  by (simp add: unat_word_ariths)

lemma es_push_room:
  assumes "es_wf s" "length (es_items s) < 64"
  shows "\<exists>s'. push v s = Ok s' \<and> es_wf s' \<and> es_items s' = v # es_items s \<and> es_env s' = es_env s"
proof -
  have t: "unat (es_tos s) < 64" "length (es_stack s) = 64" "\<forall>i<unat (es_tos s). es_stack s ! i \<noteq> None"
    using assms length_es_items [OF assms(1)] by (simp_all add: es_wf_def)
  let ?s = "s\<lparr>es_stack := (es_stack s)[unat (es_tos s) := Some v], es_tos := es_tos s + 1\<rparr>"
  have "push v s = Ok ?s" using t tos_full [of s] by (simp add: push_def)
  moreover have "es_wf ?s"
    using t unat_u32_succ [OF t(1)] by (auto simp: es_wf_def nth_list_update less_Suc_eq)
  moreover have "es_items ?s = v # es_items s"
    using t unat_u32_succ [OF t(1)] by (simp add: es_items_def take_Suc_conv_app_nth)
  ultimately show ?thesis by (auto simp: es_env_def)
qed

lemma es_pop_Cons:
  assumes "es_wf s" "es_items s = v # vs"
  shows "\<exists>s'. pop s = Ok (v, s') \<and> es_wf s' \<and> es_items s' = vs \<and> es_env s' = es_env s"
proof -
  obtain k where k: "unat (es_tos s) = Suc k" "k < 64" "length (es_stack s) = 64"
      "\<forall>i<unat (es_tos s). es_stack s ! i \<noteq> None"
    using assms length_es_items [OF assms(1)] by (cases "unat (es_tos s)") (auto simp: es_wf_def)
  have p: "unat (es_tos s - 1) = k" by (rule unat_u32_pred [OF k(1)])
  have it: "es_items s = the (es_stack s ! k) # rev (map the (take k (es_stack s)))"
    using k by (simp add: es_items_def take_Suc_conv_app_nth)
  have "\<not> MAX_EXPR_STACK_SIZE \<le> es_tos s - 1"
    using p k(2) by (simp add: MAX_EXPR_STACK_SIZE_def word_le_nat_alt)
  then have "pop s = Ok (v, s\<lparr>es_tos := es_tos s - 1\<rparr>)"
    using assms(2) it k p by (auto simp: pop_def Let_def split: option.splits)
  moreover have "es_wf (s\<lparr>es_tos := es_tos s - 1\<rparr>)" using k p by (auto simp: es_wf_def)
  moreover have "es_items (s\<lparr>es_tos := es_tos s - 1\<rparr>) = vs" using assms(2) it p by (simp add: es_items_def)
  ultimately show ?thesis by (auto simp: es_env_def)
qed

lemma es_pop_empty:
  assumes "es_wf s" "es_items s = []"
  shows "pop s = Fail UNW_EINVAL"
proof -
  have "es_tos s = 0" using assms length_es_items [OF assms(1)] by (simp add: unat_0_iff)
  then show ?thesis by (simp add: pop_def MAX_EXPR_STACK_SIZE_def)
qed

lemma es_pick:
  assumes "es_wf s" "n < 256"
  shows "pick n s = (if unat n < length (es_items s) then Ok (es_items s ! unat n) else Fail UNW_EINVAL)"
proof -
  let ?t = "unat (es_tos s)" and ?i = "es_tos s - 1 - ucast n"
  have t: "?t \<le> 64" "length (es_stack s) = 64" "\<forall>i<?t. es_stack s ! i \<noteq> None"
    and len: "length (es_items s) = ?t"
    using assms length_es_items [OF assms(1)] by (simp_all add: es_wf_def)
  have n: "unat n < 256" "unat (ucast n :: u32) = unat n"
    using assms(2) by (simp_all add: word_less_nat_alt unsigned_ucast_eq take_bit_nat_eq_self)
  show ?thesis
  proof (cases "unat n < ?t")
    case True
    then obtain k where k: "?t = Suc k" "unat n \<le> k" by (cases ?t) auto
    have i: "unat ?i = k - unat n"
      using unat_u32_pred [OF k(1)] k(2) n(2) by (subst unat_sub) (simp_all add: word_le_nat_alt)
    then have "\<not> MAX_EXPR_STACK_SIZE \<le> ?i"
      using k t(1) by (simp add: MAX_EXPR_STACK_SIZE_def word_le_nat_alt)
    moreover have "es_items s ! unat n = the (es_stack s ! (k - unat n))"
      using k t by (simp add: es_items_def rev_nth)
    ultimately show ?thesis
      using True i t k len by (auto simp: pick_def Let_def split: option.splits)
  next
    case False
    have "unat (es_tos s - 1) = (if ?t = 0 then 2 ^ 32 - 1 else ?t - 1)"
      by (simp add: unat_sub_if')
    then have "64 \<le> unat ?i" using False n t(1) by (simp add: unat_sub_if' [of "es_tos s - 1"]) linarith
    then have "MAX_EXPR_STACK_SIZE \<le> ?i" by (simp add: MAX_EXPR_STACK_SIZE_def word_le_nat_alt)
    then show ?thesis using False len by (simp add: pick_def Let_def)
  qed
qed

interpretation es: bounded_stack push pop pick es_items es_env es_wf 64
proof unfold_locales
  fix s v
  show "length (es_items s) \<le> 64" if "es_wf s" using that length_es_items [OF that] by (simp add: es_wf_def)
  show "push v s = Fail UNW_EINVAL" if "es_wf s" "length (es_items s) = 64"
    using that length_es_items [OF that(1)] tos_full [of s] by (simp add: push_def)
qed (fact es_push_room es_pop_empty es_pop_Cons es_pick)+

section \<open>The stack operations on lists\<close>

text \<open>
  What each opcode of the four stack groups does to the stack, top first; \<open>n\<close> is the first operand.
  An operation that both pops and pushes inside one \<open>push\<close> needs a free element, because the overflow
  test comes first.
\<close>

definition spec_un :: "(u64 \<Rightarrow> u64) \<Rightarrow> u64 list \<Rightarrow> u64 list outcome" where
  "spec_un f st = (case st of v # vs \<Rightarrow> Ok (f v # vs) | _ \<Rightarrow> Fail UNW_EINVAL)"

definition spec_bin :: "(u64 \<Rightarrow> u64 \<Rightarrow> u64 outcome) \<Rightarrow> u64 list \<Rightarrow> u64 list outcome" where
  "spec_bin f st =
     (case st of v # w # vs \<Rightarrow> obind (f v w) (\<lambda>x. Ok (x # vs)) | _ \<Rightarrow> Fail UNW_EINVAL)"

definition spec_pick :: "nat \<Rightarrow> u64 list \<Rightarrow> u64 list outcome" where
  "spec_pick n st =
     (if length st < 64 \<and> n < length st then Ok (st ! n # st) else Fail UNW_EINVAL)"

definition op_spec :: "dwarf_expr_op_t \<Rightarrow> u64 \<Rightarrow> u64 list \<Rightarrow> u64 list outcome" where
  "op_spec opcode n st = (case opcode of
      DW_OP_dup \<Rightarrow> spec_pick 0 st
    | DW_OP_over \<Rightarrow> spec_pick 1 st
    | DW_OP_pick \<Rightarrow> spec_pick (unat n) st
    | DW_OP_drop \<Rightarrow> (case st of v # vs \<Rightarrow> Ok vs | _ \<Rightarrow> Fail UNW_EINVAL)
    | DW_OP_swap \<Rightarrow> (case st of v # w # vs \<Rightarrow> Ok (w # v # vs) | _ \<Rightarrow> Fail UNW_EINVAL)
    | DW_OP_rot \<Rightarrow> (case st of v # w # x # vs \<Rightarrow> Ok (w # x # v # vs) | _ \<Rightarrow> Fail UNW_EINVAL)
    | DW_OP_abs \<Rightarrow> spec_un (\<lambda>v. if sint v < 0 then - v else v) st
    | DW_OP_neg \<Rightarrow> (if length st < 64 then spec_un (\<lambda>v. - v) st else Fail UNW_EINVAL)
    | DW_OP_not \<Rightarrow> (if length st < 64 then spec_un (\<lambda>v. NOT v) st else Fail UNW_EINVAL)
    | DW_OP_plus_uconst \<Rightarrow> spec_un (\<lambda>v. v + n) st
    | DW_OP_and \<Rightarrow> spec_bin (\<lambda>v w. Ok (w AND v)) st
    | DW_OP_or \<Rightarrow> spec_bin (\<lambda>v w. Ok (w OR v)) st
    | DW_OP_xor \<Rightarrow> spec_bin (\<lambda>v w. Ok (w XOR v)) st
    | DW_OP_plus \<Rightarrow> spec_bin (\<lambda>v w. Ok (w + v)) st
    | DW_OP_minus \<Rightarrow> spec_bin (\<lambda>v w. Ok (w - v)) st
    | DW_OP_mul \<Rightarrow> spec_bin (\<lambda>v w. Ok (w * v)) st
    | DW_OP_div \<Rightarrow> spec_bin (\<lambda>v w. if v = 0 then Ok 0 else sdiv64 (sint w) (sint v)) st
    | DW_OP_mod \<Rightarrow> spec_bin (\<lambda>v w. Ok (if v = 0 then 0 else w mod v)) st
    | DW_OP_shl \<Rightarrow> spec_bin (\<lambda>v w. defined (v < 64) (Ok (w * 2 ^ unat v))) st
    | DW_OP_shr \<Rightarrow> spec_bin (\<lambda>v w. defined (v < 64) (Ok (w div 2 ^ unat v))) st
    | DW_OP_shra \<Rightarrow> spec_bin (\<lambda>v w. defined (v < 64) (Ok (signed_drop_bit (unat v) w))) st
    | DW_OP_eq \<Rightarrow> spec_bin (\<lambda>v w. Ok (if v = w then 1 else 0)) st
    | DW_OP_ne \<Rightarrow> spec_bin (\<lambda>v w. Ok (if v = w then 0 else 1)) st
    | DW_OP_le \<Rightarrow> spec_bin (\<lambda>v w. Ok (if v \<le>s w then 1 else 0)) st
    | DW_OP_ge \<Rightarrow> spec_bin (\<lambda>v w. Ok (if w \<le>s v then 1 else 0)) st
    | DW_OP_lt \<Rightarrow> spec_bin (\<lambda>v w. Ok (if v <s w then 1 else 0)) st
    | DW_OP_gt \<Rightarrow> spec_bin (\<lambda>v w. Ok (if w <s v then 1 else 0)) st
    | _ \<Rightarrow> Fail UNW_EINVAL)"

text \<open>The opcodes \<open>op_spec\<close> describes, and the case of the switch that runs them.\<close>

definition exec_pure :: "dwarf_expr_op_t \<Rightarrow> expr_state \<Rightarrow> expr_state outcome" where
  "exec_pure opcode s =
     (if opcode \<in> {DW_OP_dup, DW_OP_drop, DW_OP_pick, DW_OP_over, DW_OP_swap, DW_OP_rot}
      then exec_stack_op opcode s
      else if opcode \<in> {DW_OP_shl, DW_OP_shr, DW_OP_shra, DW_OP_xor} then exec_shift_op opcode s
      else if opcode \<in> {DW_OP_le, DW_OP_ge, DW_OP_eq, DW_OP_lt, DW_OP_gt, DW_OP_ne}
      then exec_cmp_op opcode s
      else exec_arith_op opcode s)"

definition pure_op :: "dwarf_expr_op_t \<Rightarrow> bool" where
  "pure_op opcode = (opcode \<in> {DW_OP_dup, DW_OP_drop, DW_OP_pick, DW_OP_over, DW_OP_swap, DW_OP_rot,
     DW_OP_shl, DW_OP_shr, DW_OP_shra, DW_OP_xor, DW_OP_le, DW_OP_ge, DW_OP_eq, DW_OP_lt, DW_OP_gt,
     DW_OP_ne, DW_OP_abs, DW_OP_and, DW_OP_div, DW_OP_minus, DW_OP_mod, DW_OP_mul, DW_OP_neg,
     DW_OP_not, DW_OP_or, DW_OP_plus, DW_OP_plus_uconst})"

lemma exec_op_pure:
  "pure_op opcode \<Longrightarrow> exec_op M c opcode s = obind (exec_pure opcode s) (\<lambda>s. Ok (Expr_Cont s, M))"
  by (auto simp: pure_op_def exec_op_def exec_pure_def Let_def)

lemma binop_sim: "es_wf s \<Longrightarrow> (\<And>v w. f v w = g v w) \<Longrightarrow>
   es.sim (es_env s) (binop f s) (spec_bin g (es_items s))"
proof -
  assume "es_wf s" and fg: "\<And>v w. f v w = g v w"
  have "f = g" by (intro ext) (rule fg)
  with es.sim_binop [OF \<open>es_wf s\<close>, of g] show ?thesis by (simp add: binop_def spec_bin_def)
qed

lemma push_expr_sim:
  assumes "es_wf s" "length (es_items s) < 64 \<Longrightarrow> es.sim (es_env s) (obind (x s) (\<lambda>(v, s). push v s)) t"
  shows "es.sim (es_env s) (push_expr x s) (if length (es_items s) < 64 then t else Fail UNW_EINVAL)"
proof -
  have "unat (es_tos s) \<le> 64" using assms(1) by (simp add: es_wf_def)
  then show ?thesis
    using assms(2) tos_full [of s] length_es_items [OF assms(1)] by (auto simp: push_expr_def)
qed

lemma push_pick_sim:
  assumes "es_wf s" "n < 256"
  shows "es.sim (es_env s) (push_pick n s) (spec_pick (unat n) (es_items s))"
proof -
  have "es.sim (es_env s) (push_pick n s) (if length (es_items s) < 64 then
      (if unat n < length (es_items s) then Ok (es_items s ! unat n # es_items s) else Fail UNW_EINVAL)
      else Fail UNW_EINVAL)"
    unfolding push_pick_def
    by (rule push_expr_sim [OF assms(1)])
       (use es.sim_push_pick [OF assms] in \<open>simp add: obind_assoc\<close>)
  then show ?thesis by (simp add: spec_pick_def split: if_splits)
qed

lemma unop_sim:
  assumes "es_wf s" "\<And>v s'. es_env s' = es_env s \<Longrightarrow> g v s' = f v"
  shows "es.sim (es_env s) (obind (pop s) (\<lambda>(v, s). push (g v s) s)) (spec_un f (es_items s))"
  using es.sim_unop [OF assms(1), of "\<lambda>v s. Ok (g v s)" "\<lambda>v. Ok (f v)"] assms(2)
  by (simp add: spec_un_def cong: list.case_cong)

lemma rot_sim:
  assumes "es_wf s"
  shows "es.sim (es_env s) (exec_stack_op DW_OP_rot s)
    (case es_items s of v # w # x # vs \<Rightarrow> Ok (w # x # v # vs) | _ \<Rightarrow> Fail UNW_EINVAL)"
proof -
  let ?k = "\<lambda>v. \<lambda>(w, s). obind (pop s) (\<lambda>(x, s).
      obind (push v s) (\<lambda>s. obind (push x s) (\<lambda>s. push w s)))"
  let ?h = "\<lambda>v vs. case vs of [] \<Rightarrow> Fail UNW_EINVAL | w # ws \<Rightarrow>
      (case ws of [] \<Rightarrow> Fail UNW_EINVAL | x # xs \<Rightarrow> Ok (w # x # v # xs))"
  have "es.sim (es_env s) (obind (pop s) (\<lambda>(v, s). obind (pop s) (?k v)))
      (case es_items s of [] \<Rightarrow> Fail UNW_EINVAL | v # vs \<Rightarrow> ?h v vs)"
  proof (rule es.sim_pop [OF assms])
    fix v vs s1
    assume 1: "es_wf s1" "es_items s1 = vs" "es_env s1 = es_env s" "length vs < 64"
    have "es.sim (es_env s1) (obind (pop s1) (?k v)) (case es_items s1 of [] \<Rightarrow> Fail UNW_EINVAL
        | w # ws \<Rightarrow> (case ws of [] \<Rightarrow> Fail UNW_EINVAL | x # xs \<Rightarrow> Ok (w # x # v # xs)))"
    proof (rule es.sim_pop [OF 1(1)])
      fix w ws s2
      assume 2: "es_wf s2" "es_items s2 = ws" "es_env s2 = es_env s1" "length ws < 64"
        "es_items s1 = w # ws"
      have "es.sim (es_env s2) (obind (pop s2) (\<lambda>(x, s).
            obind (push v s) (\<lambda>s. obind (push x s) (\<lambda>s. push w s))))
          (case es_items s2 of [] \<Rightarrow> Fail UNW_EINVAL | x # xs \<Rightarrow> Ok (w # x # v # xs))"
      proof (rule es.sim_pop [OF 2(1)])
        fix x xs s3
        assume 3: "es_items s2 = x # xs" "es_wf s3" "es_items s3 = xs" "es_env s3 = es_env s2"
        have len: "Suc (Suc (length xs)) < 64" using 1(2,4) 2(2,5) 3(1) by auto
        obtain s4 where 4: "push v s3 = Ok s4" "es_wf s4" "es_items s4 = v # xs" "es_env s4 = es_env s2"
          using es.push_room [OF 3(2), of v] 3(3,4) len by auto
        obtain s5 where 5: "push x s4 = Ok s5" "es_wf s5" "es_items s5 = x # v # xs"
            "es_env s5 = es_env s2"
          using es.push_room [OF 4(2), of x] 4(3,4) len by auto
        obtain s6 where "push w s5 = Ok s6" "es_wf s6" "es_items s6 = w # x # v # xs"
            "es_env s6 = es_env s2"
          using es.push_room [OF 5(2), of w] 5(3,4) len by auto
        with 4(1) 5(1) show "es.sim (es_env s2) (case (x, s3) of (x, s) \<Rightarrow>
            obind (push v s) (\<lambda>s. obind (push x s) (push w))) (Ok (w # x # v # xs))"
          by simp
      qed
      with 2(2,3) show "es.sim (es_env s1) (?k v (w, s2))
          (case ws of [] \<Rightarrow> Fail UNW_EINVAL | x # xs \<Rightarrow> Ok (w # x # v # xs))" by simp
    qed
    with 1(2,3) show "es.sim (es_env s) (case (v, s1) of (v, s) \<Rightarrow> obind (pop s) (?k v)) (?h v vs)"
      by simp
  qed
  then show ?thesis by (simp add: exec_stack_op_def split: list.splits)
qed

lemma and_sign_bit: "((v :: u64) AND 0x8000000000000000 = 0) = (\<not> sint v < 0)"
  using and_exp_eq_0_iff_not_bit [of v 63] bit_last_iff [of v] by simp

lemma operand1_env: "es_env s' = es_env s \<Longrightarrow> es_operand1 s' = es_operand1 s"
  by (simp add: es_env_def)

lemma stack_ops_sim:
  assumes "es_wf s" "opcode \<in> {DW_OP_dup, DW_OP_drop, DW_OP_pick, DW_OP_over, DW_OP_swap, DW_OP_rot}"
    "opcode = DW_OP_pick \<Longrightarrow> es_operand1 s < 256"
  shows "es.sim (es_env s) (exec_stack_op opcode s) (op_spec opcode (es_operand1 s) (es_items s))"
  using assms push_pick_sim [OF assms(1), of 0] push_pick_sim [OF assms(1), of 1]
    push_pick_sim [OF assms(1), of "es_operand1 s"] es.sim_drop [OF assms(1)]
    es.sim_swap [OF assms(1)] rot_sim [OF assms(1)]
  by (elim insertE) (simp_all add: exec_stack_op_def op_spec_def split: list.splits)

lemma arith_ops_sim:
  assumes "es_wf s" "opcode \<in> {DW_OP_abs, DW_OP_and, DW_OP_div, DW_OP_minus, DW_OP_mod, DW_OP_mul,
      DW_OP_neg, DW_OP_not, DW_OP_or, DW_OP_plus, DW_OP_plus_uconst}"
  shows "es.sim (es_env s) (exec_arith_op opcode s) (op_spec opcode (es_operand1 s) (es_items s))"
proof -
  have neg: "es.sim (es_env s) (push_expr (\<lambda>s. obind (pop s) (\<lambda>(v, s). Ok (f v, s))) s)
      (if length (es_items s) < 64 then spec_un f (es_items s) else Fail UNW_EINVAL)" for f
    by (rule push_expr_sim [OF assms(1)])
       (use unop_sim [OF assms(1), of "\<lambda>v _. f v" f] in \<open>simp add: obind_assoc case_prod_unfold\<close>)
  have abs: "es.sim (es_env s) (exec_arith_op DW_OP_abs s) (op_spec DW_OP_abs n (es_items s))" for n
    unfolding exec_arith_op_def op_spec_def dwarf_expr_op_t.case
    by (rule unop_sim [OF assms(1)]) (simp add: push_bit_eq_mult and_sign_bit)
  have plus: "es.sim (es_env s) (exec_arith_op DW_OP_plus_uconst s)
      (op_spec DW_OP_plus_uconst (es_operand1 s) (es_items s))"
    unfolding exec_arith_op_def op_spec_def dwarf_expr_op_t.case
    by (rule unop_sim [OF assms(1)]) (drule operand1_env, simp)
  have negs: "es.sim (es_env s) (exec_arith_op DW_OP_neg s) (op_spec DW_OP_neg n (es_items s))"
    "es.sim (es_env s) (exec_arith_op DW_OP_not s) (op_spec DW_OP_not n (es_items s))" for n
    unfolding exec_arith_op_def op_spec_def dwarf_expr_op_t.case
    using neg [of uminus] neg [of "\<lambda>v. NOT v"] by simp_all
  have bins: "es.sim (es_env s) (exec_arith_op opcode s) (op_spec opcode (es_operand1 s) (es_items s))"
    if "opcode \<in> {DW_OP_and, DW_OP_div, DW_OP_minus, DW_OP_mod, DW_OP_mul, DW_OP_or, DW_OP_plus}"
    using that
    apply (elim insertE emptyE)
          apply (simp_all only: exec_arith_op_def op_spec_def dwarf_expr_op_t.case)
          apply (rule binop_sim [OF assms(1)]; simp add: sword_def ac_simps)+
    done
  from assms(2) abs plus negs bins show ?thesis by (elim insertE emptyE) simp_all
qed

lemma shift_ops_sim:
  assumes "es_wf s" "opcode \<in> {DW_OP_shl, DW_OP_shr, DW_OP_shra, DW_OP_xor}"
  shows "es.sim (es_env s) (exec_shift_op opcode s) (op_spec opcode (es_operand1 s) (es_items s))"
  using assms(2)
  apply (elim insertE emptyE)
     apply (simp_all only: exec_shift_op_def op_spec_def dwarf_expr_op_t.case)
     apply (rule binop_sim [OF assms(1)];
      simp add: shl64_def shr64_def sar64_def push_bit_eq_mult drop_bit_eq_div ac_simps)+
  done

lemma cmp_ops_sim:
  assumes "es_wf s" "opcode \<in> {DW_OP_le, DW_OP_ge, DW_OP_eq, DW_OP_lt, DW_OP_gt, DW_OP_ne}"
  shows "es.sim (es_env s) (exec_cmp_op opcode s) (op_spec opcode (es_operand1 s) (es_items s))"
  using assms(2)
  apply (elim insertE emptyE)
       apply (simp_all only: exec_cmp_op_def op_spec_def dwarf_expr_op_t.case)
       apply (rule binop_sim [OF assms(1)];
      simp add: of_cond_def sword_def word_sle_eq word_sless_alt flip: word_eq_iff_signed)+
  done

lemma pure_ops_sim:
  assumes "es_wf s" "pure_op opcode" "opcode = DW_OP_pick \<Longrightarrow> es_operand1 s < 256"
  shows "es.sim (es_env s) (exec_pure opcode s) (op_spec opcode (es_operand1 s) (es_items s))"
  using stack_ops_sim [OF assms(1) _ assms(3)] shift_ops_sim [OF assms(1)] cmp_ops_sim [OF assms(1)]
    arith_ops_sim [OF assms(1)] assms(2)
  unfolding exec_pure_def pure_op_def by auto

section \<open>The evaluator keeps its stack well formed\<close>

lemma sim_OkD: "es.sim e (Ok s) t \<Longrightarrow> es_wf s \<and> es_env s = e"
  by (cases t) (auto simp: es.sim_def)

lemma push_OkD: "es_wf s \<Longrightarrow> push v s = Ok s' \<Longrightarrow> es_wf s' \<and> es_env s' = es_env s"
  using es.sim_push [of s v] sim_OkD by metis

lemma pop_OkD: "es_wf s \<Longrightarrow> pop s = Ok (v, s') \<Longrightarrow> es_wf s' \<and> es_env s' = es_env s"
  using es.pop_empty [of s] es.pop_Cons [of s] by (cases "es_items s") fastforce+

lemma es_addr_env: "es_env s' = es_env s \<Longrightarrow> es_addr s' = es_addr s"
  by (simp add: es_env_def)

lemma const_op_eq: "\<exists>w. exec_const_op opcode s = push w (s\<lparr>es_operand1 := w\<rparr>)"
  by (cases opcode;
      ((simp only: exec_const_op_def Let_def dwarf_expr_op_t.case, rule exI, rule refl)
       | (rule exI [of _ "es_operand1 s"], simp add: exec_const_op_def)))

lemma const_op_OkD:
  assumes "es_wf s" "exec_const_op opcode s = Ok s'"
  shows "es_wf s' \<and> es_addr s' = es_addr s"
proof -
  obtain w where w: "push w (s\<lparr>es_operand1 := w\<rparr>) = Ok s'" using const_op_eq assms(2) by metis
  have "es_wf (s\<lparr>es_operand1 := w\<rparr>)" using assms(1) by (simp add: es_wf_def)
  from push_OkD [OF this w] show ?thesis by (simp add: es_env_def)
qed

lemma deref_op_OkD:
  assumes "es_wf s" "exec_deref_op m opcode s = Ok s'"
  shows "es_wf s' \<and> es_addr s' = es_addr s"
proof -
  obtain t s1 v where 1: "pop s = Ok (t, s1)" "push v s1 = Ok s'"
    using assms(2) by (cases opcode) (auto simp: exec_deref_op_def)
  note p = pop_OkD [OF assms(1) 1(1)]
  from p push_OkD [OF _ 1(2)] es_addr_env [of s' s1] es_addr_env [of s1 s] show ?thesis by simp
qed

lemma jump_op_OkD:
  assumes "es_wf s" "exec_jump_op opcode s = Ok s'"
  shows "es_wf s' \<and> (es_addr s' = es_addr s \<or>
    es_addr s' = es_addr s + scast (ucast (es_operand1 s) :: u16))"
proof -
  have "\<exists>s1. es_wf s1 \<and> es_env s1 = es_env s \<and>
      (s' = s1 \<or> s' = s1\<lparr>es_addr := es_addr s1 + scast (ucast (es_operand1 s1) :: u16)\<rparr>)"
  proof (cases "opcode = DW_OP_skip")
    case True
    then show ?thesis using assms by (intro exI [of _ s]) (simp add: exec_jump_op_def)
  next
    case False
    then obtain t s1 where 1: "pop s = Ok (t, s1)"
      "s' = (if t \<noteq> 0 then s1\<lparr>es_addr := es_addr s1 + scast (ucast (es_operand1 s1) :: u16)\<rparr> else s1)"
      using assms(2) by (cases opcode) (auto simp: exec_jump_op_def)
    from pop_OkD [OF assms(1) 1(1)] 1(2) show ?thesis by (intro exI [of _ s1]) simp
  qed
  then show ?thesis by (auto simp: es_env_def es_wf_def)
qed

lemma breg_OkD:
  assumes "es_wf s" "exec_breg M c r off s = Ok (s', M')"
  shows "es_wf s' \<and> es_addr s' = es_addr s"
proof -
  obtain v where "push v s = Ok s'" using assms(2) by (auto simp: exec_breg_def)
  from push_OkD [OF assms(1) this] es_addr_env [of s' s] show ?thesis by simp
qed

text \<open>One case of the switch: the stack stays well formed and only a jump moves the address.\<close>

lemma exec_op_OkD:
  assumes "es_wf s" "opcode = DW_OP_pick \<Longrightarrow> es_operand1 s < 256"
    "exec_op M c opcode s = Ok (Expr_Cont s', M')"
  shows "es_wf s'"
    "es_addr s' = es_addr s \<or>
     opcode \<in> {DW_OP_skip, DW_OP_bra} \<and>
     es_addr s' = es_addr s + scast (ucast (es_operand1 s) :: u16)"
proof -
  have "es_wf s' \<and> (es_addr s' = es_addr s \<or> opcode \<in> {DW_OP_skip, DW_OP_bra} \<and>
     es_addr s' = es_addr s + scast (ucast (es_operand1 s) :: u16))"
  proof (cases "pure_op opcode")
    case True
    then have "exec_pure opcode s = Ok s'" using assms(3) by (simp add: exec_op_pure)
    with pure_ops_sim [OF assms(1) True assms(2)] show ?thesis
      using sim_OkD [of "es_env s" s'] es_addr_env [of s' s] by auto
  next
    case False
    have push: "es_wf s' \<and> es_addr s' = es_addr s" if "push v s = Ok s'" for v
      using push_OkD [OF assms(1) that] es_addr_env by blast
    note facts = push const_op_OkD [OF assms(1)] deref_op_OkD [OF assms(1)] breg_OkD [OF assms(1)]
      jump_op_OkD [OF assms(1)]
    from False assms(1,3) show ?thesis
      by (cases opcode)
         (simp_all add: exec_op_def pure_op_def exec_arith_op_def Let_def,
          (blast dest: facts)+)
  qed
  then show "es_wf s'" "es_addr s' = es_addr s \<or> opcode \<in> {DW_OP_skip, DW_OP_bra} \<and>
     es_addr s' = es_addr s + scast (ucast (es_operand1 s) :: u16)" by blast+
qed

section \<open>Progress through the bytes\<close>

lemma leb_loop_advance:
  "leb_loop m a v s = Ok (b, v', s', a') \<Longrightarrow>
     \<exists>n. a' = a + word_of_nat n \<and> 1 \<le> n \<and> unat s + 7 * n \<le> 70"
proof (induction m a v s rule: leb_loop.induct)
  case (1 m a val shift)
  from "1.prems" have lt: "unat shift < 64"
    by (subst (asm) leb_loop.simps) (auto simp: Let_def unat_less_64)
  have u: "unat (shift + 7) = unat shift + 7"
    using unat_add_numeral_u64 [of shift 7] lt by simp
  show ?case
  proof (cases "m a AND 0x80 = 0")
    case True
    with "1.prems" have "a' = a + 1" by (subst (asm) leb_loop.simps) (auto simp: Let_def)
    with lt show ?thesis by (intro exI [of _ 1]) simp
  next
    case False
    with "1.prems" obtain x where x: "shl64 (ucast (m a) AND 0x7f) shift = Ok x"
      "leb_loop m (a + 1) (val OR x) (shift + 7) = Ok (b, v', s', a')"
      by (subst (asm) leb_loop.simps) (auto simp: Let_def)
    from "1.IH" [OF refl x(1) False x(2)] obtain n where
      "a' = a + 1 + word_of_nat n" "1 \<le> n" "unat (shift + 7) + 7 * n \<le> 70" by blast
    then show ?thesis using u by (intro exI [of _ "Suc n"]) (simp add: algebra_simps)
  qed
qed

lemma uleb128_advance:
  "dwarf_read_uleb128 m a = Ok (v, a') \<Longrightarrow> \<exists>n. a' = a + word_of_nat n \<and> 1 \<le> n \<and> n \<le> 10"
  by (fastforce simp: dwarf_read_uleb128_def dest: leb_loop_advance)

lemma sleb128_advance:
  "dwarf_read_sleb128 m a = Ok (v, a') \<Longrightarrow> \<exists>n. a' = a + word_of_nat n \<and> 1 \<le> n \<and> n \<le> 10"
  by (fastforce simp: dwarf_read_sleb128_def split: if_splits dest: leb_loop_advance)

lemma read_operand_advance:
  assumes "read_operand m a t = Ok (v, a')"
  shows "\<exists>n. a' = a + word_of_nat n \<and> 1 \<le> n \<and> n \<le> 10"
proof -
  consider "t = ULEB128" | "t = SLEB128" |
    n where "n \<in> {1, 2, 4, 8}" "a' = a + word_of_nat n"
    using assms that(3) [of 1] that(3) [of 2] that(3) [of 4] that(3) [of 8]
    by (cases t) (simp_all add: read_operand_def dwarf_readu8_def dwarf_readu16_def
        dwarf_readu32_def dwarf_readu64_def)
  then show ?thesis
  proof cases
    case 1
    with assms uleb128_advance show ?thesis by (simp add: read_operand_def)
  next
    case 2
    with assms sleb128_advance show ?thesis by (simp add: read_operand_def)
  next
    case (3 n)
    then show ?thesis by (intro exI [of _ n]) auto
  qed
qed

lemma scast_u16_nonneg:
  assumes "unat (w :: u16) < 0x8000"
  shows "scast w = (word_of_nat (unat w) :: u64)"
proof -
  have u: "uint w = int (unat w)" by simp
  have "- (2 ^ 15) \<le> int (unat w)" "int (unat w) < 2 ^ 15"
    using assms by (simp_all del: of_nat_unat)
  then have "signed_take_bit 15 (int (unat w)) = int (unat w)" by (rule signed_take_bit_int_eq_self)
  then have "sint w = int (unat w)" unfolding sint_uint u by simp
  then have "(word_of_int (sint w) :: u64) = word_of_nat (unat w)" by (simp only: of_int_of_nat_eq)
  then show ?thesis by (simp only: scast_eq)
qed

lemma ucast_ucast_u16 [simp]: "ucast (ucast (w :: u16) :: u64) = w"
  by (rule bit_word_eqI) (simp add: bit_simps)

lemma operands_length: "operands op = t1 # t2 # ts \<Longrightarrow> ts = []"
  by (cases op) (auto simp: operands_def)

lemma fetch_op_OkD:
  assumes "fetch_op m s = Ok (op, s')"
  shows "op = dwarf_expr_op (m (es_addr s))" "es_stack s' = es_stack s" "es_tos s' = es_tos s"
    "\<exists>n. es_addr s' = es_addr s + word_of_nat n \<and> 1 \<le> n \<and> n \<le> 21"
proof -
  let ?op = "dwarf_expr_op (m (es_addr s))"
  have "op = ?op \<and> es_stack s' = es_stack s \<and> es_tos s' = es_tos s \<and>
    (\<exists>n. es_addr s' = es_addr s + word_of_nat n \<and> 1 \<le> n \<and> n \<le> 21)"
  proof (cases "operands ?op")
    case Nil
    with assms show ?thesis
      by (auto simp: fetch_op_def dwarf_readu8_def Let_def intro!: exI [of _ 1])
  next
    case (Cons t1 ts)
    then obtain v1 a1 where 1: "read_operand m (es_addr s + 1) t1 = Ok (v1, a1)"
      using assms by (auto simp: fetch_op_def dwarf_readu8_def Let_def)
    obtain n1 where n1: "a1 = es_addr s + 1 + word_of_nat n1" "1 \<le> n1" "n1 \<le> 10"
      using read_operand_advance [OF 1] by blast
    show ?thesis
    proof (cases ts)
      case Nil
      with assms Cons 1 n1 show ?thesis
        by (auto simp: fetch_op_def dwarf_readu8_def Let_def algebra_simps intro!: exI [of _ "Suc n1"])
    next
      case (Cons t2 us)
      then obtain v2 a2 where 2: "read_operand m a1 t2 = Ok (v2, a2)"
        using assms 1 \<open>operands ?op = t1 # ts\<close> by (auto simp: fetch_op_def dwarf_readu8_def Let_def)
      obtain n2 where "a2 = a1 + word_of_nat n2" "1 \<le> n2" "n2 \<le> 10"
        using read_operand_advance [OF 2] by blast
      with assms 1 2 n1 Cons \<open>operands ?op = t1 # ts\<close> show ?thesis
        by (auto simp: fetch_op_def dwarf_readu8_def Let_def algebra_simps intro!: exI [of _ "Suc (n1 + n2)"])
    qed
  qed
  then show "op = ?op" "es_stack s' = es_stack s" "es_tos s' = es_tos s"
    "\<exists>n. es_addr s' = es_addr s + word_of_nat n \<and> 1 \<le> n \<and> n \<le> 21" by blast+
qed

lemma fetch_pick:
  "fetch_op m s = Ok (DW_OP_pick, s') \<Longrightarrow> es_operand1 s' < 256"
proof -
  assume a: "fetch_op m s = Ok (DW_OP_pick, s')"
  then have "operands (dwarf_expr_op (m (es_addr s))) = [VAL8]"
    using fetch_op_OkD(1) [OF a] by (simp add: operands_def)
  with a have "es_operand1 s' = ucast (m (es_addr s + 1))"
    by (auto simp: fetch_op_def dwarf_readu8_def Let_def read_operand_def)
  then show ?thesis
    using unsigned_less [of "m (es_addr s + 1)"] by (simp add: word_less_nat_alt unat_ucast_up)
qed

lemma fetch_jump:
  assumes "fetch_op m s = Ok (op, s')" "op \<in> {DW_OP_skip, DW_OP_bra}"
  shows "es_operand1 s' = ucast (fst (dwarf_readu16 m (es_addr s + 1)))"
    "es_addr s' = es_addr s + 3"
proof -
  have "operands (dwarf_expr_op (m (es_addr s))) = [VAL16]"
    using fetch_op_OkD(1) [OF assms(1)] assms(2) by (auto simp: operands_def)
  with assms(1) show "es_operand1 s' = ucast (fst (dwarf_readu16 m (es_addr s + 1)))"
    "es_addr s' = es_addr s + 3"
    by (auto simp: fetch_op_def dwarf_readu8_def Let_def read_operand_def dwarf_readu16_def)
qed

lemma expr_step_wf:
  assumes "es_wf s" "expr_step M c s = Ok (Expr_Cont s', M')"
  shows "es_wf s'"
proof -
  obtain op s1 where f: "fetch_op (m_mem M) s = Ok (op, s1)"
    and x: "exec_op M c op s1 = Ok (Expr_Cont s', M')"
    using assms(2) by (auto simp: expr_step_def)
  have "es_wf s1" using fetch_op_OkD(2,3) [OF f] assms(1) by (simp add: es_wf_def)
  then show ?thesis using exec_op_OkD(1) [OF _ _ x] fetch_pick f by auto
qed

text \<open>Every jump that starts in a range of addresses goes forward.\<close>

definition forward_jumps :: "memory \<Rightarrow> addr \<Rightarrow> addr \<Rightarrow> bool" where
  "forward_jumps m a e = (\<forall>x. a \<le> x \<and> x < e \<and> dwarf_expr_op (m x) \<in> {DW_OP_skip, DW_OP_bra} \<longrightarrow>
     fst (dwarf_readu16 m (x + 1)) < 0x8000)"

lemma expr_step_progress:
  assumes "es_wf s" "expr_step M c s = Ok (Expr_Cont s', M')"
    "forward_jumps (m_mem M) a e" "a \<le> es_addr s" "es_addr s < e" "unat e + 0x9000 < 2 ^ 64"
  shows "es_addr s < es_addr s'"
proof -
  obtain op s1 where f: "fetch_op (m_mem M) s = Ok (op, s1)"
    and x: "exec_op M c op s1 = Ok (Expr_Cont s', M')"
    using assms(2) by (auto simp: expr_step_def)
  obtain n where n: "es_addr s1 = es_addr s + word_of_nat n" "1 \<le> n" "n \<le> 21"
    using fetch_op_OkD(4) [OF f] by blast
  have lt: "unat (es_addr s) < unat e" using assms(5) by (simp add: word_less_nat_alt)
  have adv: "es_addr s < es_addr s + word_of_nat k" if "1 \<le> k" "k \<le> 0x8010" for k
  proof -
    have "unat (es_addr s) + k < 2 ^ 64" using lt assms(6) that(2) by linarith
    from unat_add_numeral_u64 [OF this] that(1) show ?thesis by (simp add: word_less_nat_alt)
  qed
  have "es_wf s1" using fetch_op_OkD(2,3) [OF f] assms(1) by (simp add: es_wf_def)
  with exec_op_OkD(2) [OF _ _ x] fetch_pick f consider "es_addr s' = es_addr s1"
    | "op \<in> {DW_OP_skip, DW_OP_bra}" "es_addr s' = es_addr s1 + scast (ucast (es_operand1 s1) :: u16)"
    by blast
  then show ?thesis
  proof cases
    case 1
    then show ?thesis using n adv by simp
  next
    case 2
    let ?w = "fst (dwarf_readu16 (m_mem M) (es_addr s + 1))"
    have "?w < 0x8000"
      using assms(3-5) fetch_op_OkD(1) [OF f] 2(1) unfolding forward_jumps_def by auto
    then have w: "unat ?w < 0x8000" by (simp add: word_less_nat_alt)
    from w have sc: "scast ?w = (word_of_nat (unat ?w) :: u64)" by (rule scast_u16_nonneg)
    then have "es_addr s' = es_addr s + word_of_nat (3 + unat ?w)"
      using fetch_jump [OF f 2(1)] 2(2) sc by (simp add: algebra_simps)
    then show ?thesis using adv [of "3 + unat ?w"] w by simp
  qed
qed

section \<open>Properties of the evaluator\<close>


text \<open>A stack with given items, for the witnesses.\<close>

definition es_of :: "u64 list \<Rightarrow> expr_state" where
  "es_of vs = \<lparr>es_addr = 0, es_operand1 = 0, es_operand2 = 0,
     es_stack = map Some (rev vs) @ replicate (64 - length vs) None, es_tos = word_of_nat (length vs)\<rparr>"

lemma es_of_wf:
  assumes "length vs \<le> 64"
  shows "es_wf (es_of vs)" "es_items (es_of vs) = vs"
proof -
  have u: "unat (word_of_nat (length vs) :: u32) = length vs" using assms by (simp add: unat_of_nat)
  show "es_wf (es_of vs)" using assms u by (auto simp: es_wf_def es_of_def nth_append rev_nth)
  show "es_items (es_of vs) = vs" using assms u by (simp add: es_items_def es_of_def rev_map comp_def)
qed


text \<open>The states of the loop, from the one before the first iteration.\<close>

inductive expr_reach :: "cursor \<Rightarrow> expr_state \<times> machine \<Rightarrow> expr_state \<times> machine \<Rightarrow> bool"
  for c x where
  start: "expr_reach c x x"
| step: "expr_reach c x (s, M) \<Longrightarrow> expr_step M c s = Ok (Expr_Cont s', M') \<Longrightarrow> expr_reach c x (s', M')"

lemma expr_reach_wf:
  assumes "expr_reach c (s0, M0) sM" "es_wf s0"
  shows "es_wf (fst sM)"
  using assms by (induction rule: expr_reach.induct) (auto intro: expr_step_wf)

lemma es_wf_init: "es_wf (expr_init a)"
  by (simp add: es_wf_def expr_init_def)

lemma push_init:
  "\<exists>s0. push v (expr_init a) = Ok s0 \<and> es_wf s0 \<and> es_items s0 = [v] \<and> es_addr s0 = a"
proof -
  have "es_items (expr_init a) = []" by (simp add: es_items_def expr_init_def)
  then show ?thesis
    using es.push_room [OF es_wf_init, of a v] by (auto simp: es_env_def expr_init_def)
qed

lemma pop_not_UB: "es_wf s \<Longrightarrow> pop s \<noteq> UB \<and> pop s \<noteq> Diverge"
  using es.pop_empty [of s] es.pop_Cons [of s] by (cases "es_items s") fastforce+

text \<open>C33: memory safety of the evaluation stack: in every state the loop reaches, whatever the bytes
  of the expression, the index is within the 64 elements of the array, every element below it is
  initialised, and a further \<open>pop\<close> or \<open>pick\<close> stays inside it.\<close>

theorem expr_stack_safe:
  assumes "push (c_cfa c) (expr_init a) = Ok s0" "expr_reach c (s0, M0) (s, M)" "n < 256"
  shows "es_wf s \<and> unat (es_tos s) \<le> 64 \<and> pop s \<noteq> UB \<and> pick n s \<noteq> UB"
proof -
  have "es_wf s0" using push_init [of "c_cfa c" a] assms(1) by auto
  with expr_reach_wf [OF assms(2)] have "es_wf s" by simp
  then show ?thesis
    using pop_not_UB [of s] es.pick_law [OF _ assms(3), of s] by (simp add: es_wf_def)
qed

theorem expr_stack_safe_witness:
  "\<exists>s0. push (c_cfa cursor0) (expr_init 0) = Ok s0 \<and> es_wf s0 \<and> pick 3 s0 \<noteq> UB"
proof -
  obtain s0 where "push (c_cfa cursor0) (expr_init 0) = Ok s0" using push_init by blast
  with expr_stack_safe [OF this expr_reach.start [of cursor0 "(s0, machine0)"], of 3] show ?thesis
    by simp
qed

section \<open>Termination\<close>

lemma prim_not_Diverge:
  "shl64 x n \<noteq> Diverge" "shr64 x n \<noteq> Diverge" "sar64 x n \<noteq> Diverge" "sdiv64 i j \<noteq> Diverge"
  "push v s \<noteq> Diverge" "pop s \<noteq> Diverge" "pick n s \<noteq> Diverge" "dwarf_to_unw_regnum r \<noteq> Diverge"
  "deref_size m w a \<noteq> Diverge"
  by (auto simp: shl64_def shr64_def sar64_def sdiv64_def push_def pop_def pick_def Let_def
      dwarf_to_unw_regnum_def deref_size_def defined_def obind_eq_Diverge split: option.splits)

lemma leb_loop_not_Diverge: "leb_loop m a v s \<noteq> Diverge"
proof (induction m a v s rule: leb_loop.induct)
  case (1 m a val shift)
  then show ?case
    by (subst leb_loop.simps) (auto simp: Let_def obind_eq_Diverge prim_not_Diverge)
qed

lemma read_operand_not_Diverge: "read_operand m a t \<noteq> Diverge"
  by (cases t) (auto simp: read_operand_def dwarf_read_uleb128_def dwarf_read_sleb128_def
      obind_eq_Diverge leb_loop_not_Diverge prim_not_Diverge Let_def split: prod.splits)

lemma fetch_op_not_Diverge: "fetch_op m s \<noteq> Diverge"
  by (auto simp: fetch_op_def Let_def obind_eq_Diverge read_operand_not_Diverge
      split: prod.splits list.splits)

lemma binop_not_Diverge: "(\<And>v w. f v w \<noteq> Diverge) \<Longrightarrow> binop f s \<noteq> Diverge"
  by (auto simp: binop_def obind_eq_Diverge prim_not_Diverge)

lemma push_expr_not_Diverge: "(\<And>s. x s \<noteq> Diverge) \<Longrightarrow> push_expr x s \<noteq> Diverge"
  by (auto simp: push_expr_def obind_eq_Diverge prim_not_Diverge)

lemma unw_get_reg_not_Diverge: "unw_get_reg M c r \<noteq> Diverge"
proof
  assume d: "unw_get_reg M c r = Diverge"
  show False using unw_get_reg_returns [of M c r] unfolding d by simp
qed

lemma push_pick_not_Diverge: "push_pick n s \<noteq> Diverge"
  unfolding push_pick_def by (rule push_expr_not_Diverge) (simp add: obind_eq_Diverge prim_not_Diverge)

lemmas not_Diverge = prim_not_Diverge push_pick_not_Diverge obind_eq_Diverge

lemma stack_op_not_Diverge: "exec_stack_op op s \<noteq> Diverge"
  by (cases op) (auto simp: exec_stack_op_def not_Diverge)

lemma arith_op_not_Diverge: "exec_arith_op op s \<noteq> Diverge"
  by (cases op) (auto simp: exec_arith_op_def not_Diverge split: if_splits
      intro!: binop_not_Diverge push_expr_not_Diverge)

lemma shift_op_not_Diverge: "exec_shift_op op s \<noteq> Diverge"
  by (cases op) (auto simp: exec_shift_op_def prim_not_Diverge intro!: binop_not_Diverge)

lemma cmp_op_not_Diverge: "exec_cmp_op op s \<noteq> Diverge"
  by (cases op) (auto simp: exec_cmp_op_def intro!: binop_not_Diverge)

lemma deref_op_not_Diverge: "exec_deref_op m op s \<noteq> Diverge"
  by (cases op) (auto simp: exec_deref_op_def not_Diverge dwarf_readw_def dwarf_addr_size_def
      split: prod.splits)

lemma jump_op_not_Diverge: "exec_jump_op op s \<noteq> Diverge"
  by (cases op) (auto simp: exec_jump_op_def not_Diverge)

lemma const_op_not_Diverge: "exec_const_op op s \<noteq> Diverge"
  using const_op_eq [of op s] prim_not_Diverge(5) by metis

lemma exec_breg_not_Diverge: "exec_breg M c r off s \<noteq> Diverge"
  by (auto simp: exec_breg_def not_Diverge unw_get_reg_not_Diverge)

lemmas exec_groups_not_Diverge = stack_op_not_Diverge arith_op_not_Diverge shift_op_not_Diverge
  cmp_op_not_Diverge deref_op_not_Diverge jump_op_not_Diverge const_op_not_Diverge

lemma expr_step_not_Diverge: "expr_step M c s \<noteq> Diverge"
proof -
  have "exec_op M c op s \<noteq> Diverge" for op s
    by (cases op) (auto simp: exec_op_def Let_def obind_eq_Diverge prim_not_Diverge
        exec_groups_not_Diverge exec_breg_not_Diverge)
  then show ?thesis by (auto simp: expr_step_def obind_eq_Diverge fetch_op_not_Diverge)
qed

lemma expr_step_mem:
  assumes "expr_step M c s = Ok (n, M')"
  shows "m_mem M' = m_mem M"
proof -
  obtain op s1 where x: "exec_op M c op s1 = Ok (n, M')"
    using assms by (auto simp: expr_step_def)
  have "m_mem M'' = m_mem M" if "exec_breg M c r off s = Ok (s', M'')" for r off s s' M''
    using that by (auto simp: exec_breg_def dest: unw_get_reg_OkD)
  with x show ?thesis by (cases op) (auto simp: exec_op_def Let_def)
qed

lemma expr_loop_returns:
  assumes "es_wf s" "forward_jumps (m_mem M) a e" "a \<le> es_addr s" "unat e + 0x9000 < 2 ^ 64"
    "unat e - unat (es_addr s) \<le> fuel"
  shows "expr_loop fuel M c e s \<noteq> Diverge"
  using assms
proof (induction fuel arbitrary: s M)
  case 0
  then have "\<not> es_addr s < e" by (simp add: word_less_nat_alt)
  then show ?case by (auto simp: expr_loop.simps [of 0] obind_eq_Diverge prim_not_Diverge)
next
  case (Suc fuel)
  show ?case
  proof (cases "es_addr s < e")
    case False
    then show ?thesis by (auto simp: expr_loop.simps [of "Suc fuel"] obind_eq_Diverge prim_not_Diverge)
  next
    case True
    have IH: "expr_loop fuel M' c e s' \<noteq> Diverge" if st: "expr_step M c s = Ok (Expr_Cont s', M')" for s' M'
    proof (rule Suc.IH)
      have lt: "es_addr s < es_addr s'"
        by (rule expr_step_progress [OF Suc.prems(1) st Suc.prems(2,3) True Suc.prems(4)])
      show "es_wf s'" by (rule expr_step_wf [OF Suc.prems(1) st])
      show "forward_jumps (m_mem M') a e" using Suc.prems(2) expr_step_mem [OF st] by simp
      show "a \<le> es_addr s'" using lt Suc.prems(3) by simp
      show "unat e - unat (es_addr s') \<le> fuel"
        using lt Suc.prems(5) by (simp add: word_less_nat_alt)
    qed (rule Suc.prems(4))
    then show ?thesis using True expr_step_not_Diverge
      by (auto simp: expr_loop.simps [of "Suc fuel"] obind_eq_Diverge split: expr_next.splits)
  qed
qed

text \<open>C34: termination of the evaluator: an expression of \<open>len\<close> bytes in which every jump goes forward
  is evaluated in at most \<open>len\<close> iterations of the loop, whatever the stack and the registers hold; the
  call returns a value or an error, or meets an undefined operation, but never runs on.\<close>

theorem eval_expr_terminates:
  assumes "forward_jumps (m_mem M) a (a + len)" "unat a + unat len + 0x9000 < 2 ^ 64"
  shows "dwarf_eval_expr (unat len) M c a len \<noteq> Diverge"
proof -
  have u: "unat (a + len) = unat a + unat len" using assms(2) by (intro unat_add_no_wrap) simp
  obtain s0 where s0: "push (c_cfa c) (expr_init a) = Ok s0" "es_wf s0" "es_addr s0 = a"
    using push_init by blast
  have "expr_loop (unat len) M c (a + len) s0 \<noteq> Diverge"
    by (rule expr_loop_returns [OF s0(2) assms(1)]) (use s0(3) u assms(2) in simp_all)
  with s0(1) show ?thesis by (simp add: dwarf_eval_expr_def)
qed

theorem eval_expr_terminates_witness:
  "dwarf_eval_expr 3 machine0 cursor0 0x100 3 \<noteq> Diverge"
  using eval_expr_terminates [of machine0 "0x100" 3 cursor0]
  by (simp add: forward_jumps_def machine0_def dwarf_expr_op_def)

text \<open>An expression can run for ever: a \<open>DW_OP_skip\<close> with the displacement \<open>-3\<close> jumps to itself,
  and no amount of iterations ends the loop.\<close>

lemma eval_expr_backward_skip_diverges:
  assumes "m_mem M a = 0x2f" "m_mem M (a + 1) = 0xfd" "m_mem M (a + 2) = 0xff" "unat a + 3 < 2 ^ 64"
  shows "dwarf_eval_expr fuel M c a 3 = Diverge"
proof -
  have lt: "a < a + 3" using unat_add_numeral_u64 [of a 3] assms(4) by (simp add: word_less_nat_alt)
  have u16: "dwarf_readu16 (m_mem M) (a + 1) = (0xfffd, a + 3)"
  proof -
    have e: "a + 1 + 1 = a + 2" "a + 1 + 2 = a + 3" by simp_all
    have m2: "m_mem M (a + 1 + 1) = 0xff" unfolding e by (rule assms(3))
    have "mem_le (m_mem M) (Suc (Suc 0)) (a + 1) = 0xfffd"
      unfolding mem_le.simps m2 assms(2) by simp
    then have "mem_le (m_mem M) 2 (a + 1) = 0xfffd" by (simp only: numeral_2_eq_2)
    then show ?thesis unfolding dwarf_readu16_def e(2) by simp
  qed
  have step: "expr_step M c s = Ok (Expr_Cont (s\<lparr>es_operand1 := 0xfffd\<rparr>), M)" if "es_addr s = a" for s
    using that assms(1) u16
    by (simp add: expr_step_def fetch_op_def dwarf_readu8_def dwarf_expr_op_def operands_def
        read_operand_def exec_op_def exec_jump_op_def)
  have "expr_loop fuel M c (a + 3) s = Diverge" if "es_addr s = a" for s
    using that
  proof (induction fuel arbitrary: s)
    case 0
    then show ?case using lt by (simp add: expr_loop.simps [of 0])
  next
    case (Suc fuel)
    then show ?case using lt step [of s] by (simp add: expr_loop.simps [of "Suc fuel"])
  qed
  with push_init [of "c_cfa c" a] show ?thesis by (auto simp: dwarf_eval_expr_def)
qed

lemma dwarf_expr_op_breg:
  assumes "0x70 \<le> b" "b \<le> 0x8f"
  shows "dwarf_expr_op b = DW_OP_breg (b - 0x70)"
proof -
  have ne: "b \<noteq> k" if "k < 0x70" for k using that assms(1) by auto
  have "\<not> b \<le> 0x4f" "\<not> b \<le> 0x6f" using assms(1) by (auto dest: order_trans)
  then show ?thesis using assms ne by (simp add: dwarf_expr_op_def)
qed

lemma dwarf_to_unw_regnum_small: "unat r \<le> 16 \<Longrightarrow> dwarf_to_unw_regnum r = Ok (unat r)"
proof -
  assume "unat r \<le> 16"
  moreover have "\<forall>k\<in>set [0..<17]. dwarf_to_unw_regnum_map ! k = k"
    by (simp add: dwarf_to_unw_regnum_map_def upt_rec)
  ultimately show ?thesis by (simp add: dwarf_to_unw_regnum_def column_defs dwarf_to_unw_regnum_map_def)
qed

text \<open>The expression \<open>DW_OP_bregN offset\<close>, the usual way to name a location relative to a
  register, evaluates to the register's value plus the signed offset.\<close>

lemma eval_breg:
  assumes "n \<le> 16" "m_mem M a = 0x70 + n" "bytes_at (m_mem M) (a + 1) (sleb_encode (sint off))"
    "len = 1 + word_of_nat (length (sleb_encode (sint off)))" "unat a + unat len < 2 ^ 64"
    "unw_get_reg M c (int (unat n)) = Ok (v, M')" "0 < fuel"
  shows "dwarf_eval_expr fuel M c a len = Ok (v + off, False, M')"
proof -
  have n: "unat n \<le> 16" using assms(1) by (simp add: word_le_nat_alt)
  have un: "unat (0x70 + n) = 0x70 + unat n" using n by (simp add: unat_word_ariths)
  have op: "dwarf_expr_op (m_mem M a) = DW_OP_breg n"
    using dwarf_expr_op_breg [of "0x70 + n"] un n assms(2) by (simp add: word_le_nat_alt)
  have rd: "dwarf_read_sleb128 (m_mem M) (a + 1) = Ok (off, a + len)"
    using read_sleb_encode [OF assms(3)] assms(4) by (simp add: add.assoc)
  obtain s0 where s0: "push (c_cfa c) (expr_init a) = Ok s0" "es_wf s0" "es_items s0 = [c_cfa c]"
    "es_addr s0 = a" using push_init by blast
  let ?s1 = "s0\<lparr>es_operand1 := off, es_addr := a + len\<rparr>"
  have f: "fetch_op (m_mem M) s0 = Ok (DW_OP_breg n, ?s1)"
    using op rd s0(4) by (simp add: fetch_op_def dwarf_readu8_def operands_def read_operand_def)
  have "es_wf ?s1" "length (es_items ?s1) < 64" using s0(2,3) by (simp_all add: es_wf_def es_items_def)
  from es.push_room [OF this, of "v + off"] obtain s2 where
    s2: "push (v + off) ?s1 = Ok s2" "es_wf s2" "es_items s2 = (v + off) # es_items ?s1"
      "es_addr s2 = a + len" by (auto simp: es_env_def)
  have "dwarf_to_unw_regnum (ucast n) = Ok (unat n)"
    using dwarf_to_unw_regnum_small [of "ucast n"] n by (simp add: unat_ucast_up)
  with assms(6) s2(1) have "expr_step M c s0 = Ok (Expr_Cont s2, M')"
    using f by (simp add: expr_step_def exec_op_def exec_breg_def)
  moreover obtain s3 where "pop s2 = Ok (v + off, s3)" using es.pop_Cons [OF s2(2,3)] by blast
  moreover obtain k where "fuel = Suc k" using assms(7) by (cases fuel) auto
  moreover have "unat len = 1 + length (sleb_encode (sint off))"
    using sleb_encode_length_64 [of off] unfolding assms(4) by (simp add: unat_word_ariths unat_of_nat)
  then have "a < a + len" using unat_add_no_wrap [of a len] assms(5) by (simp add: word_less_nat_alt)
  ultimately show ?thesis using s0(1,4) s2(4)
    by (simp add: dwarf_eval_expr_def expr_loop.simps [of "Suc k"] expr_loop.simps [of k])
qed

text \<open>The four ordering opcodes compare in the order opposite to the one of the DWARF
  specification, which compares the former second entry with the former top: with \<open>y\<close> on top of \<open>x\<close>
  the code pushes the truth of \<open>y < x\<close> for \<open>DW_OP_lt\<close>, and so on.\<close>

lemma cmp_operands_reversed:
  assumes "es_wf s" "es_items s = y # x # st"
  shows "rel_outcome (\<lambda>s' st'. es_items s' = st') (exec_cmp_op DW_OP_lt s) (Ok (of_cond (y <s x) # st)) \<and>
    rel_outcome (\<lambda>s' st'. es_items s' = st') (exec_cmp_op DW_OP_le s) (Ok (of_cond (y \<le>s x) # st)) \<and>
    rel_outcome (\<lambda>s' st'. es_items s' = st') (exec_cmp_op DW_OP_gt s) (Ok (of_cond (x <s y) # st)) \<and>
    rel_outcome (\<lambda>s' st'. es_items s' = st') (exec_cmp_op DW_OP_ge s) (Ok (of_cond (x \<le>s y) # st))"
proof -
  have sp: "op_spec DW_OP_lt n (y # x # st) = Ok (of_cond (y <s x) # st)"
    "op_spec DW_OP_le n (y # x # st) = Ok (of_cond (y \<le>s x) # st)"
    "op_spec DW_OP_gt n (y # x # st) = Ok (of_cond (x <s y) # st)"
    "op_spec DW_OP_ge n (y # x # st) = Ok (of_cond (x \<le>s y) # st)" for n
    by (simp_all add: op_spec_def spec_bin_def of_cond_def)
  have "rel_outcome (\<lambda>s' st'. es_items s' = st') (exec_cmp_op opcode s)
      (op_spec opcode (es_operand1 s) (y # x # st))"
    if "opcode \<in> {DW_OP_le, DW_OP_ge, DW_OP_lt, DW_OP_gt}" for opcode
    using cmp_ops_sim [OF assms(1), of opcode] that
    unfolding es.sim_def assms(2) by (auto elim!: outcome.rel_mono_strong)
  from this [of DW_OP_lt] this [of DW_OP_le] this [of DW_OP_gt] this [of DW_OP_ge] show ?thesis
    by (simp add: sp)
qed

text \<open>\<open>DW_OP_constu\<close> and \<open>DW_OP_consts\<close> are missing from the table \<open>operands\<close>: the code reads no
  operand for them and pushes what \<open>operand1\<close> was left with, so as the first opcode of an expression
  they push 0, and their LEB128 operand is executed as opcodes.\<close>

lemma constu_pushes_stale_operand:
  assumes "m_mem M (es_addr s) \<in> {0x10, 0x11}" "es_wf s" "length (es_items s) < 64"
  shows "\<exists>s'. expr_step M c s = Ok (Expr_Cont s', M) \<and>
    es_items s' = es_operand1 s # es_items s \<and> es_addr s' = es_addr s + 1"
proof -
  let ?s = "s\<lparr>es_addr := es_addr s + 1\<rparr>"
  have "es_wf ?s" "length (es_items ?s) < 64" "es_items ?s = es_items s"
    using assms(2,3) by (simp_all add: es_wf_def es_items_def)
  with es.push_room [of ?s "es_operand1 s"] obtain s' where
    s': "push (es_operand1 s) ?s = Ok s'" "es_items s' = es_operand1 s # es_items s"
      "es_addr s' = es_addr s + 1" by (auto simp: es_env_def)
  have "dwarf_expr_op 0x10 = DW_OP_constu" "dwarf_expr_op 0x11 = DW_OP_consts"
    by (simp_all add: dwarf_expr_op_def)
  with assms(1) have "dwarf_expr_op (m_mem M (es_addr s)) \<in> {DW_OP_constu, DW_OP_consts}"
    by (elim insertE emptyE) simp_all
  then have "expr_step M c s = Ok (Expr_Cont s', M)"
    using s'(1) by (elim insertE emptyE) (simp_all add: expr_step_def fetch_op_def dwarf_readu8_def
        operands_def exec_op_def exec_const_op_def)
  with s'(2,3) show ?thesis by blast
qed

end
