(* ===== verification/Dwarf_CFI.thy ===== *)
theory Dwarf_CFI
  imports Unw_Pointer Mempool Dwarf_Expr
begin

text \<open>
  The call frame instructions of \<^verbatim>\<open>Gparser.c\<close>: \<open>read_regnum\<close>, \<open>set_reg\<close>, the interpreter
  \<open>run_cfi_program\<close>, \<open>parse_fde\<close> and \<open>create_state_record_for\<close>. The state of the interpreter is the
  address of the next instruction, the location \<open>curr_ip\<close>, the state record, the stack of register
  states that \<open>DW_CFA_remember_state\<close> allocates from \<open>dwarf_reg_state_pool\<close> (its objects with the
  register rules stored in them), and that pool. An instruction either continues or goes to the label
  \<open>fail\<close> with an error code; both ways the remaining stack is freed. The groups of cases of the switch
  are one definition each.
\<close>

type_synonym pool_state = "kernel_env \<times> mempool"

section \<open>Operands and rules\<close>

definition read_regnum :: "memory \<Rightarrow> addr \<Rightarrow> (u64 \<times> addr) outcome" where
  "read_regnum m a =
     obind (dwarf_read_uleb128 m a) (\<lambda>(val, a).
       if unat val \<ge> DWARF_NUM_PRESERVED_REGS then Fail UNW_EBADREG else Ok (val, a))"

text \<open>Writing outside the array \<open>reg\<close> is undefined.\<close>

definition set_reg ::
  "dwarf_state_record_t \<Rightarrow> nat \<Rightarrow> dwarf_where_t \<Rightarrow> u64 \<Rightarrow> dwarf_state_record_t outcome" where
  "set_reg sr regnum w v =
     defined (regnum < length (rs_reg (rs_current sr)))
       (Ok (sr\<lparr>rs_current := (rs_current sr)\<lparr>rs_reg :=
          (rs_reg (rs_current sr))[regnum := \<lparr>sl_where = w, sl_val = v\<rparr>]\<rparr>\<rparr>))"

definition restore_reg :: "dwarf_state_record_t \<Rightarrow> nat \<Rightarrow> dwarf_state_record_t outcome" where
  "restore_reg sr regnum =
     defined (regnum < length (rs_reg (rs_current sr)) \<and> regnum < length (rs_reg (rs_initial sr)))
       (Ok (sr\<lparr>rs_current := (rs_current sr)\<lparr>rs_reg :=
          (rs_reg (rs_current sr))[regnum := rs_reg (rs_initial sr) ! regnum]\<rparr>\<rparr>))"

section \<open>The interpreter state\<close>

record cfi_state =
  cs_addr :: addr
  cs_curr_ip :: u64
  cs_sr :: dwarf_state_record_t
  cs_rs_stack :: "(addr \<times> dwarf_save_loc_t list) list"
  cs_pool :: pool_state

text \<open>The result of one instruction: the state, and the error code if it goes to \<open>fail\<close>.\<close>

type_synonym cfi_result = "(cfi_state \<times> unw_error_t option) outcome"

definition cfi_next :: "cfi_state \<Rightarrow> cfi_result" where
  "cfi_next s = Ok (s, None)"

definition cfi_fail :: "cfi_state \<Rightarrow> unw_error_t \<Rightarrow> cfi_result" where
  "cfi_fail s e = Ok (s, Some e)"

text \<open>\<open>if ((ret = call) < 0) goto fail\<close>.\<close>

definition cfi_call :: "cfi_state \<Rightarrow> 'a outcome \<Rightarrow> ('a \<Rightarrow> cfi_result) \<Rightarrow> cfi_result" where
  "cfi_call s r k =
     (case r of Ok x \<Rightarrow> k x | Fail e \<Rightarrow> cfi_fail s e | Panic \<Rightarrow> Panic | UB \<Rightarrow> UB | Diverge \<Rightarrow> Diverge)"

definition cfi_set ::
  "cfi_state \<Rightarrow> addr \<Rightarrow> nat \<Rightarrow> dwarf_where_t \<Rightarrow> u64 \<Rightarrow> cfi_result" where
  "cfi_set s a regnum w v =
     obind (set_reg (cs_sr s) regnum w v) (\<lambda>sr. cfi_next (s\<lparr>cs_sr := sr, cs_addr := a\<rparr>))"

section \<open>The cases of the switch\<close>

definition cfi_advance ::
  "memory \<Rightarrow> dwarf_cie_info_t \<Rightarrow> dwarf_cfa_t \<Rightarrow> u64 \<Rightarrow> cfi_state \<Rightarrow> cfi_result" where
  "cfi_advance m dci op operand s = (case op of
      DW_CFA_advance_loc \<Rightarrow>
        cfi_next (s\<lparr>cs_curr_ip := cs_curr_ip s + operand * code_align dci\<rparr>)
    | DW_CFA_advance_loc1 \<Rightarrow>
        (let (u8, a) = dwarf_readu8 m (cs_addr s) in
         cfi_next (s\<lparr>cs_addr := a, cs_curr_ip := cs_curr_ip s + ucast u8 * code_align dci\<rparr>))
    | DW_CFA_advance_loc2 \<Rightarrow>
        (let (u16, a) = dwarf_readu16 m (cs_addr s) in
         cfi_next (s\<lparr>cs_addr := a, cs_curr_ip := cs_curr_ip s + ucast u16 * code_align dci\<rparr>))
    | DW_CFA_advance_loc4 \<Rightarrow>
        (let (u32, a) = dwarf_readu32 m (cs_addr s) in
         cfi_next (s\<lparr>cs_addr := a, cs_curr_ip := cs_curr_ip s + ucast u32 * code_align dci\<rparr>))
    | _ \<Rightarrow> cfi_fail s UNW_EINVAL)"

definition cfi_offset ::
  "memory \<Rightarrow> dwarf_cie_info_t \<Rightarrow> dwarf_cfa_t \<Rightarrow> u64 \<Rightarrow> cfi_state \<Rightarrow> cfi_result" where
  "cfi_offset m dci op operand s = (case op of
      DW_CFA_offset \<Rightarrow>
        (if unat operand \<ge> DWARF_NUM_PRESERVED_REGS then cfi_fail s UNW_EBADREG
         else cfi_call s (dwarf_read_uleb128 m (cs_addr s)) (\<lambda>(val, a).
           cfi_set s a (unat operand) DWARF_WHERE_CFAREL (val * data_align dci)))
    | DW_CFA_offset_extended \<Rightarrow>
        cfi_call s (read_regnum m (cs_addr s)) (\<lambda>(regnum, a).
        cfi_call s (dwarf_read_uleb128 m a) (\<lambda>(val, a).
          cfi_set s a (unat regnum) DWARF_WHERE_CFAREL (val * data_align dci)))
    | DW_CFA_offset_extended_sf \<Rightarrow>
        cfi_call s (read_regnum m (cs_addr s)) (\<lambda>(regnum, a).
        cfi_call s (dwarf_read_sleb128 m a) (\<lambda>(val, a).
          cfi_set s a (unat regnum) DWARF_WHERE_CFAREL (val * data_align dci)))
    | _ \<Rightarrow> cfi_fail s UNW_EINVAL)"

definition cfi_restore ::
  "memory \<Rightarrow> dwarf_cfa_t \<Rightarrow> u64 \<Rightarrow> cfi_state \<Rightarrow> cfi_result" where
  "cfi_restore m op operand s = (case op of
      DW_CFA_restore \<Rightarrow>
        (if unat operand \<ge> DWARF_NUM_PRESERVED_REGS then cfi_fail s UNW_EINVAL
         else obind (restore_reg (cs_sr s) (unat operand)) (\<lambda>sr. cfi_next (s\<lparr>cs_sr := sr\<rparr>)))
    | DW_CFA_restore_extended \<Rightarrow>
        cfi_call s (dwarf_read_uleb128 m (cs_addr s)) (\<lambda>(regnum, a).
          if unat regnum \<ge> DWARF_NUM_PRESERVED_REGS then cfi_fail s UNW_EINVAL
          else obind (restore_reg (cs_sr s) (unat regnum)) (\<lambda>sr.
            cfi_next (s\<lparr>cs_sr := sr, cs_addr := a\<rparr>)))
    | _ \<Rightarrow> cfi_fail s UNW_EINVAL)"

definition cfi_set_loc ::
  "memory \<Rightarrow> unw_proc_info_t \<Rightarrow> dwarf_cie_info_t \<Rightarrow> cfi_state \<Rightarrow> cfi_result" where
  "cfi_set_loc m pi dci s =
     cfi_call s (dwarf_read_encoded_pointer m (cs_addr s) (dci_fde_encoding dci) pi) (\<lambda>(ip, a).
       cfi_next (s\<lparr>cs_curr_ip := ip, cs_addr := a\<rparr>))"

definition cfi_reg :: "memory \<Rightarrow> dwarf_cfa_t \<Rightarrow> cfi_state \<Rightarrow> cfi_result" where
  "cfi_reg m op s =
     cfi_call s (read_regnum m (cs_addr s)) (\<lambda>(regnum, a). case op of
        DW_CFA_undefined \<Rightarrow> cfi_set s a (unat regnum) DWARF_WHERE_UNDEF 0
      | DW_CFA_same_value \<Rightarrow> cfi_set s a (unat regnum) DWARF_WHERE_SAME 0
      | DW_CFA_register \<Rightarrow>
          cfi_call s (dwarf_read_uleb128 m a) (\<lambda>(val, a).
            cfi_set s a (unat regnum) DWARF_WHERE_REG val)
      | _ \<Rightarrow> cfi_fail s UNW_EINVAL)"

definition cfi_remember_state :: "cfi_state \<Rightarrow> cfi_result" where
  "cfi_remember_state s =
     obind (pool_alloc (cs_pool s)) (\<lambda>(new_rs, pool).
       if new_rs = 0 then cfi_fail (s\<lparr>cs_pool := pool\<rparr>) UNW_ENOMEM
       else cfi_next (s\<lparr>cs_pool := pool,
              cs_rs_stack := (new_rs, rs_reg (rs_current (cs_sr s))) # cs_rs_stack s\<rparr>))"

definition cfi_restore_state :: "cfi_state \<Rightarrow> cfi_result" where
  "cfi_restore_state s = (case cs_rs_stack s of
      [] \<Rightarrow> cfi_fail s UNW_EINVAL
    | (old_rs, regs) # rest \<Rightarrow>
        cfi_next (s\<lparr>cs_sr := (cs_sr s)\<lparr>rs_current := (rs_current (cs_sr s))\<lparr>rs_reg := regs\<rparr>\<rparr>,
                    cs_rs_stack := rest, cs_pool := pool_release (cs_pool s) old_rs\<rparr>))"

definition cfi_def_cfa ::
  "memory \<Rightarrow> dwarf_cie_info_t \<Rightarrow> dwarf_cfa_t \<Rightarrow> cfi_state \<Rightarrow> cfi_result" where
  "cfi_def_cfa m dci op s =
     (let set_both = (\<lambda>regnum off a.
            obind (set_reg (cs_sr s) DWARF_CFA_REG_COLUMN DWARF_WHERE_REG regnum) (\<lambda>sr.
            cfi_set (s\<lparr>cs_sr := sr\<rparr>) a DWARF_CFA_OFF_COLUMN DWARF_WHERE_UNDEF off)) in
      case op of
        DW_CFA_def_cfa \<Rightarrow>
          cfi_call s (read_regnum m (cs_addr s)) (\<lambda>(regnum, a).
          cfi_call s (dwarf_read_uleb128 m a) (\<lambda>(val, a). set_both regnum val a))
      | DW_CFA_def_cfa_sf \<Rightarrow>
          cfi_call s (read_regnum m (cs_addr s)) (\<lambda>(regnum, a).
          cfi_call s (dwarf_read_sleb128 m a) (\<lambda>(val, a). set_both regnum (val * data_align dci) a))
      | DW_CFA_def_cfa_register \<Rightarrow>
          cfi_call s (read_regnum m (cs_addr s)) (\<lambda>(regnum, a).
            cfi_set s a DWARF_CFA_REG_COLUMN DWARF_WHERE_REG regnum)
      | DW_CFA_def_cfa_offset \<Rightarrow>
          cfi_call s (dwarf_read_uleb128 m (cs_addr s)) (\<lambda>(val, a).
            cfi_set s a DWARF_CFA_OFF_COLUMN DWARF_WHERE_UNDEF val)
      | DW_CFA_def_cfa_offset_sf \<Rightarrow>
          cfi_call s (dwarf_read_sleb128 m (cs_addr s)) (\<lambda>(val, a).
            cfi_set s a DWARF_CFA_OFF_COLUMN DWARF_WHERE_UNDEF (val * data_align dci))
      | _ \<Rightarrow> cfi_fail s UNW_EINVAL)"

text \<open>The rule is the address of the block, whose length is then skipped.\<close>

definition cfi_expression :: "memory \<Rightarrow> dwarf_cfa_t \<Rightarrow> cfi_state \<Rightarrow> cfi_result" where
  "cfi_expression m op s =
     (let set_block = (\<lambda>col a.
            obind (set_reg (cs_sr s) col DWARF_WHERE_EXPR a) (\<lambda>sr.
            cfi_call (s\<lparr>cs_sr := sr\<rparr>) (dwarf_read_uleb128 m a) (\<lambda>(len, a).
              cfi_next (s\<lparr>cs_sr := sr, cs_addr := a + len\<rparr>)))) in
      case op of
        DW_CFA_def_cfa_expression \<Rightarrow> set_block DWARF_CFA_REG_COLUMN (cs_addr s)
      | DW_CFA_expression \<Rightarrow>
          cfi_call s (read_regnum m (cs_addr s)) (\<lambda>(regnum, a). set_block (unat regnum) a)
      | _ \<Rightarrow> cfi_fail s UNW_EINVAL)"

definition cfi_gnu :: "memory \<Rightarrow> dwarf_cie_info_t \<Rightarrow> dwarf_cfa_t \<Rightarrow> cfi_state \<Rightarrow> cfi_result" where
  "cfi_gnu m dci op s = (case op of
      DW_CFA_GNU_args_size \<Rightarrow>
        cfi_call s (dwarf_read_uleb128 m (cs_addr s)) (\<lambda>(val, a).
          cfi_next (s\<lparr>cs_sr := (cs_sr s)\<lparr>sr_args_size := val\<rparr>, cs_addr := a\<rparr>))
    | DW_CFA_GNU_negative_offset_extended \<Rightarrow>
        cfi_call s (read_regnum m (cs_addr s)) (\<lambda>(regnum, a).
        cfi_call s (dwarf_read_uleb128 m a) (\<lambda>(val, a).
          cfi_set s a (unat regnum) DWARF_WHERE_CFAREL (- (val * data_align dci))))
    | _ \<Rightarrow> cfi_fail s UNW_EINVAL)"

section \<open>One instruction\<close>

text \<open>A byte with one of its two high bits set carries an operand in the low six.\<close>

definition cfi_opcode :: "u8 \<Rightarrow> dwarf_cfa_t \<times> u64" where
  "cfi_opcode byte =
     (if byte AND DWARF_CFA_OPCODE_MASK \<noteq> 0
      then (dwarf_cfa_op (byte AND NOT DWARF_CFA_OPERAND_MASK), ucast (byte AND DWARF_CFA_OPERAND_MASK))
      else (dwarf_cfa_op byte, 0))"

text \<open>The switch has no default: an opcode that is no enumerator is skipped without an error.\<close>

definition cfi_exec ::
  "memory \<Rightarrow> unw_proc_info_t \<Rightarrow> dwarf_cie_info_t \<Rightarrow> dwarf_cfa_t \<Rightarrow> u64 \<Rightarrow> cfi_state \<Rightarrow> cfi_result" where
  "cfi_exec m pi dci op operand s = (case op of
      DW_CFA_advance_loc \<Rightarrow> cfi_advance m dci op operand s
    | DW_CFA_advance_loc1 \<Rightarrow> cfi_advance m dci op operand s
    | DW_CFA_advance_loc2 \<Rightarrow> cfi_advance m dci op operand s
    | DW_CFA_advance_loc4 \<Rightarrow> cfi_advance m dci op operand s
    | DW_CFA_MIPS_advance_loc8 \<Rightarrow> cfi_advance m dci op operand s
    | DW_CFA_offset \<Rightarrow> cfi_offset m dci op operand s
    | DW_CFA_offset_extended \<Rightarrow> cfi_offset m dci op operand s
    | DW_CFA_offset_extended_sf \<Rightarrow> cfi_offset m dci op operand s
    | DW_CFA_restore \<Rightarrow> cfi_restore m op operand s
    | DW_CFA_restore_extended \<Rightarrow> cfi_restore m op operand s
    | DW_CFA_nop \<Rightarrow> cfi_next s
    | DW_CFA_set_loc \<Rightarrow> cfi_set_loc m pi dci s
    | DW_CFA_undefined \<Rightarrow> cfi_reg m op s
    | DW_CFA_same_value \<Rightarrow> cfi_reg m op s
    | DW_CFA_register \<Rightarrow> cfi_reg m op s
    | DW_CFA_remember_state \<Rightarrow> cfi_remember_state s
    | DW_CFA_restore_state \<Rightarrow> cfi_restore_state s
    | DW_CFA_def_cfa \<Rightarrow> cfi_def_cfa m dci op s
    | DW_CFA_def_cfa_sf \<Rightarrow> cfi_def_cfa m dci op s
    | DW_CFA_def_cfa_register \<Rightarrow> cfi_def_cfa m dci op s
    | DW_CFA_def_cfa_offset \<Rightarrow> cfi_def_cfa m dci op s
    | DW_CFA_def_cfa_offset_sf \<Rightarrow> cfi_def_cfa m dci op s
    | DW_CFA_def_cfa_expression \<Rightarrow> cfi_expression m op s
    | DW_CFA_expression \<Rightarrow> cfi_expression m op s
    | DW_CFA_GNU_args_size \<Rightarrow> cfi_gnu m dci op s
    | DW_CFA_GNU_negative_offset_extended \<Rightarrow> cfi_gnu m dci op s
    | DW_CFA_GNU_window_save \<Rightarrow> cfi_gnu m dci op s
    | DW_CFA_lo_user \<Rightarrow> cfi_gnu m dci op s
    | DW_CFA_hi_user \<Rightarrow> cfi_gnu m dci op s
    | DW_CFA_unknown _ \<Rightarrow> cfi_next s)"

definition cfi_step ::
  "memory \<Rightarrow> unw_proc_info_t \<Rightarrow> dwarf_cie_info_t \<Rightarrow> cfi_state \<Rightarrow> cfi_result" where
  "cfi_step m pi dci s =
     (let (byte, a) = dwarf_readu8 m (cs_addr s); (op, operand) = cfi_opcode byte in
      cfi_exec m pi dci op operand (s\<lparr>cs_addr := a\<rparr>))"

section \<open>The program\<close>

text \<open>\<open>run_cfi_program\<close> before the label \<open>fail\<close>.\<close>

fun cfi_loop ::
  "nat \<Rightarrow> memory \<Rightarrow> unw_proc_info_t \<Rightarrow> dwarf_cie_info_t \<Rightarrow> u64 \<Rightarrow> addr \<Rightarrow> cfi_state \<Rightarrow> cfi_result" where
  "cfi_loop fuel m pi dci ip end_addr s =
     (if cs_curr_ip s \<le> ip \<and> cs_addr s < end_addr then
        (case fuel of
           0 \<Rightarrow> Diverge
         | Suc fuel \<Rightarrow>
             obind (cfi_step m pi dci s) (\<lambda>(s, err). case err of
               None \<Rightarrow> cfi_loop fuel m pi dci ip end_addr s
             | Some e \<Rightarrow> cfi_fail s e))
      else cfi_next s)"

declare cfi_loop.simps [simp del]

text \<open>The loop at the label \<open>fail\<close>.\<close>

definition free_rs_stack :: "pool_state \<Rightarrow> (addr \<times> dwarf_save_loc_t list) list \<Rightarrow> pool_state" where
  "free_rs_stack pool rs_stack = foldl pool_release pool (map fst rs_stack)"

definition run_cfi_program ::
  "nat \<Rightarrow> memory \<Rightarrow> unw_proc_info_t \<Rightarrow> dwarf_cie_info_t \<Rightarrow> u64 \<Rightarrow> addr \<Rightarrow> addr \<Rightarrow>
   dwarf_state_record_t \<Rightarrow> pool_state \<Rightarrow>
   (unw_error_t option \<times> dwarf_state_record_t \<times> pool_state) outcome" where
  "run_cfi_program fuel m pi dci ip a end_addr sr pool =
     obind (cfi_loop fuel m pi dci ip end_addr
              \<lparr>cs_addr = a, cs_curr_ip = start_ip pi, cs_sr = sr, cs_rs_stack = [], cs_pool = pool\<rparr>)
       (\<lambda>(s, err). Ok (err, cs_sr s, free_rs_stack (cs_pool s) (cs_rs_stack s)))"

section \<open>State records\<close>

definition parse_fde ::
  "nat \<Rightarrow> memory \<Rightarrow> cursor \<Rightarrow> u64 \<Rightarrow> dwarf_state_record_t \<Rightarrow> pool_state \<Rightarrow>
   (unw_error_t option \<times> dwarf_state_record_t \<times> cursor \<times> pool_state) outcome" where
  "parse_fde fuel m c ip sr pool = (case pi_unwind_info (c_pi c) of
      UI_cie _ dci \<Rightarrow>
        (let c = c\<lparr>c_ret_addr_column := dci_ret_addr_column dci\<rparr> in
         obind (run_cfi_program fuel m (c_pi c) dci (NOT 0) (cie_instr_start dci) (cie_instr_end dci)
                  sr pool) (\<lambda>(err, sr, pool).
         case err of
           Some e \<Rightarrow> Ok (Some e, sr, c, pool)
         | None \<Rightarrow>
             let sr = sr\<lparr>rs_initial := rs_current sr\<rparr> in
             obind (run_cfi_program fuel m (c_pi c) dci ip (fde_instr_start dci) (fde_instr_end dci)
                      sr pool) (\<lambda>(err, sr, pool). Ok (err, sr, c, pool))))
    | _ \<Rightarrow> UB)"

definition zero_reg_state :: dwarf_reg_state_t where
  "zero_reg_state = \<lparr>rs_reg = replicate (DWARF_NUM_PRESERVED_REGS + 2)
       \<lparr>sl_where = DWARF_WHERE_UNDEF, sl_val = 0\<rparr>, rs_ip = 0, rs_ret_addr_column = 0,
     rs_lru_chain = 0, rs_coll_chain = 0, rs_hint = 0, rs_valid = False, rs_signal_frame = False\<rparr>"

text \<open>After \<open>memset\<close> and the loop over \<open>set_reg\<close>.\<close>

definition init_state_record :: dwarf_state_record_t where
  "init_state_record = \<lparr>sr_fde_encoding = 0, sr_args_size = 0, rs_initial = zero_reg_state,
     rs_current = zero_reg_state\<lparr>rs_reg := replicate (DWARF_NUM_PRESERVED_REGS + 2)
       \<lparr>sl_where = DWARF_WHERE_SAME, sl_val = 0\<rparr>\<rparr>\<rparr>"

definition create_state_record_for ::
  "nat \<Rightarrow> memory \<Rightarrow> cursor \<Rightarrow> u64 \<Rightarrow> pool_state \<Rightarrow>
   (unw_error_t option \<times> dwarf_state_record_t \<times> cursor \<times> pool_state) outcome" where
  "create_state_record_for fuel m c ip pool =
     (if \<not> c_pi_valid c then Panic
      else case pi_format (c_pi c) of
        UNW_INFO_FORMAT_TABLE \<Rightarrow> parse_fde fuel m c ip init_state_record pool
      | UNW_INFO_FORMAT_REMOTE_TABLE \<Rightarrow> parse_fde fuel m c ip init_state_record pool
      | _ \<Rightarrow> Ok (Some UNW_EINVAL, init_state_record, c, pool))"

definition dwarf_create_state_record ::
  "nat \<Rightarrow> memory \<Rightarrow> cursor \<Rightarrow> pool_state \<Rightarrow>
   (unw_error_t option \<times> dwarf_state_record_t \<times> cursor \<times> pool_state) outcome" where
  "dwarf_create_state_record fuel m c pool = create_state_record_for fuel m c (c_ip c) pool"

section \<open>Progress through the instructions\<close>

lemma and_minus_8: "\<exists>j\<le>7. (x :: u64) AND (- 8) = x - word_of_nat j"
proof -
  let ?j = "unat x mod 8"
  have j: "unat (word_of_nat ?j :: u64) = ?j" by (simp add: unat_of_nat)
  have "unat (x AND - 8) = 8 * (unat x div 8)" using unat_and_minus_exp [of x 3] by simp
  also have "\<dots> = unat x - ?j" by (simp add: minus_mod_eq_mult_div)
  also have "\<dots> = unat (x - word_of_nat ?j)"
    using j by (subst unat_sub) (simp_all add: word_le_nat_alt)
  finally have "x AND - 8 = x - word_of_nat ?j" by (rule unat_eqI)
  moreover have "?j \<le> 7" using mod_less_divisor [of 8 "unat x"] by linarith
  ultimately show ?thesis by blast
qed

text \<open>The address moved forward by at most \<open>k\<close> bytes.\<close>

definition advanced :: "nat \<Rightarrow> addr \<Rightarrow> addr \<Rightarrow> bool" where
  "advanced k a a' = (\<exists>n\<le>k. a' = a + word_of_nat n)"

lemma advanced_refl [simp]: "advanced k a a"
  by (auto simp: advanced_def intro!: exI [of _ 0])

lemma advanced_trans: "advanced j a b \<Longrightarrow> advanced k b d \<Longrightarrow> advanced (j + k) a d"
proof -
  assume "advanced j a b" "advanced k b d"
  then obtain n n' where "n \<le> j" "n' \<le> k" "d = a + word_of_nat n + word_of_nat n'"
    by (auto simp: advanced_def)
  then show ?thesis by (auto simp: advanced_def algebra_simps intro!: exI [of _ "n + n'"])
qed

lemma advanced_mono: "advanced j a b \<Longrightarrow> j \<le> k \<Longrightarrow> advanced k a b"
  by (auto simp: advanced_def dest: order_trans)

lemma advanced_add: "advanced 8 a (a + 1)" "advanced 8 a (a + 2)" "advanced 8 a (a + 4)"
  "advanced 8 a (a + 8)"
  unfolding advanced_def
  by (rule exI [of _ 1], simp) (rule exI [of _ 2], simp, rule exI [of _ 4], simp, rule exI [of _ 8], simp)

lemma uleb_advanced: "dwarf_read_uleb128 m a = Ok (v, a') \<Longrightarrow> advanced 10 a a'"
  using uleb128_advance [of m a v a'] by (auto simp: advanced_def)

lemma sleb_advanced: "dwarf_read_sleb128 m a = Ok (v, a') \<Longrightarrow> advanced 10 a a'"
  using sleb128_advance [of m a v a'] by (auto simp: advanced_def)

lemma regnum_advanced: "read_regnum m a = Ok (v, a') \<Longrightarrow> advanced 10 a a'"
  by (auto simp: read_regnum_def uleb_advanced split: if_splits)

lemma pointer_advanced:
  assumes "dwarf_read_encoded_pointer m a enc pi = Ok (v, a')"
  shows "advanced 15 a a'"
proof -
  consider (omit) "enc = 0xff" | (aligned) "enc = 0x50" | (rest) "enc \<noteq> 0xff" "enc \<noteq> 0x50" by blast
  then show ?thesis
  proof cases
    case omit
    with assms show ?thesis by (simp add: dwarf_read_encoded_pointer_def)
  next
    case aligned
    obtain j where j: "j \<le> 7" "(7 + a) AND - 8 = 7 + a - word_of_nat j" using and_minus_8 by blast
    from assms aligned have "a' = ((7 + a) AND - 8) + 8"
      by (simp add: dwarf_read_encoded_pointer_def dwarf_addr_size_def)
    also have "\<dots> = a + (15 - word_of_nat j)" unfolding j(2) by simp
    also have "15 - word_of_nat j = (word_of_nat (15 - j) :: u64)" using j(1) by (simp add: of_nat_diff)
    finally have "a' = a + word_of_nat (15 - j)" .
    then show ?thesis unfolding advanced_def by (intro exI [of _ "15 - j"]) simp
  next
    case rest
    then obtain v1 where f: "read_pointer_format m a enc = Ok (v1, a')"
      using assms by (auto simp: dwarf_read_encoded_pointer_def split: if_splits prod.splits)
    then have "advanced 10 a a' \<or> advanced 8 a a'"
      by (auto simp: read_pointer_format_def Let_def dwarf_readu16_def dwarf_readu32_def
          dwarf_readu64_def dwarf_reads16_def dwarf_reads32_def dwarf_reads64_def advanced_add
          uleb_advanced split: if_splits)
    then show ?thesis by (auto elim: advanced_mono)
  qed
qed

lemma two_advanced:
  "advanced 10 a b \<Longrightarrow> advanced 10 b d \<Longrightarrow> advanced 20 a d" "advanced 10 a b \<Longrightarrow> advanced 20 a b"
  "advanced 8 a b \<Longrightarrow> advanced 20 a b" "advanced 15 a b \<Longrightarrow> advanced 20 a b"
  using advanced_trans [of 10 a b 10 d] advanced_mono [of 10 a b 20] advanced_mono [of 8 a b 20]
    advanced_mono [of 15 a b 20] by simp_all

lemmas reader_advanced = uleb_advanced sleb_advanced regnum_advanced pointer_advanced

section \<open>Safety of the interpreter\<close>

text \<open>
  The invariant: the register arrays have their 19 elements, in the state record and on the stack,
  and the objects of the stack are held from the pool.
\<close>

definition sr_wf :: "dwarf_state_record_t \<Rightarrow> bool" where
  "sr_wf sr = (length (rs_reg (rs_current sr)) = 19 \<and> length (rs_reg (rs_initial sr)) = 19)"

definition cfi_inv :: "cfi_state \<Rightarrow> bool" where
  "cfi_inv s = (sr_wf (cs_sr s) \<and> (\<forall>x\<in>set (cs_rs_stack s). length (snd x) = 19) \<and>
     mp.held (cs_pool s) (map fst (cs_rs_stack s)))"

text \<open>The objects that are available or on the stack.\<close>

definition cfi_objs :: "cfi_state \<Rightarrow> addr set" where
  "cfi_objs s = avail (cs_pool s) \<union> fst ` set (cs_rs_stack s)"

text \<open>A LEB128 number that is too long for the reader, among the operands that follow an address.\<close>

definition bad_leb :: "memory \<Rightarrow> addr \<Rightarrow> bool" where
  "bad_leb m a = (\<exists>x. advanced 20 a x \<and> leb_loop m x 0 0 = UB)"

definition cfi_good :: "memory \<Rightarrow> cfi_state \<Rightarrow> cfi_result \<Rightarrow> bool" where
  "cfi_good m s r = (case r of
      Ok (s', _) \<Rightarrow> cfi_inv s' \<and> cfi_objs s \<subseteq> cfi_objs s'
    | Fail _ \<Rightarrow> False | Panic \<Rightarrow> True | UB \<Rightarrow> bad_leb m (cs_addr s) | Diverge \<Rightarrow> False)"

text \<open>A reader that goes wrong only on such a number.\<close>

definition reader_ok :: "memory \<Rightarrow> addr \<Rightarrow> 'a outcome \<Rightarrow> bool" where
  "reader_ok m a r = (r \<noteq> Diverge \<and> (r = UB \<longrightarrow> bad_leb m a))"

lemma reader_ok_simps [simp]: "reader_ok m a (Ok x)" "reader_ok m a (Fail e)" "reader_ok m a Panic"
  by (simp_all add: reader_ok_def)

lemma reader_ok_obind:
  "reader_ok m a r \<Longrightarrow> (\<And>x. r = Ok x \<Longrightarrow> reader_ok m a (k x)) \<Longrightarrow> reader_ok m a (obind r k)"
  by (cases r) (auto simp: reader_ok_def)

lemma uleb_reader: "advanced 20 b a \<Longrightarrow> reader_ok m b (dwarf_read_uleb128 m a)"
  using leb_loop_not_Diverge [of m a 0 0]
  by (cases "leb_loop m a 0 0") (auto simp: reader_ok_def dwarf_read_uleb128_def bad_leb_def)

lemma sleb_reader: "advanced 20 b a \<Longrightarrow> reader_ok m b (dwarf_read_sleb128 m a)"
  using leb_loop_not_Diverge [of m a 0 0]
  by (cases "leb_loop m a 0 0")
     (auto simp: reader_ok_def dwarf_read_sleb128_def bad_leb_def shl64_def split: if_splits)

lemma regnum_reader: "advanced 20 b a \<Longrightarrow> reader_ok m b (read_regnum m a)"
  unfolding read_regnum_def by (rule reader_ok_obind [OF uleb_reader]) auto

lemma pointer_reader: "reader_ok m a (dwarf_read_encoded_pointer m a enc pi)"
proof -
  have f: "reader_ok m a (read_pointer_format m a enc)"
    using uleb_reader [of a a m] by (auto simp: read_pointer_format_def Let_def split: prod.splits)
  have b: "reader_ok m a (apply_pointer_base a enc pi v)" for v
    by (auto simp: apply_pointer_base_def Let_def)
  show ?thesis
    unfolding dwarf_read_encoded_pointer_def
    by (auto intro!: reader_ok_obind [OF f] reader_ok_obind [OF b] simp: Let_def)
qed

lemma read_regnum_less: "read_regnum m a = Ok (r, a') \<Longrightarrow> unat r < 17 \<and> advanced 20 a a'"
  using two_advanced(2) [OF regnum_advanced [of m a r a']]
  by (auto simp: read_regnum_def column_defs split: if_splits)

lemma good_next:
  "cfi_inv s' \<Longrightarrow> cfi_objs s \<subseteq> cfi_objs s' \<Longrightarrow> cfi_good m s (cfi_next s')"
  by (simp add: cfi_good_def cfi_next_def)

lemma good_fail:
  "cfi_inv s' \<Longrightarrow> cfi_objs s \<subseteq> cfi_objs s' \<Longrightarrow> cfi_good m s (cfi_fail s' e)"
  by (simp add: cfi_good_def cfi_fail_def)

lemma good_call:
  assumes "cfi_inv s" "cfi_objs s0 \<subseteq> cfi_objs s" "reader_ok m (cs_addr s0) r" "\<And>x. r = Ok x \<Longrightarrow> cfi_good m s0 (k x)"
  shows "cfi_good m s0 (cfi_call s r k)"
  using assms by (cases r) (simp_all add: cfi_call_def reader_ok_def good_fail, simp_all add: cfi_good_def)

lemma set_reg_ok:
  assumes "sr_wf sr" "n < 19"
  shows "\<exists>sr'. set_reg sr n w v = Ok sr' \<and> sr_wf sr'"
  using assms by (simp add: set_reg_def sr_wf_def)

lemma good_set:
  assumes "cfi_inv s" "cfi_objs s0 \<subseteq> cfi_objs s" "n < 19"
  shows "cfi_good m s0 (cfi_set s a n w v)"
proof -
  obtain sr' where "set_reg (cs_sr s) n w v = Ok sr'" "sr_wf sr'"
    using set_reg_ok [of "cs_sr s" n w v] assms(1,3) by (auto simp: cfi_inv_def)
  then show ?thesis using assms
    by (simp add: cfi_set_def, intro good_next) (simp_all add: cfi_inv_def cfi_objs_def)
qed

lemmas good_intros = good_call good_set good_fail uleb_reader sleb_reader regnum_reader

lemma same_inv:
  assumes "cfi_inv s"
  shows "cfi_inv (s\<lparr>cs_addr := a\<rparr>)" "cfi_inv (s\<lparr>cs_addr := a, cs_curr_ip := ip\<rparr>)"
    "cfi_inv (s\<lparr>cs_curr_ip := ip, cs_addr := a\<rparr>)" "cfi_inv (s\<lparr>cs_curr_ip := ip\<rparr>)"
    "cfi_objs (s\<lparr>cs_addr := a\<rparr>) = cfi_objs s"
    "cfi_objs (s\<lparr>cs_curr_ip := ip\<rparr>) = cfi_objs s"
    "cfi_objs (s\<lparr>cs_addr := a, cs_curr_ip := ip\<rparr>) = cfi_objs s"
    "sr_wf sr \<Longrightarrow> cfi_inv (s\<lparr>cs_sr := sr\<rparr>)" "sr_wf sr \<Longrightarrow> cfi_inv (s\<lparr>cs_sr := sr, cs_addr := a\<rparr>)"
    "cfi_objs (s\<lparr>cs_sr := sr\<rparr>) = cfi_objs s" "cfi_objs (s\<lparr>cs_sr := sr, cs_addr := a\<rparr>) = cfi_objs s"
  using assms by (simp_all add: cfi_inv_def cfi_objs_def)

lemma advance_good: "cfi_inv s \<Longrightarrow> cfi_good m s (cfi_advance m dci op operand s)"
  by (cases op) (auto simp: cfi_advance_def same_inv split: prod.splits intro!: good_next good_fail)

lemma offset_good: "cfi_inv s \<Longrightarrow> cfi_good m s (cfi_offset m dci op operand s)"
  by (cases op) (auto simp: cfi_offset_def column_defs dest!: read_regnum_less intro!: good_intros)

lemma restore_reg_good:
  assumes "cfi_inv s" "n < 17"
  shows "cfi_good m s (obind (restore_reg (cs_sr s) n) (\<lambda>sr. cfi_next (s\<lparr>cs_sr := sr\<rparr>)))"
    "cfi_good m s (obind (restore_reg (cs_sr s) n) (\<lambda>sr. cfi_next (s\<lparr>cs_sr := sr, cs_addr := a\<rparr>)))"
proof -
  obtain sr' where "restore_reg (cs_sr s) n = Ok sr'" "sr_wf sr'"
    using assms by (auto simp: cfi_inv_def sr_wf_def restore_reg_def)
  with assms(1) show
    "cfi_good m s (obind (restore_reg (cs_sr s) n) (\<lambda>sr. cfi_next (s\<lparr>cs_sr := sr\<rparr>)))"
    "cfi_good m s (obind (restore_reg (cs_sr s) n) (\<lambda>sr. cfi_next (s\<lparr>cs_sr := sr, cs_addr := a\<rparr>)))"
    by (simp_all add: good_next same_inv)
qed

lemma restore_good: "cfi_inv s \<Longrightarrow> cfi_good m s (cfi_restore m op operand s)"
  by (cases op)
     (auto simp: cfi_restore_def column_defs intro!: good_intros restore_reg_good)

lemma set_loc_good: "cfi_inv s \<Longrightarrow> cfi_good m s (cfi_set_loc m pi dci s)"
  unfolding cfi_set_loc_def
  by (rule good_call [OF _ _ pointer_reader]) (auto simp: cfi_inv_def cfi_objs_def intro!: good_next)

lemma reg_good: "cfi_inv s \<Longrightarrow> cfi_good m s (cfi_reg m op s)"
  by (cases op) (auto simp: cfi_reg_def dest!: read_regnum_less intro!: good_intros)

lemma def_cfa_good:
  assumes "cfi_inv s"
  shows "cfi_good m s (cfi_def_cfa m dci op s)"
proof -
  have both: "cfi_good m s (obind (set_reg (cs_sr s) 17 DWARF_WHERE_REG r) (\<lambda>sr.
      cfi_set (s\<lparr>cs_sr := sr\<rparr>) a 18 DWARF_WHERE_UNDEF off))" for r off a
  proof -
    obtain sr' where "set_reg (cs_sr s) 17 DWARF_WHERE_REG r = Ok sr'" "sr_wf sr'"
      using set_reg_ok [of "cs_sr s" 17 DWARF_WHERE_REG r] assms by (auto simp: cfi_inv_def)
    then show ?thesis using assms by (auto intro!: good_set simp: same_inv)
  qed
  show ?thesis using assms
    by (cases op) (auto simp: cfi_def_cfa_def Let_def column_defs dest!: read_regnum_less
        intro!: good_intros both)
qed

lemma expression_good:
  assumes "cfi_inv s"
  shows "cfi_good m s (cfi_expression m op s)"
proof -
  have block: "cfi_good m s (obind (set_reg (cs_sr s) col DWARF_WHERE_EXPR a) (\<lambda>sr.
      cfi_call (s\<lparr>cs_sr := sr\<rparr>) (dwarf_read_uleb128 m a) (\<lambda>(len, a).
        cfi_next (s\<lparr>cs_sr := sr, cs_addr := a + len\<rparr>))))" if col: "col < 19" "advanced 20 (cs_addr s) a" for col a
  proof -
    obtain sr' where "set_reg (cs_sr s) col DWARF_WHERE_EXPR a = Ok sr'" "sr_wf sr'"
      using set_reg_ok [of "cs_sr s" col DWARF_WHERE_EXPR a] assms col by (auto simp: cfi_inv_def)
    then show ?thesis using assms col(2) by (auto intro!: good_call good_next uleb_reader simp: same_inv)
  qed
  show ?thesis using assms
    by (cases op) (auto simp: cfi_expression_def Let_def column_defs dest!: read_regnum_less
        intro!: good_call good_fail regnum_reader block)
qed

lemma gnu_good: "cfi_inv s \<Longrightarrow> cfi_good m s (cfi_gnu m dci op s)"
  by (cases op)
     (auto simp: cfi_gnu_def same_inv sr_wf_def cfi_inv_def cfi_objs_def dest!: read_regnum_less
       intro!: good_intros good_next)

lemma remember_good:
  assumes "cfi_inv s"
  shows "cfi_good m s (cfi_remember_state s)"
proof -
  have held: "mp.held (cs_pool s) (map fst (cs_rs_stack s))" using assms by (simp add: cfi_inv_def)
  then have "pool_inv (fst (cs_pool s), snd (cs_pool s))" by (simp add: mp.held_def)
  from mempool_alloc_Ok_or_Panic [OF this] consider
    x p where "pool_alloc (cs_pool s) = Ok (x, p)" | "pool_alloc (cs_pool s) = Panic"
    by (auto simp: pool_alloc_def)
  then show ?thesis
  proof cases
    case (1 x p)
    from mp.held_alloc [OF held 1] have h: "mp.held p (x # map fst (cs_rs_stack s))"
      "avail (cs_pool s) \<subseteq> insert x (avail p)" by auto
    have nz: "x \<noteq> 0" using h(1) owned_nonzero by (auto simp: mp.held_def pool_owns_def)
    then show ?thesis using 1 h assms unfolding cfi_remember_state_def
      by (simp, intro good_next) (auto simp: cfi_inv_def cfi_objs_def sr_wf_def)
  next
    case 2
    then show ?thesis by (simp add: cfi_remember_state_def cfi_good_def)
  qed
qed

lemma restore_state_good:
  assumes "cfi_inv s"
  shows "cfi_good m s (cfi_restore_state s)"
proof (cases "cs_rs_stack s")
  case Nil
  with assms show ?thesis by (simp add: cfi_restore_state_def good_fail)
next
  case (Cons x rest)
  obtain obj regs where x: "x = (obj, regs)" by (cases x)
  have "mp.held (cs_pool s) (obj # map fst rest)" using assms Cons x by (simp add: cfi_inv_def)
  from mp.held_release [OF this] assms Cons x show ?thesis
    unfolding cfi_restore_state_def
    by (simp, intro good_next) (auto simp: cfi_inv_def cfi_objs_def sr_wf_def)
qed

lemmas groups_good = advance_good offset_good restore_good set_loc_good reg_good remember_good
  restore_state_good def_cfa_good expression_good gnu_good

lemma cfi_exec_good: "cfi_inv s \<Longrightarrow> cfi_good m s (cfi_exec m pi dci op operand s)"
  by (cases op) (simp_all add: cfi_exec_def groups_good good_next)

text \<open>A state whose address stands behind the opcode of the next instruction.\<close>

abbreviation (input) behind_opcode :: "cfi_state \<Rightarrow> cfi_state" where
  "behind_opcode s \<equiv> s\<lparr>cs_addr := cs_addr s + 1\<rparr>"

lemma cfi_step_good:
  assumes "cfi_inv s"
  shows "cfi_good m (behind_opcode s) (cfi_step m pi dci s)"
proof -
  obtain op operand where "cfi_opcode (m (cs_addr s)) = (op, operand)" by fastforce
  then show ?thesis using cfi_exec_good [of "behind_opcode s" m pi dci op operand] assms
    by (simp add: cfi_step_def dwarf_readu8_def same_inv)
qed

text \<open>What the loop keeps, however it returns.\<close>

definition cfi_kept :: "cfi_state \<Rightarrow> cfi_result \<Rightarrow> bool" where
  "cfi_kept s r = (\<forall>s' err. r = Ok (s', err) \<longrightarrow> cfi_inv s' \<and> cfi_objs s \<subseteq> cfi_objs s')"

lemma cfi_step_kept: "cfi_inv s \<Longrightarrow> cfi_kept s (cfi_step m pi dci s)"
  using cfi_step_good [of s m pi dci] by (auto simp: cfi_good_def cfi_kept_def same_inv)

lemma cfi_loop_kept: "cfi_inv s \<Longrightarrow> cfi_kept s (cfi_loop fuel m pi dci ip e s)"
proof (induction fuel arbitrary: s)
  case 0
  then show ?case by (simp add: cfi_loop.simps [of 0] cfi_kept_def cfi_next_def)
next
  case (Suc fuel)
  have step: "cfi_inv s' \<and> cfi_objs s \<subseteq> cfi_objs s'" if "cfi_step m pi dci s = Ok (s', err)" for s' err
    using cfi_step_kept [OF Suc.prems, of m pi dci] that by (simp add: cfi_kept_def)
  show ?case unfolding cfi_kept_def
  proof (intro allI impI)
    fix s' err
    assume run: "cfi_loop (Suc fuel) m pi dci ip e s = Ok (s', err)"
    show "cfi_inv s' \<and> cfi_objs s \<subseteq> cfi_objs s'"
    proof (cases "cs_curr_ip s \<le> ip \<and> cs_addr s < e")
      case False
      with run Suc.prems show ?thesis by (auto simp: cfi_loop.simps [of "Suc fuel"] cfi_next_def)
    next
      case True
      with run obtain s1 err1 where 1: "cfi_step m pi dci s = Ok (s1, err1)"
        "(case err1 of None \<Rightarrow> cfi_loop fuel m pi dci ip e s1 | Some x \<Rightarrow> cfi_fail s1 x) = Ok (s', err)"
        by (auto simp: cfi_loop.simps [of "Suc fuel"])
      from step [OF 1(1)] Suc.IH [of s1] 1(2) show ?thesis
        by (auto simp: cfi_kept_def cfi_fail_def split: option.splits)
    qed
  qed
qed

section \<open>Termination\<close>

lemma cfi_call_OkD: "cfi_call s r k = Ok (s', None) \<Longrightarrow> \<exists>x. r = Ok x \<and> k x = Ok (s', None)"
  by (cases r) (auto simp: cfi_call_def cfi_fail_def)

lemma cfi_call_None: "cfi_call s r k = Ok (s', None) \<longleftrightarrow> (\<exists>x. r = Ok x \<and> k x = Ok (s', None))"
  by (cases r) (auto simp: cfi_call_def cfi_fail_def)

lemma cfi_set_None: "cfi_set s a n w v = Ok (s', None) \<Longrightarrow> cs_addr s' = a"
  by (auto simp: cfi_set_def cfi_next_def)

lemmas none_simps = cfi_call_None cfi_next_def cfi_fail_def

lemma advance_addr:
  "cfi_advance m dci op operand s = Ok (s', None) \<Longrightarrow> advanced 20 (cs_addr s) (cs_addr s')"
  by (cases op) (auto simp: cfi_advance_def none_simps dwarf_readu8_def dwarf_readu16_def
      dwarf_readu32_def advanced_add two_advanced(3))

lemma offset_addr:
  "cfi_offset m dci op operand s = Ok (s', None) \<Longrightarrow> advanced 20 (cs_addr s) (cs_addr s')"
  by (cases op) (auto simp: cfi_offset_def none_simps split: if_splits dest!: cfi_set_None
      dest: reader_advanced intro: two_advanced(1,2))

lemma restore_addr:
  "cfi_restore m op operand s = Ok (s', None) \<Longrightarrow> advanced 20 (cs_addr s) (cs_addr s')"
  by (cases op) (auto simp: cfi_restore_def none_simps split: if_splits
      dest: reader_advanced intro: two_advanced(1,2))

lemma set_loc_addr:
  "cfi_set_loc m pi dci s = Ok (s', None) \<Longrightarrow> advanced 20 (cs_addr s) (cs_addr s')"
  by (auto simp: cfi_set_loc_def none_simps intro!: two_advanced(4) elim: pointer_advanced)

lemma reg_addr: "cfi_reg m op s = Ok (s', None) \<Longrightarrow> advanced 20 (cs_addr s) (cs_addr s')"
  by (cases op) (auto simp: cfi_reg_def none_simps dest!: cfi_set_None
      dest: reader_advanced intro: two_advanced(1,2))

lemma state_addr:
  "cfi_remember_state s = Ok (s', None) \<Longrightarrow> cs_addr s' = cs_addr s"
  "cfi_restore_state s = Ok (s', None) \<Longrightarrow> cs_addr s' = cs_addr s"
  by (auto simp: cfi_remember_state_def cfi_restore_state_def none_simps
      split: if_splits list.splits)

lemma def_cfa_addr:
  "cfi_def_cfa m dci op s = Ok (s', None) \<Longrightarrow> advanced 20 (cs_addr s) (cs_addr s')"
  by (cases op) (auto simp: cfi_def_cfa_def Let_def none_simps dest!: cfi_set_None
      dest: reader_advanced intro: two_advanced(1,2))

lemma gnu_addr: "cfi_gnu m dci op s = Ok (s', None) \<Longrightarrow> advanced 20 (cs_addr s) (cs_addr s')"
  by (cases op) (auto simp: cfi_gnu_def none_simps dest!: cfi_set_None
      dest: reader_advanced intro: two_advanced(1,2))

lemma cfi_exec_addr:
  assumes "cfi_exec m pi dci op operand s = Ok (s', None)"
    "op \<notin> {DW_CFA_def_cfa_expression, DW_CFA_expression}"
  shows "advanced 20 (cs_addr s) (cs_addr s')"
  using assms
  by (cases op) (simp_all add: cfi_exec_def advance_addr offset_addr restore_addr set_loc_addr reg_addr
      state_addr def_cfa_addr gnu_addr cfi_next_def)

text \<open>Every expression block that starts in a range of addresses ends behind its opcode.\<close>

definition forward_blocks :: "memory \<Rightarrow> addr \<Rightarrow> addr \<Rightarrow> bool" where
  "forward_blocks m a e = (\<forall>x. a \<le> x \<and> x < e \<longrightarrow>
     (\<forall>len a'. m x = 0x0f \<and> dwarf_read_uleb128 m (x + 1) = Ok (len, a') \<longrightarrow> x < a' + len) \<and>
     (\<forall>r a1 len a'. m x = 0x10 \<and> read_regnum m (x + 1) = Ok (r, a1) \<and>
        dwarf_read_uleb128 m a1 = Ok (len, a') \<longrightarrow> x < a' + len))"

lemma dwarf_cfa_op_expr:
  "dwarf_cfa_op b = DW_CFA_def_cfa_expression \<longleftrightarrow> b = 0x0f"
  "dwarf_cfa_op b = DW_CFA_expression \<longleftrightarrow> b = 0x10"
  by (auto simp: dwarf_cfa_op_def split: if_splits)

lemma cfi_opcode_expr:
  assumes "cfi_opcode b = (op, operand)"
  shows "op = DW_CFA_def_cfa_expression \<Longrightarrow> b = 0x0f" "op = DW_CFA_expression \<Longrightarrow> b = 0x10"
proof -
  have low: "b AND NOT 0x3f \<noteq> 0x0f \<and> b AND NOT 0x3f \<noteq> 0x10"
  proof -
    have "bit (b AND NOT 0x3f) 0 = False" "bit (b AND NOT 0x3f) 4 = False"
      by (simp_all add: bit_simps bit_numeral_rec)
    then show ?thesis by (auto simp: bit_numeral_rec)
  qed
  show "op = DW_CFA_def_cfa_expression \<Longrightarrow> b = 0x0f" "op = DW_CFA_expression \<Longrightarrow> b = 0x10"
    using assms low
    by (auto simp: cfi_opcode_def DWARF_CFA_OPERAND_MASK_def dwarf_cfa_op_expr split: if_splits)
qed

lemma cfi_step_progress:
  assumes "cfi_step m pi dci s = Ok (s', None)" "forward_blocks m a e" "a \<le> cs_addr s"
    "cs_addr s < e" "unat e + 32 < 2 ^ 64"
  shows "cs_addr s < cs_addr s'"
proof -
  obtain op operand where o: "cfi_opcode (m (cs_addr s)) = (op, operand)" by fastforce
  have x: "cfi_exec m pi dci op operand (s\<lparr>cs_addr := cs_addr s + 1\<rparr>) = Ok (s', None)"
    using assms(1) o by (simp add: cfi_step_def dwarf_readu8_def)
  have lt: "unat (cs_addr s) < unat e" using assms(4) by (simp add: word_less_nat_alt)
  consider (def) "op = DW_CFA_def_cfa_expression" | (expr) "op = DW_CFA_expression"
    | (other) "op \<notin> {DW_CFA_def_cfa_expression, DW_CFA_expression}" by blast
  then show ?thesis
  proof cases
    case def
    with x obtain len a' where "dwarf_read_uleb128 m (cs_addr s + 1) = Ok (len, a')"
      "cs_addr s' = a' + len"
      by (auto simp: cfi_exec_def cfi_expression_def Let_def none_simps)
    with assms(2-4) cfi_opcode_expr(1) [OF o def] show ?thesis unfolding forward_blocks_def by metis
  next
    case expr
    with x obtain r a1 len a' where "read_regnum m (cs_addr s + 1) = Ok (r, a1)"
      "dwarf_read_uleb128 m a1 = Ok (len, a')" "cs_addr s' = a' + len"
      by (auto simp: cfi_exec_def cfi_expression_def Let_def none_simps)
    with assms(2-4) cfi_opcode_expr(2) [OF o expr] show ?thesis unfolding forward_blocks_def by metis
  next
    case other
    from cfi_exec_addr [OF x other] obtain n where n: "n \<le> 20"
      "cs_addr s' = cs_addr s + 1 + word_of_nat n" by (auto simp: advanced_def)
    then have "cs_addr s' = cs_addr s + word_of_nat (Suc n)" by (simp add: algebra_simps)
    moreover have "unat (cs_addr s) + Suc n < 2 ^ 64" using lt assms(5) n(1) by linarith
    ultimately show ?thesis
      using unat_add_numeral_u64 [of "cs_addr s" "Suc n"] by (simp add: word_less_nat_alt del: of_nat_Suc)
  qed
qed

lemma cfi_step_not_Diverge: "cfi_inv s \<Longrightarrow> cfi_step m pi dci s \<noteq> Diverge"
  using cfi_step_good [of s m pi dci] by (auto simp: cfi_good_def)

lemma cfi_loop_returns:
  assumes "cfi_inv s" "forward_blocks m a e" "a \<le> cs_addr s" "unat e + 32 < 2 ^ 64"
    "unat e - unat (cs_addr s) \<le> fuel"
  shows "cfi_loop fuel m pi dci ip e s \<noteq> Diverge"
  using assms
proof (induction fuel arbitrary: s)
  case 0
  then have "\<not> cs_addr s < e" by (simp add: word_less_nat_alt)
  then show ?case by (simp add: cfi_loop.simps [of 0] cfi_next_def)
next
  case (Suc fuel)
  show ?case
  proof (cases "cs_curr_ip s \<le> ip \<and> cs_addr s < e")
    case False
    then show ?thesis by (auto simp: cfi_loop.simps [of "Suc fuel"] cfi_next_def)
  next
    case True
    have IH: "cfi_loop fuel m pi dci ip e s' \<noteq> Diverge" if st: "cfi_step m pi dci s = Ok (s', None)" for s'
    proof (rule Suc.IH)
      have lt: "cs_addr s < cs_addr s'"
        by (rule cfi_step_progress [OF st Suc.prems(2,3)]) (use True Suc.prems(4) in simp_all)
      show "cfi_inv s'" using cfi_step_kept [OF Suc.prems(1), of m pi dci] st by (simp add: cfi_kept_def)
      show "a \<le> cs_addr s'" using lt Suc.prems(3) by simp
      show "unat e - unat (cs_addr s') \<le> fuel" using lt Suc.prems(5) by (simp add: word_less_nat_alt)
    qed (rule Suc.prems(2,4))+
    then show ?thesis using True cfi_step_not_Diverge [OF Suc.prems(1)]
      by (auto simp: cfi_loop.simps [of "Suc fuel"] obind_eq_Diverge cfi_fail_def split: option.splits)
  qed
qed

lemma cfi_loop_UB:
  assumes "cfi_inv s" "forward_blocks m a e" "a \<le> cs_addr s" "unat e + 32 < 2 ^ 64"
    "cfi_loop fuel m pi dci ip e s = UB"
  shows "\<exists>x. a \<le> x \<and> x < e \<and> bad_leb m (x + 1)"
  using assms
proof (induction fuel arbitrary: s)
  case 0
  then show ?case by (simp add: cfi_loop.simps [of 0] cfi_next_def split: if_splits)
next
  case (Suc fuel)
  then have run: "cs_curr_ip s \<le> ip" "cs_addr s < e"
    by (auto simp: cfi_loop.simps [of "Suc fuel"] cfi_next_def split: if_splits)
  with Suc.prems(5) consider "cfi_step m pi dci s = UB"
    | s1 where "cfi_step m pi dci s = Ok (s1, None)" "cfi_loop fuel m pi dci ip e s1 = UB"
    by (cases "cfi_step m pi dci s")
       (auto simp: cfi_loop.simps [of "Suc fuel"] cfi_fail_def split: option.splits)
  then show ?case
  proof cases
    case 1
    with cfi_step_good [OF Suc.prems(1), of m pi dci] run(2) Suc.prems(3) show ?thesis
      by (auto simp: cfi_good_def)
  next
    case (2 s1)
    have "cs_addr s < cs_addr s1" by (rule cfi_step_progress [OF 2(1) Suc.prems(2,3) run(2) Suc.prems(4)])
    moreover have "cfi_inv s1" using cfi_step_kept [OF Suc.prems(1), of m pi dci] 2(1) by (simp add: cfi_kept_def)
    ultimately show ?thesis using Suc.IH [OF _ Suc.prems(2) _ Suc.prems(4) 2(2)] Suc.prems(3) by force
  qed
qed

section \<open>Properties of the interpreter\<close>

lemma init_state_record_wf: "sr_wf init_state_record"
  by (simp add: sr_wf_def init_state_record_def zero_reg_state_def column_defs)

lemma run_inv:
  assumes "sr_wf sr" "pool_inv pool"
  shows "cfi_inv \<lparr>cs_addr = a, cs_curr_ip = i, cs_sr = sr, cs_rs_stack = [], cs_pool = pool\<rparr>"
  using assms by (simp add: cfi_inv_def)


definition dci0 :: dwarf_cie_info_t where
  "dci0 = \<lparr>cie_instr_start = 0, cie_instr_end = 0, fde_instr_start = 0, fde_instr_end = 0,
     code_align = 1, data_align = - 8, dci_ret_addr_column = 16, dci_handler = 0, dci_abi = 0,
     dci_tag = 0, dci_fde_encoding = 0, dci_lsda_encoding = 0, sized_augmentation = False,
     have_abi_marker = False, dci_signal_frame = False\<rparr>"





lemma cfi_remember_ok:
  "\<exists>s1. cfi_remember_state
     \<lparr>cs_addr = 0, cs_curr_ip = 0, cs_sr = init_state_record, cs_rs_stack = [], cs_pool = (env0, pool0)\<rparr>
     = Ok (s1, None)"
proof -
  have "is_Ok (mempool_alloc env0 pool0)"
    by (rule mempool_alloc_returns [OF pool0_inv]) (simp_all add: env0_def pool0_def)
  then obtain x p where a: "pool_alloc (env0, pool0) = Ok (x, p)" by (auto simp: is_Ok_def pool_alloc_def)
  with mp.alloc_law [OF pool0_inv a] owned_nonzero have "x \<noteq> 0" by (auto simp: pool_owns_def)
  with a show ?thesis by (simp add: cfi_remember_state_def cfi_next_def)
qed


text \<open>An opcode byte that is no call frame instruction (such as \<open>0x16\<close>, \<open>DW_CFA_val_expression\<close> of
  DWARF 3) is skipped without an error, although its operands remain in the program and are then
  executed as instructions.\<close>

lemma unknown_cfa_opcode_ignored:
  assumes "m (cs_addr s) \<in> {0x14, 0x15, 0x16}"
  shows "cfi_step m pi dci s = Ok (s\<lparr>cs_addr := cs_addr s + 1\<rparr>, None)"
  using assms
  by (elim insertE emptyE) (simp_all add: cfi_step_def dwarf_readu8_def cfi_opcode_def
      DWARF_CFA_OPCODE_MASK_def dwarf_cfa_op_def cfi_exec_def cfi_next_def)

end
