(* ===== verification/Unw_Call.thy ===== *)
theory Unw_Call
  imports Unw_Prelude
begin

text \<open>
  Calls that change state they are handed by reference and return an error code: a C function
  \<open>int f (struct s *p, ...)\<close> that returns \<open>-e\<close> after it has changed \<open>*p\<close> leaves the changed state to
  its caller. A call therefore yields a reply, a value or an error code, together with the state
  at its return; a panic, undefined behaviour and a loop that does not end have no state.
\<close>

datatype 'a reply = Ret 'a | Err unw_error_t

type_synonym ('s, 'a) call = "('a reply \<times> 's) outcome"

definition ret :: "'a \<Rightarrow> 's \<Rightarrow> ('s, 'a) call" where
  "ret a s = Ok (Ret a, s)"

definition throw :: "unw_error_t \<Rightarrow> 's \<Rightarrow> ('s, 'a) call" where
  "throw e s = Ok (Err e, s)"

text \<open>\<open>if ((ret = f (...)) < 0) return ret; ...\<close>\<close>

definition cbind :: "('s, 'a) call \<Rightarrow> ('a \<Rightarrow> 's \<Rightarrow> ('s, 'b) call) \<Rightarrow> ('s, 'b) call" where
  "cbind r k = obind r (\<lambda>(x, s). case x of Ret a \<Rightarrow> k a s | Err e \<Rightarrow> throw e s)"

text \<open>A call that reads only: its error is returned with the state as it is.\<close>

definition reads :: "'a outcome \<Rightarrow> 's \<Rightarrow> ('s, 'a) call" where
  "reads r s = (case r of Ok a \<Rightarrow> ret a s | Fail e \<Rightarrow> throw e s | Panic \<Rightarrow> Panic | UB \<Rightarrow> UB | Diverge \<Rightarrow> Diverge)"

text \<open>The state at the return of a call, whatever the reply.\<close>

definition on_return :: "('s \<Rightarrow> bool) \<Rightarrow> ('s, 'a) call \<Rightarrow> bool" where
  "on_return P r = (\<forall>x s. r = Ok (x, s) \<longrightarrow> P s)"

lemma cbind_simps [simp]:
  "cbind (ret a s) k = k a s" "cbind (throw e s) k = throw e s"
  "cbind (Ok (Ret a, s)) k = k a s" "cbind (Ok (Err e, s)) k = throw e s"
  "cbind UB k = UB" "cbind Panic k = Panic" "cbind Diverge k = Diverge" "cbind (Fail e) k = Fail e"
  by (simp_all add: cbind_def ret_def throw_def)

lemma reads_simps [simp]:
  "reads (Ok a) s = ret a s" "reads (Fail e) s = throw e s" "reads UB s = UB" "reads Panic s = Panic"
  "reads Diverge s = Diverge"
  by (simp_all add: reads_def)

lemma ret_err_eq [simp]:
  "ret a s = Ok (x, s') \<longleftrightarrow> x = Ret a \<and> s' = s" "throw e s = Ok (x, s') \<longleftrightarrow> x = Err e \<and> s' = s"
  "ret a s \<noteq> UB" "throw e s \<noteq> UB" "ret a s \<noteq> Diverge" "throw e s \<noteq> Diverge" "ret a s \<noteq> Panic" "throw e s \<noteq> Panic"
  by (auto simp: ret_def throw_def)

lemma ret_throw_inject [simp]:
  "ret a s = ret a' s' \<longleftrightarrow> a = a' \<and> s = s'" "throw e s = throw e' s' \<longleftrightarrow> e = e' \<and> s = s'"
  "ret a s \<noteq> throw e s'" "throw e s' \<noteq> ret a s"
  by (simp_all add: ret_def throw_def)

lemma cbind_Ret [simp]:
  "cbind r k = Ok (Ret b, s') \<longleftrightarrow> (\<exists>a s. r = Ok (Ret a, s) \<and> k a s = Ok (Ret b, s'))"
  by (cases r) (auto simp: cbind_def split: reply.splits)

lemma cbind_eq_Ok:
  "cbind r k = Ok (x, s') \<longleftrightarrow>
     (\<exists>a s. r = Ok (Ret a, s) \<and> k a s = Ok (x, s')) \<or> (\<exists>e. r = Ok (Err e, s') \<and> x = Err e)"
  by (cases r) (auto simp: cbind_def split: reply.splits)

lemma cbind_OkE:
  assumes "cbind r k = Ok (x, s')"
  obtains (Ret) a s where "r = Ok (Ret a, s)" "k a s = Ok (x, s')"
    | (Err) e where "r = Ok (Err e, s')" "x = Err e"
  using assms by (auto simp: cbind_eq_Ok)

lemma reads_Ret [simp]: "reads r s = Ok (Ret a, s') \<longleftrightarrow> r = Ok a \<and> s' = s"
  by (cases r) auto

lemma reads_Err [simp]: "reads r s = Ok (Err e, s') \<longleftrightarrow> r = Fail e \<and> s' = s"
  by (cases r) auto

lemma reads_not [simp]:
  "reads r s = UB \<longleftrightarrow> r = UB" "reads r s = Diverge \<longleftrightarrow> r = Diverge" "reads r s = Panic \<longleftrightarrow> r = Panic"
  by (cases r; simp)+

lemma cbind_eq_Diverge:
  "cbind r k = Diverge \<longleftrightarrow> r = Diverge \<or> (\<exists>a s. r = Ok (Ret a, s) \<and> k a s = Diverge)"
  by (cases r) (auto simp: cbind_def split: reply.splits)

lemma cbind_eq_UB:
  "cbind r k = UB \<longleftrightarrow> r = UB \<or> (\<exists>a s. r = Ok (Ret a, s) \<and> k a s = UB)"
  by (cases r) (auto simp: cbind_def split: reply.splits)

lemma on_return_simps [simp]:
  "on_return P (ret a s) = P s" "on_return P (throw e s) = P s" "on_return P UB" "on_return P Panic"
  "on_return P Diverge"
  by (auto simp: on_return_def)

lemma on_return_reads [intro]: "P s \<Longrightarrow> on_return P (reads r s)"
  by (cases r) simp_all

lemma on_return_cbind [intro]:
  "on_return P r \<Longrightarrow> (\<And>a s. r = Ok (Ret a, s) \<Longrightarrow> P s \<Longrightarrow> on_return Q (k a s)) \<Longrightarrow> (\<And>s. P s \<Longrightarrow> Q s) \<Longrightarrow>
   on_return Q (cbind r k)"
  by (auto simp: on_return_def cbind_eq_Ok)

end
