(* ===== verification/Dwarf_FDE.thy ===== *)
theory Dwarf_FDE
  imports Dwarf_CFI Unw_Call
begin

text \<open>
  Frame description entries: \<^verbatim>\<open>Gfde.c\<close>. \<open>parse_cie\<close> reads a common information entry,
  \<open>dwarf_extract_proc_info_from_fde\<close> an FDE and its CIE, filling the procedure information and, when
  the caller needs it, an object of the pool \<open>dwarf_cie_info_pool\<close> with the unwind information.

  A call on an FDE works on the address it was passed by reference, the procedure information and
  the pool, all three of which it changes also when it fails. The loop over the augmentation string
  has fuel: memory without a zero byte keeps it running.
\<close>

section \<open>The common information entry\<close>

definition is_cie_id :: "u64 \<Rightarrow> bool \<Rightarrow> bool" where
  "is_cie_id val is_debug_frame =
     (if is_debug_frame then val = ucast (- 1 :: u32) \<or> val = - 1 else val = 0)"

definition zero_cie_info :: dwarf_cie_info_t where
  "zero_cie_info = \<lparr>cie_instr_start = 0, cie_instr_end = 0, fde_instr_start = 0, fde_instr_end = 0,
     code_align = 0, data_align = 0, dci_ret_addr_column = 0, dci_handler = 0, dci_abi = 0,
     dci_tag = 0, dci_fde_encoding = 0, dci_lsda_encoding = 0, sized_augmentation = False,
     have_abi_marker = False, dci_signal_frame = False\<rparr>"

text \<open>The length and the id of the entry: the end of the CIE and the address behind its id.\<close>

definition parse_cie_header :: "memory \<Rightarrow> addr \<Rightarrow> u64 \<Rightarrow> (addr \<times> addr) outcome" where
  "parse_cie_header m a base =
     (let (u32val, a) = dwarf_readu32 m a in
      if u32val \<noteq> 0xffffffff then
        (let cie_end_addr = a + ucast u32val; (cie_id, a) = dwarf_readu32 m a in
         if cie_id \<noteq> (if base \<noteq> 0 then 0xffffffff else 0) then Fail UNW_EINVAL
         else Ok (cie_end_addr, a))
      else
        (let (u64val, a) = dwarf_readu64 m a; cie_end_addr = a + u64val;
             (cie_id, a) = dwarf_readu64 m a in
         if cie_id \<noteq> (if base \<noteq> 0 then 0xffffffffffffffff else 0) then Fail UNW_EINVAL
         else Ok (cie_end_addr, a)))"

text \<open>The augmentation string: at most its first four characters are kept.\<close>

fun read_augstr :: "nat \<Rightarrow> memory \<Rightarrow> addr \<Rightarrow> u8 list \<Rightarrow> (u8 list \<times> addr) outcome" where
  "read_augstr 0 m a augstr = Diverge"
| "read_augstr (Suc fuel) m a augstr =
     (let (ch, a) = dwarf_readu8 m a in
      if ch = 0 then Ok (augstr, a)
      else read_augstr fuel m a (if length augstr < 4 then augstr @ [ch] else augstr))"

text \<open>
  The loop over the characters behind an initial \<open>z\<close>: \<open>L\<close> is 0x4c, \<open>R\<close> 0x52, \<open>P\<close> 0x50 and \<open>S\<close> 0x53. The
  fifth element of the array is always 0, so the loop ends with the string.
\<close>

fun parse_augmentation ::
  "memory \<Rightarrow> unw_proc_info_t \<Rightarrow> u8 list \<Rightarrow> addr \<Rightarrow> dwarf_cie_info_t \<Rightarrow> u8 \<Rightarrow>
   (addr \<times> dwarf_cie_info_t \<times> u8) outcome" where
  "parse_augmentation m pi [] a dci fde_encoding = Ok (a, dci, fde_encoding)"
| "parse_augmentation m pi (c # cs) a dci fde_encoding =
     (if c = 0x4c then
        (let (ch, a) = dwarf_readu8 m a in
         parse_augmentation m pi cs a (dci\<lparr>dci_lsda_encoding := ch\<rparr>) fde_encoding)
      else if c = 0x52 then
        (let (ch, a) = dwarf_readu8 m a in parse_augmentation m pi cs a dci ch)
      else if c = 0x50 then
        (let (handler_encoding, a) = dwarf_readu8 m a in
         obind (dwarf_read_encoded_pointer m a handler_encoding pi) (\<lambda>(handler, a).
         parse_augmentation m pi cs a (dci\<lparr>dci_handler := handler\<rparr>) fde_encoding))
      else if c = 0x53 then
        parse_augmentation m pi cs a (dci\<lparr>dci_signal_frame := True, have_abi_marker := True\<rparr>) fde_encoding
      else if sized_augmentation dci then Ok (a, dci, fde_encoding)
      else Fail UNW_EINVAL)"

text \<open>The alignment factors and the return address column.\<close>

definition parse_cie_columns ::
  "memory \<Rightarrow> addr \<Rightarrow> u8 \<Rightarrow> dwarf_cie_info_t \<Rightarrow> (addr \<times> dwarf_cie_info_t) outcome" where
  "parse_cie_columns m a version dci =
     obind (dwarf_read_uleb128 m a) (\<lambda>(code, a).
     obind (dwarf_read_sleb128 m a) (\<lambda>(data, a).
     let dci = dci\<lparr>code_align := code, data_align := data\<rparr> in
     if version = 1 then
       (let (ch, a) = dwarf_readu8 m a in Ok (a, dci\<lparr>dci_ret_addr_column := ucast ch\<rparr>))
     else obind (dwarf_read_uleb128 m a) (\<lambda>(col, a). Ok (a, dci\<lparr>dci_ret_addr_column := col\<rparr>))))"

definition parse_cie ::
  "nat \<Rightarrow> memory \<Rightarrow> addr \<Rightarrow> unw_proc_info_t \<Rightarrow> dwarf_cie_info_t \<Rightarrow> u64 \<Rightarrow> dwarf_cie_info_t outcome" where
  "parse_cie fuel m a pi dci base =
     (let fde_encoding = (if dwarf_addr_size = 4 then DW_EH_PE_udata4
                          else if dwarf_addr_size = 8 then DW_EH_PE_udata8 else DW_EH_PE_omit);
          dci = dci\<lparr>dci_lsda_encoding := DW_EH_PE_omit, dci_handler := 0\<rparr> in
      obind (parse_cie_header m a base) (\<lambda>(cie_end_addr, a).
      let dci = dci\<lparr>cie_instr_end := cie_end_addr\<rparr>; (version, a) = dwarf_readu8 m a in
      if version \<noteq> 1 \<and> version \<noteq> DWARF_CIE_VERSION then Fail UNW_EBADVERSION
      else
        obind (read_augstr fuel m a []) (\<lambda>(augstr, a).
        obind (parse_cie_columns m a version dci) (\<lambda>(a, dci).
        obind (case augstr of
                 c # cs \<Rightarrow>
                   if c = 0x7a
                   then obind (dwarf_read_uleb128 m a) (\<lambda>(aug_size, a).
                          Ok (cs, a, dci\<lparr>sized_augmentation := True\<rparr>))
                   else Ok (augstr, a, dci)
               | [] \<Rightarrow> Ok ([], a, dci)) (\<lambda>(augstr, a, dci).
        obind (parse_augmentation m pi augstr a dci fde_encoding) (\<lambda>(a, dci, fde_encoding).
        Ok (dci\<lparr>dci_fde_encoding := fde_encoding, cie_instr_start := a\<rparr>)))))))"

section \<open>The frame description entry\<close>

text \<open>
  What the head of an entry says: the terminator of the table, a CIE, or an FDE with the address
  behind its CIE pointer and the address of its CIE; each but the first with its end.
\<close>

datatype fde_head = Fde_Terminator | Fde_CIE addr | Fde_FDE addr addr addr

definition fde_header :: "memory \<Rightarrow> addr \<Rightarrow> u64 \<Rightarrow> fde_head" where
  "fde_header m a base =
     (let (u32val, a) = dwarf_readu32 m a in
      if u32val \<noteq> 0xffffffff then
        if u32val = 0 then Fde_Terminator
        else
          (let fde_end_addr = a + ucast u32val; cie_offset_addr = a;
               (cie_offset, a) = dwarf_reads32 m a in
           if is_cie_id (scast cie_offset) (base \<noteq> 0) then Fde_CIE fde_end_addr
           else if base \<noteq> 0 then Fde_FDE fde_end_addr a (base + scast cie_offset)
           else Fde_FDE fde_end_addr a (cie_offset_addr - scast cie_offset))
      else
        (let (u64val, a) = dwarf_readu64 m a; fde_end_addr = a + u64val; cie_offset_addr = a;
             (cie_offset, a) = dwarf_reads64 m a in
         if is_cie_id cie_offset (base \<noteq> 0) then Fde_CIE fde_end_addr
         else if base \<noteq> 0 then Fde_FDE fde_end_addr a (base + cie_offset)
         else Fde_FDE fde_end_addr a (cie_offset_addr - cie_offset)))"

text \<open>The address passed by reference, the procedure information and the pool.\<close>

type_synonym fde_state = "addr \<times> unw_proc_info_t \<times> pool_state"

text \<open>\<open>sizeof (struct dwarf_cie_info)\<close>\<close>

definition CIE_INFO_SIZE :: nat where "CIE_INFO_SIZE = 72"

text \<open>The part for \<open>need_unwind_info\<close>; \<open>a\<close> is the address behind the LSDA pointer.\<close>

definition fde_unwind_info ::
  "memory \<Rightarrow> dwarf_cie_info_t \<Rightarrow> addr \<Rightarrow> addr \<Rightarrow> addr \<Rightarrow> fde_state \<Rightarrow> (fde_state, unit) call" where
  "fde_unwind_info m dci a aug_end_addr fde_end_addr = (\<lambda>(addrp, pi, pool).
     let pi = pi\<lparr>pi_format := UNW_INFO_FORMAT_TABLE, pi_unwind_info_size := CIE_INFO_SIZE\<rparr> in
     obind (pool_alloc pool) (\<lambda>(obj, pool).
     if obj = 0 then throw UNW_ENOMEM (addrp, pi\<lparr>pi_unwind_info := UI_NULL\<rparr>, pool)
     else
       (let (dci, a) =
          (if have_abi_marker dci then
             (let (abi, a) = dwarf_readu16 m a; (tag, a) = dwarf_readu16 m a in
              (dci\<lparr>dci_abi := abi, dci_tag := tag\<rparr>, a))
           else (dci, a));
            dci = dci\<lparr>fde_instr_start := (if sized_augmentation dci then aug_end_addr else a),
                      fde_instr_end := fde_end_addr\<rparr> in
        ret () (addrp, pi\<lparr>pi_unwind_info := UI_cie obj dci\<rparr>, pool))))"

text \<open>Everything behind the head, with the CIE parsed.\<close>

definition fde_body ::
  "memory \<Rightarrow> bool \<Rightarrow> dwarf_cie_info_t \<Rightarrow> addr \<Rightarrow> addr \<Rightarrow> fde_state \<Rightarrow> (fde_state, unit) call" where
  "fde_body m need_unwind_info dci a fde_end_addr = (\<lambda>(addrp, pi, pool).
     cbind (reads (dwarf_read_encoded_pointer m a (dci_fde_encoding dci) pi) (addrp, pi, pool))
       (\<lambda>(sip, a) s.
     cbind (reads (dwarf_read_encoded_pointer m a (dci_fde_encoding dci AND DW_EH_PE_FORMAT_MASK) pi) s)
       (\<lambda>(ip_range, a) s.
     let pi = pi\<lparr>start_ip := sip, end_ip := sip + ip_range, pi_handler := dci_handler dci\<rparr>;
         s = (addrp, pi, pool) in
     cbind (if sized_augmentation dci
            then cbind (reads (dwarf_read_uleb128 m a) s) (\<lambda>(aug_size, a) s. ret (a, a + aug_size) s)
            else ret (a, 0) s) (\<lambda>(a, aug_end_addr) s.
     cbind (reads (dwarf_read_encoded_pointer m a (dci_lsda_encoding dci) pi) s) (\<lambda>(lsda, a) s.
     let s = (addrp, pi\<lparr>pi_lsda := lsda\<rparr>, pool) in
     if need_unwind_info then fde_unwind_info m dci a aug_end_addr fde_end_addr s
     else ret () s)))))"

definition dwarf_extract_proc_info_from_fde ::
  "nat \<Rightarrow> memory \<Rightarrow> bool \<Rightarrow> u64 \<Rightarrow> fde_state \<Rightarrow> (fde_state, unit) call" where
  "dwarf_extract_proc_info_from_fde fuel m need_unwind_info base = (\<lambda>(addrp, pi, pool).
     case fde_header m addrp base of
       Fde_Terminator \<Rightarrow> throw UNW_ENOINFO (addrp, pi, pool)
     | Fde_CIE fde_end_addr \<Rightarrow> ret () (fde_end_addr, pi, pool)
     | Fde_FDE fde_end_addr a cie_addr \<Rightarrow>
         cbind (reads (parse_cie fuel m cie_addr pi zero_cie_info base) (fde_end_addr, pi, pool))
           (\<lambda>dci s. fde_body m need_unwind_info dci a fde_end_addr s))"

section \<open>The entries the compiler emits\<close>

text \<open>
  The \<open>.eh_frame\<close> section of a kernel module: a version 1 CIE with the augmentation \<open>zR\<close>, code
  alignment 1, data alignment -8, return column 16 and pc-relative signed 4-byte pointers; an FDE
  without augmentation data. \<open>off\<close> is the stored start address and \<open>len\<close> the size of the function.
\<close>

definition gcc_cie_at :: "memory \<Rightarrow> addr \<Rightarrow> u32 \<Rightarrow> bool" where
  "gcc_cie_at m a cie_len = (mem_le m 4 a = ucast cie_len \<and> cie_len \<noteq> 0xffffffff \<and> mem_le m 4 (a + 4) = 0 \<and>
     bytes_at m (a + 8) [1, 0x7a, 0x52, 0, 1, 0x78, 0x10, 1, 0x1b])"

definition fde_range_at :: "memory \<Rightarrow> addr \<Rightarrow> addr \<Rightarrow> u32 \<Rightarrow> u32 \<Rightarrow> u32 \<Rightarrow> bool" where
  "fde_range_at m a cie fde_len off len = (mem_le m 4 a = ucast fde_len \<and> fde_len \<noteq> 0 \<and> fde_len \<noteq> 0xffffffff \<and>
     mem_le m 4 (a + 4) = ucast (ucast (a + 4 - cie) :: u32) \<and>
     scast (ucast (a + 4 - cie) :: u32) = a + 4 - cie \<and> a + 4 \<noteq> cie \<and>
     mem_le m 4 (a + 8) = ucast off \<and> off \<noteq> 0 \<and> mem_le m 4 (a + 12) = ucast len)"

definition gcc_fde_at :: "memory \<Rightarrow> addr \<Rightarrow> addr \<Rightarrow> u32 \<Rightarrow> u32 \<Rightarrow> u32 \<Rightarrow> bool" where
  "gcc_fde_at m a cie fde_len off len = (fde_range_at m a cie fde_len off len \<and> m (a + 16) = 0)"

lemma u32_u64_u32 [simp]:
  "(ucast (ucast (v :: u32) :: u64) :: u32) = v" "(ucast (scast (v :: u32) :: u64) :: u32) = v"
  by (rule bit_word_eqI, simp add: bit_simps)+

lemma scast_u32_0 [simp]: "(scast (v :: u32) :: u64) = 0 \<longleftrightarrow> v = 0"
  by (metis u32_u64_u32(2) scast_0 ucast_0)

lemma leb_one_byte:
  assumes "m a AND 0x80 = 0"
  shows "leb_loop m a 0 0 = Ok (m a, ucast (m a) AND 0x7f, 7, a + 1)"
  using assms by (subst leb_loop.simps) (simp add: shl64_def Let_def)

lemma uleb_one_byte:
  assumes "m a AND 0x80 = 0"
  shows "dwarf_read_uleb128 m a = Ok (ucast (m a) AND 0x7f, a + 1)"
  by (simp add: dwarf_read_uleb128_def leb_one_byte [of m a, OF assms])

lemma gcc_cie_parsed:
  assumes cie: "gcc_cie_at m a cie_len" and fuel: "3 \<le> fuel"
  shows "parse_cie fuel m a pi zero_cie_info 0 = Ok (zero_cie_info\<lparr>cie_instr_start := a + 17,
    cie_instr_end := a + 4 + ucast cie_len, code_align := 1, data_align := - 8, dci_ret_addr_column := 16,
    dci_fde_encoding := 0x1b, dci_lsda_encoding := 0xff, sized_augmentation := True\<rparr>)"
proof -
  have b: "m (a + 8) = 1" "m (a + 9) = 0x7a" "m (a + 10) = 0x52" "m (a + 11) = 0" "m (a + 12) = 1"
    "m (a + 13) = 0x78" "m (a + 14) = 0x10" "m (a + 15) = 1" "m (a + 16) = 0x1b"
    using cie by (simp_all add: gcc_cie_at_def add.assoc)
  have len: "mem_le m 4 a = ucast cie_len" "cie_len \<noteq> 0xffffffff" "mem_le m 4 (a + 4) = 0"
    using cie by (simp_all add: gcc_cie_at_def)
  have "dwarf_readu32 m a = (cie_len, a + 4)" "dwarf_readu32 m (a + 4) = (0, a + 8)"
    using len by (simp_all add: dwarf_readu32_def add.assoc)
  then have hd: "parse_cie_header m a 0 = Ok (a + 4 + ucast cie_len, a + 8)"
    using len(2) by (simp add: parse_cie_header_def)
  obtain n where n: "fuel = Suc (Suc (Suc n))" using that [of "fuel - 3"] fuel by simp
  have aug: "read_augstr fuel m (a + 9) [] = Ok ([0x7a, 0x52], a + 12)"
    using b by (simp add: n dwarf_readu8_def add.assoc)
  have ones: "120 OR push_bit 7 (- 1) = (- 8 :: u64)" by code_simp
  have data: "dwarf_read_sleb128 m (a + 13) = Ok (- 8, a + 14)"
    using b(6) ones by (simp add: dwarf_read_sleb128_def leb_one_byte shl64_def add.assoc)
  have cols: "parse_cie_columns m (a + 12) 1 dci =
      Ok (a + 15, dci\<lparr>code_align := 1, data_align := - 8, dci_ret_addr_column := 16\<rparr>)" for dci
    using b(5,7) data by (simp add: parse_cie_columns_def uleb_one_byte dwarf_readu8_def add.assoc)
  show ?thesis
    using b(1,8,9) hd aug cols
    by (simp add: parse_cie_def dwarf_readu8_def uleb_one_byte add.assoc zero_cie_info_def)
qed

lemma read_sdata4:
  assumes "mem_le m 4 a = ucast (v :: u32)"
  shows "dwarf_read_encoded_pointer m a 0x0b pi = Ok (scast v, a + 4)"
    "v \<noteq> 0 \<Longrightarrow> dwarf_read_encoded_pointer m a 0x1b pi = Ok (scast v + a, a + 4)"
proof -
  show "v \<noteq> 0 \<Longrightarrow> dwarf_read_encoded_pointer m a 0x1b pi = Ok (scast v + a, a + 4)"
    using assms by (simp add: dwarf_read_encoded_pointer_def read_pointer_format_def dwarf_reads32_def
        apply_pointer_base_def dwarf_addr_size_def)
  show "dwarf_read_encoded_pointer m a 0x0b pi = Ok (scast v, a + 4)"
    using assms by (simp add: dwarf_read_encoded_pointer_def read_pointer_format_def dwarf_reads32_def
        apply_pointer_base_def dwarf_addr_size_def)
qed

lemma fde_range_header:
  assumes "fde_range_at m a cie fde_len off len"
  shows "fde_header m a 0 = Fde_FDE (a + 4 + ucast fde_len) (a + 8) cie"
proof -
  define w where "w = (ucast (a + 4 - cie) :: u32)"
  have w: "scast w = a + 4 - cie" "w \<noteq> 0"
    using assms scast_u32_0 [of w] by (auto simp: fde_range_at_def w_def)
  have "dwarf_readu32 m a = (fde_len, a + 4)" "dwarf_reads32 m (a + 4) = (w, a + 8)"
    using assms by (simp_all add: fde_range_at_def dwarf_readu32_def dwarf_reads32_def add.assoc w_def)
  with w assms show ?thesis by (simp add: fde_header_def is_cie_id_def fde_range_at_def)
qed

lemma fde_range_read:
  assumes "fde_range_at m fde cie fde_len off len" "sip = fde + 8 + scast off"
  shows "dwarf_read_encoded_pointer m (fde + 8) 0x1b pi = Ok (sip, fde + 12)"
    "dwarf_read_encoded_pointer m (fde + 12) 0x0b pi = Ok (scast len, fde + 16)"
proof -
  have f: "mem_le m 4 (fde + 8) = ucast off" "off \<noteq> 0" "mem_le m 4 (fde + 12) = ucast len"
    using assms(1) by (simp_all add: fde_range_at_def)
  show "dwarf_read_encoded_pointer m (fde + 8) 0x1b pi = Ok (sip, fde + 12)"
    using read_sdata4(2) [OF f(1,2), of pi] assms(2) by (simp add: add.commute add.assoc)
  show "dwarf_read_encoded_pointer m (fde + 12) 0x0b pi = Ok (scast len, fde + 16)"
    using read_sdata4(1) [OF f(3), of pi] by (simp add: add.assoc)
qed

text \<open>The unwind information of such an FDE.\<close>

definition gcc_cie_info :: "addr \<Rightarrow> u32 \<Rightarrow> addr \<Rightarrow> u32 \<Rightarrow> dwarf_cie_info_t" where
  "gcc_cie_info cie cie_len fde fde_len = zero_cie_info\<lparr>cie_instr_start := cie + 17,
     cie_instr_end := cie + 4 + ucast cie_len, fde_instr_start := fde + 17,
     fde_instr_end := fde + 4 + ucast fde_len, code_align := 1, data_align := - 8,
     dci_ret_addr_column := 16, dci_fde_encoding := 0x1b, dci_lsda_encoding := 0xff,
     sized_augmentation := True\<rparr>"

lemma gcc_fde_body:
  assumes "gcc_cie_at m cie cie_len" "gcc_fde_at m fde cie fde_len off len" "3 \<le> fuel"
    "sip = fde + 8 + scast off"
    "s = (fde + 4 + ucast fde_len, pi\<lparr>start_ip := sip, end_ip := sip + scast len, pi_handler := 0, pi_lsda := 0\<rparr>, pool)"
  shows "dwarf_extract_proc_info_from_fde fuel m need 0 (fde, pi, pool) =
    (if need then fde_unwind_info m ((gcc_cie_info cie cie_len fde fde_len)\<lparr>fde_instr_start := 0, fde_instr_end := 0\<rparr>)
       (fde + 17) (fde + 17) (fde + 4 + ucast fde_len) s
     else ret () s)"
proof -
  have f: "fde_range_at m fde cie fde_len off len" "m (fde + 16) = 0" using assms(2) by (simp_all add: gcc_fde_at_def)
  note range = fde_range_read [OF f(1) assms(4), of pi]
  have aug: "dwarf_read_uleb128 m (fde + 16) = Ok (0, fde + 17)"
    using f(2) by (simp add: uleb_one_byte add.assoc)
  have "dwarf_extract_proc_info_from_fde fuel m need 0 (fde, pi, pool) =
      fde_body m need (zero_cie_info\<lparr>cie_instr_start := cie + 17, cie_instr_end := cie + 4 + ucast cie_len,
        code_align := 1, data_align := - 8, dci_ret_addr_column := 16, dci_fde_encoding := 0x1b,
        dci_lsda_encoding := 0xff, sized_augmentation := True\<rparr>) (fde + 8) (fde + 4 + ucast fde_len)
        (fde + 4 + ucast fde_len, pi, pool)"
    by (simp add: dwarf_extract_proc_info_from_fde_def fde_range_header [OF f(1)] gcc_cie_parsed [OF assms(1,3)])
  then show ?thesis
    using range aug assms(5)
    by (simp add: fde_body_def dwarf_read_encoded_pointer_def [of _ _ 255] gcc_cie_info_def
        zero_cie_info_def Let_def)
qed

lemma gcc_fde_decoded:
  assumes "gcc_cie_at m cie cie_len" "gcc_fde_at m fde cie fde_len off len" "3 \<le> fuel"
  shows "dwarf_extract_proc_info_from_fde fuel m False 0 (fde, pi, pool) =
    ret () (fde + 4 + ucast fde_len, pi\<lparr>start_ip := fde + 8 + scast off,
      end_ip := fde + 8 + scast off + scast len, pi_handler := 0, pi_lsda := 0\<rparr>, pool)"
  by (simp add: gcc_fde_body [OF assms refl refl])

lemma gcc_fde_decoded_unwind:
  assumes "gcc_cie_at m cie cie_len" "gcc_fde_at m fde cie fde_len off len" "3 \<le> fuel"
    "pool_alloc pool = Ok (obj, pool')" "obj \<noteq> 0"
  shows "dwarf_extract_proc_info_from_fde fuel m True 0 (fde, pi, pool) =
    ret () (fde + 4 + ucast fde_len, pi\<lparr>start_ip := fde + 8 + scast off,
      end_ip := fde + 8 + scast off + scast len, pi_handler := 0, pi_lsda := 0,
      pi_format := UNW_INFO_FORMAT_TABLE, pi_unwind_info_size := CIE_INFO_SIZE,
      pi_unwind_info := UI_cie obj (gcc_cie_info cie cie_len fde fde_len)\<rparr>, pool')"
  using assms(4,5) unfolding gcc_fde_body [OF assms(1-3) refl refl]
  by (simp add: fde_unwind_info_def gcc_cie_info_def zero_cie_info_def)

text \<open>C16: an FDE as the compiler emits it is decoded to the function it was emitted for: the start
  is the address of the field plus the stored displacement, the end is the start plus the stored
  length, there is no handler and no LSDA, and the address moves to the next entry. With
  \<open>need_unwind_info\<close> the instructions of the CIE and of the FDE, the alignment factors and the return
  column are in an object taken from the pool.\<close>

theorem gcc_fde_extracted:
  assumes "gcc_cie_at m cie cie_len" "gcc_fde_at m fde cie fde_len off len" "3 \<le> fuel"
    "pool_alloc pool = Ok (obj, pool')" "obj \<noteq> 0"
    "sip = fde + 8 + scast off"
    "pi' = pi\<lparr>start_ip := sip, end_ip := sip + scast len, pi_handler := 0, pi_lsda := 0\<rparr>"
  shows "dwarf_extract_proc_info_from_fde fuel m False 0 (fde, pi, pool) =
      ret () (fde + 4 + ucast fde_len, pi', pool) \<and>
    dwarf_extract_proc_info_from_fde fuel m True 0 (fde, pi, pool) =
      ret () (fde + 4 + ucast fde_len, pi'\<lparr>pi_format := UNW_INFO_FORMAT_TABLE,
        pi_unwind_info_size := CIE_INFO_SIZE,
        pi_unwind_info := UI_cie obj (gcc_cie_info cie cie_len fde fde_len)\<rparr>, pool')"
  using gcc_fde_decoded [OF assms(1-3)] gcc_fde_decoded_unwind [OF assms(1-5)] assms(6,7) by simp

text \<open>A section with one CIE and one FDE, for a function of 64 bytes.\<close>

definition gcc_bytes :: "u8 list" where
  "gcc_bytes =
     [0x14, 0, 0, 0, 0, 0, 0, 0, 1, 0x7a, 0x52, 0, 1, 0x78, 0x10, 1, 0x1b, 0x0c, 7, 8, 0x90, 1, 0, 0,
      0x14, 0, 0, 0, 0x1c, 0, 0, 0, 0, 1, 0, 0, 0x40, 0, 0, 0, 0, 0, 0, 0, 0, 0, 0, 0]"

definition gcc_mem :: memory where
  "gcc_mem x = (let i = unat (x - 0x1000) in if i < length gcc_bytes then gcc_bytes ! i else 0)"

lemma gcc_mem_cie: "gcc_cie_at gcc_mem 0x1000 0x14"
  by code_simp

lemma gcc_mem_fde: "gcc_fde_at gcc_mem 0x1018 0x1000 0x14 0x100 0x40"
  by code_simp

lemma pool0_alloc: "\<exists>obj pool. pool_alloc (env0, pool0) = Ok (obj, pool) \<and> obj \<noteq> 0"
proof -
  have "is_Ok (mempool_alloc env0 pool0)"
    by (rule mempool_alloc_returns [OF pool0_inv]) (simp_all add: env0_def pool0_def)
  then obtain x p where a: "pool_alloc (env0, pool0) = Ok (x, p)" by (auto simp: is_Ok_def pool_alloc_def)
  with mp.alloc_law [OF pool0_inv a] owned_nonzero show ?thesis by (auto simp: pool_owns_def)
qed

theorem gcc_fde_extracted_witness:
  "\<exists>obj pool'. dwarf_extract_proc_info_from_fde 3 gcc_mem True 0 (0x1018, zero_proc_info, (env0, pool0)) =
     ret () (0x1030, zero_proc_info\<lparr>start_ip := 0x1120, end_ip := 0x1160, pi_handler := 0, pi_lsda := 0,
       pi_format := UNW_INFO_FORMAT_TABLE, pi_unwind_info_size := CIE_INFO_SIZE,
       pi_unwind_info := UI_cie obj (gcc_cie_info 0x1000 0x14 0x1018 0x14)\<rparr>, pool')"
proof -
  obtain obj pool' where p: "pool_alloc (env0, pool0) = Ok (obj, pool')" "obj \<noteq> 0" using pool0_alloc by blast
  have "dwarf_extract_proc_info_from_fde 3 gcc_mem True 0 (0x1018, zero_proc_info, (env0, pool0)) =
     ret () (0x1030, zero_proc_info\<lparr>start_ip := 0x1120, end_ip := 0x1160, pi_handler := 0, pi_lsda := 0,
       pi_format := UNW_INFO_FORMAT_TABLE, pi_unwind_info_size := CIE_INFO_SIZE,
       pi_unwind_info := UI_cie obj (gcc_cie_info 0x1000 0x14 0x1018 0x14)\<rparr>, pool')"
    using gcc_fde_extracted [OF gcc_mem_cie gcc_mem_fde _ p refl refl, of 3 zero_proc_info] by simp
  then show ?thesis by blast
qed

end
