(* ===== verification/Dyn_Info.thy ===== *)
theory Dyn_Info
  imports Dwarf_Types
begin

text \<open>
  Dynamically registered unwind information: \<open>unw_dyn_info_t\<close> of \<^verbatim>\<open>include/libunwind-dynamic.h\<close>, the
  registration list of \<^verbatim>\<open>dyn-register.c\<close> and \<^verbatim>\<open>dyn-cancel.c\<close>, and the walk over the list in
  \<^verbatim>\<open>Gfind_dynamic_proc_info.c\<close>. The structures belong to the callers and are linked in place, so
  the state holds them by address; a pointer without a structure is undefined to dereference. The
  members of the union \<open>u\<close> are separate fields, of which the code reads those of the format. The
  mutex makes each operation one step.
\<close>

section \<open>The list\<close>

record unw_dyn_info_t =
  di_next :: addr
  di_prev :: addr
  di_start_ip :: u64
  di_end_ip :: u64
  di_gp :: u64
  di_format :: unw_dyn_info_format_t
  di_handler :: u64
  di_flags :: u32
  di_name_ptr :: u64
  di_segbase :: u64
  di_table_len :: u64
  di_table_data :: u64

text \<open>\<open>_U_dyn_info_list\<close> and the structures that pointers may refer to.\<close>

record dyn_state =
  ds_generation :: u32
  ds_first :: addr
  ds_infos :: "addr \<Rightarrow> unw_dyn_info_t option"

definition di_get :: "dyn_state \<Rightarrow> addr \<Rightarrow> unw_dyn_info_t outcome" where
  "di_get s p = (case ds_infos s p of None \<Rightarrow> UB | Some d \<Rightarrow> Ok d)"

definition di_set :: "addr \<Rightarrow> (unw_dyn_info_t \<Rightarrow> unw_dyn_info_t) \<Rightarrow> dyn_state \<Rightarrow> dyn_state outcome" where
  "di_set p f s = obind (di_get s p) (\<lambda>d. Ok (s\<lparr>ds_infos := (ds_infos s)(p \<mapsto> f d)\<rparr>))"

definition U_dyn_register :: "addr \<Rightarrow> dyn_state \<Rightarrow> dyn_state outcome" where
  "U_dyn_register di s =
     (let s = s\<lparr>ds_generation := ds_generation s + 1\<rparr> in
      obind (di_set di (\<lambda>d. d\<lparr>di_next := ds_first s\<rparr>) s) (\<lambda>s.
      obind (di_set di (\<lambda>d. d\<lparr>di_prev := 0\<rparr>) s) (\<lambda>s.
      obind (di_get s di) (\<lambda>d.
      obind (if di_next d \<noteq> 0 then di_set (di_next d) (\<lambda>e. e\<lparr>di_prev := di\<rparr>) s else Ok s) (\<lambda>s.
      Ok (s\<lparr>ds_first := di\<rparr>))))))"

definition U_dyn_cancel :: "addr \<Rightarrow> dyn_state \<Rightarrow> dyn_state outcome" where
  "U_dyn_cancel di s =
     (let s = s\<lparr>ds_generation := ds_generation s + 1\<rparr> in
      obind (di_get s di) (\<lambda>d.
      obind (if di_prev d \<noteq> 0 then di_set (di_prev d) (\<lambda>e. e\<lparr>di_next := di_next d\<rparr>) s
             else Ok (s\<lparr>ds_first := di_next d\<rparr>)) (\<lambda>s.
      obind (di_get s di) (\<lambda>d.
      obind (if di_next d \<noteq> 0 then di_set (di_next d) (\<lambda>e. e\<lparr>di_prev := di_prev d\<rparr>) s else Ok s) (\<lambda>s.
      di_set di (\<lambda>d. d\<lparr>di_next := 0, di_prev := 0\<rparr>) s)))))"

text \<open>The loop of \<open>local_find_proc_info\<close>: the first structure of the list that covers \<open>ip\<close>.\<close>

fun dyn_lookup :: "nat \<Rightarrow> dyn_state \<Rightarrow> addr \<Rightarrow> u64 \<Rightarrow> (addr \<times> unw_dyn_info_t) option outcome" where
  "dyn_lookup fuel s p ip =
     (if p = 0 then Ok None
      else case fuel of
        0 \<Rightarrow> Diverge
      | Suc fuel \<Rightarrow>
          obind (di_get s p) (\<lambda>d.
          if di_start_ip d \<le> ip \<and> ip < di_end_ip d then Ok (Some (p, d))
          else dyn_lookup fuel s (di_next d) ip))"

declare dyn_lookup.simps [simp del]

section \<open>The registry contract\<close>

text \<open>
  What the rest of the library relies on: registering puts a structure in front of those already
  registered, cancelling takes it out, and neither changes what a structure describes.
\<close>

locale registry =
  fixes register :: "'k \<Rightarrow> 's \<Rightarrow> 's outcome"
    and cancel :: "'k \<Rightarrow> 's \<Rightarrow> 's outcome"
    and holds :: "'s \<Rightarrow> 'k list \<Rightarrow> bool"
    and describes :: "'s \<Rightarrow> 'k \<Rightarrow> 'd option"
  assumes register_law: "holds s xs \<Longrightarrow> x \<notin> set xs \<Longrightarrow> describes s x \<noteq> None \<Longrightarrow>
      \<exists>s'. register x s = Ok s' \<and> holds s' (x # xs) \<and> describes s' = describes s"
    and cancel_law: "holds s xs \<Longrightarrow> x \<in> set xs \<Longrightarrow>
      \<exists>s'. cancel x s = Ok s' \<and> holds s' (remove1 x xs) \<and> describes s' = describes s"
begin

text \<open>A history: \<open>Inl x\<close> registers \<open>x\<close> and \<open>Inr x\<close> cancels it.\<close>

primrec run :: "('k + 'k) list \<Rightarrow> 's \<Rightarrow> 's outcome" where
  "run [] s = Ok s"
| "run (c # cs) s = obind (case c of Inl x \<Rightarrow> register x s | Inr x \<Rightarrow> cancel x s) (run cs)"

primrec proper :: "('k + 'k) list \<Rightarrow> 's \<Rightarrow> 'k list \<Rightarrow> bool" where
  "proper [] s xs = True"
| "proper (c # cs) s xs = (case c of
      Inl x \<Rightarrow> x \<notin> set xs \<and> describes s x \<noteq> None \<and> proper cs s (x # xs)
    | Inr x \<Rightarrow> x \<in> set xs \<and> proper cs s (remove1 x xs))"

primrec registered :: "('k + 'k) list \<Rightarrow> 'k list \<Rightarrow> 'k list" where
  "registered [] xs = xs"
| "registered (c # cs) xs = registered cs (case c of Inl x \<Rightarrow> x # xs | Inr x \<Rightarrow> remove1 x xs)"

lemma proper_describes: "describes s' = describes s \<Longrightarrow> proper cs s' xs = proper cs s xs"
  by (induction cs arbitrary: xs) (auto split: sum.splits)

lemma run_holds:
  "holds s xs \<Longrightarrow> proper cs s xs \<Longrightarrow>
   \<exists>s'. run cs s = Ok s' \<and> holds s' (registered cs xs) \<and> describes s' = describes s"
proof (induction cs arbitrary: s xs)
  case (Cons c cs)
  obtain s1 where s1: "(case c of Inl x \<Rightarrow> register x s | Inr x \<Rightarrow> cancel x s) = Ok s1"
    "holds s1 (case c of Inl x \<Rightarrow> x # xs | Inr x \<Rightarrow> remove1 x xs)" "describes s1 = describes s"
    using Cons.prems register_law [of s xs] cancel_law [of s xs] by (cases c) fastforce+
  moreover have "proper cs s1 (case c of Inl x \<Rightarrow> x # xs | Inr x \<Rightarrow> remove1 x xs)"
    using Cons.prems(2) by (cases c) (simp_all add: proper_describes [OF s1(3)])
  ultimately show ?case using Cons.IH [of s1] by auto
qed simp

end

section \<open>The doubly linked list\<close>

primrec dll :: "(addr \<Rightarrow> unw_dyn_info_t option) \<Rightarrow> addr \<Rightarrow> addr \<Rightarrow> addr list \<Rightarrow> bool" where
  "dll h prev p [] = (p = 0)"
| "dll h prev p (x # xs) =
     (p = x \<and> x \<noteq> 0 \<and> (\<exists>d. h x = Some d \<and> di_prev d = prev \<and> dll h x (di_next d) xs))"

definition dyn_list :: "dyn_state \<Rightarrow> addr list \<Rightarrow> bool" where
  "dyn_list s xs = (dll (ds_infos s) 0 (ds_first s) xs \<and> distinct xs \<and> ds_infos s 0 = None)"

text \<open>What a structure describes: everything but its links.\<close>

definition dyn_describes :: "dyn_state \<Rightarrow> addr \<Rightarrow> unw_dyn_info_t option" where
  "dyn_describes s p = map_option (\<lambda>d. d\<lparr>di_next := 0, di_prev := 0\<rparr>) (ds_infos s p)"

lemma dll_upd [simp]: "x \<notin> set xs \<Longrightarrow> dll (h(x := v)) prev p xs = dll h prev p xs"
  by (induction xs arbitrary: prev p) auto

lemma dll_nonzero: "dll h prev p xs \<Longrightarrow> 0 \<notin> set xs"
  by (induction xs arbitrary: prev p) auto

lemma dll_mapped: "dll h prev p xs \<Longrightarrow> x \<in> set xs \<Longrightarrow> \<exists>d. h x = Some d"
  by (induction xs arbitrary: prev p) auto

text \<open>The last element of a prefix, which the next element points back to.\<close>

definition end_of :: "addr \<Rightarrow> addr list \<Rightarrow> addr" where
  "end_of prev xs = (if xs = [] then prev else last xs)"

text \<open>A segment of the list: it starts at \<open>p\<close> and its last element points to \<open>q\<close>.\<close>

primrec seg :: "(addr \<Rightarrow> unw_dyn_info_t option) \<Rightarrow> addr \<Rightarrow> addr \<Rightarrow> addr list \<Rightarrow> addr \<Rightarrow> bool" where
  "seg h prev p [] q = (p = q)"
| "seg h prev p (x # xs) q =
     (p = x \<and> x \<noteq> 0 \<and> (\<exists>d. h x = Some d \<and> di_prev d = prev \<and> seg h x (di_next d) xs q))"

lemma dll_append:
  "dll h prev p (xs @ ys) \<longleftrightarrow> (\<exists>q. seg h prev p xs q \<and> dll h (end_of prev xs) q ys)"
  by (induction xs arbitrary: prev p) (auto simp: end_of_def)

lemma seg_upd [simp]: "x \<notin> set xs \<Longrightarrow> seg (h(x := v)) prev p xs q = seg h prev p xs q"
  by (induction xs arbitrary: prev p) auto

lemma seg_end:
  assumes "seg h prev p xs q" "xs \<noteq> []" "distinct xs"
  shows "seg (h(last xs \<mapsto> (the (h (last xs)))\<lparr>di_next := q'\<rparr>)) prev p xs q'"
  using assms
proof (induction xs arbitrary: prev p)
  case (Cons x xs)
  then obtain d where d: "h x = Some d" "di_prev d = prev" "seg h x (di_next d) xs q" "p = x" "x \<noteq> 0" by auto
  show ?case
  proof (cases "xs = []")
    case True
    with d show ?thesis by simp
  next
    case False
    then have "last xs \<noteq> x" using Cons.prems(3) by auto
    with Cons.IH [OF d(3) False] Cons.prems(3) d False show ?thesis by auto
  qed
qed simp

lemma register_ok:
  assumes "dyn_list s xs" "x \<notin> set xs" "dyn_describes s x \<noteq> None"
  shows "\<exists>s'. U_dyn_register x s = Ok s' \<and> dyn_list s' (x # xs) \<and> dyn_describes s' = dyn_describes s"
proof -
  obtain d where d: "ds_infos s x = Some d" using assms(3) by (auto simp: dyn_describes_def)
  have x: "x \<noteq> 0" using assms(1) d by (auto simp: dyn_list_def)
  let ?h = "(ds_infos s)(x \<mapsto> d\<lparr>di_next := ds_first s, di_prev := 0\<rparr>)"
  show ?thesis
  proof (cases xs)
    case Nil
    then have "ds_first s = 0" using assms(1) by (simp add: dyn_list_def)
    then have "U_dyn_register x s =
        Ok (s\<lparr>ds_generation := ds_generation s + 1, ds_infos := ?h, ds_first := x\<rparr>)"
      using d by (simp add: U_dyn_register_def di_set_def di_get_def)
    then show ?thesis using Nil x d assms(1) \<open>ds_first s = 0\<close>
      by (auto simp: dyn_list_def dyn_describes_def)
  next
    case (Cons y ys)
    then obtain e where e: "ds_first s = y" "y \<noteq> 0" "ds_infos s y = Some e" "di_prev e = 0"
      "dll (ds_infos s) y (di_next e) ys" using assms(1) by (auto simp: dyn_list_def)
    have xy: "x \<noteq> y" "x \<notin> set ys" "y \<notin> set ys" using assms(1,2) Cons by (auto simp: dyn_list_def)
    let ?h' = "?h(y \<mapsto> e\<lparr>di_prev := x\<rparr>)"
    have "U_dyn_register x s =
        Ok (s\<lparr>ds_generation := ds_generation s + 1, ds_infos := ?h', ds_first := x\<rparr>)"
      using d e xy by (simp add: U_dyn_register_def di_set_def di_get_def)
    moreover have "dll ?h' 0 x (x # xs)" using Cons x e xy by simp
    ultimately show ?thesis using d e xy x assms(1,2) Cons
      by (auto simp: dyn_list_def dyn_describes_def)
  qed
qed

lemma dll_prev: "dll h prev p (x # xs) \<Longrightarrow> x \<notin> set xs \<Longrightarrow> dll (h(x \<mapsto> (the (h x))\<lparr>di_prev := q\<rparr>)) q p (x # xs)"
  by auto

text \<open>The two stores that unlink \<open>x\<close>, with the structures of the list before and behind it.\<close>

definition unlink_front :: "addr \<Rightarrow> dyn_state \<Rightarrow> dyn_state outcome" where
  "unlink_front x s = obind (di_get s x) (\<lambda>d.
     if di_prev d \<noteq> 0 then di_set (di_prev d) (\<lambda>e. e\<lparr>di_next := di_next d\<rparr>) s
     else Ok (s\<lparr>ds_first := di_next d\<rparr>))"

definition unlink_back :: "addr \<Rightarrow> dyn_state \<Rightarrow> dyn_state outcome" where
  "unlink_back x s = obind (di_get s x) (\<lambda>d.
     if di_next d \<noteq> 0 then di_set (di_next d) (\<lambda>e. e\<lparr>di_prev := di_prev d\<rparr>) s else Ok s)"

lemma U_dyn_cancel_unlink:
  "U_dyn_cancel x s = obind (unlink_front x (s\<lparr>ds_generation := ds_generation s + 1\<rparr>)) (\<lambda>s.
     obind (unlink_back x s) (\<lambda>s. di_set x (\<lambda>d. d\<lparr>di_next := 0, di_prev := 0\<rparr>) s))"
  by (simp add: U_dyn_cancel_def unlink_front_def unlink_back_def obind_assoc Let_def)

text \<open>\<open>x\<close> lies between \<open>as\<close> and \<open>bs\<close>; \<open>as\<close> is linked to \<open>q\<close> and \<open>bs\<close> back to \<open>prev\<close>.\<close>

definition around :: "dyn_state \<Rightarrow> addr list \<Rightarrow> addr \<Rightarrow> addr list \<Rightarrow> addr \<Rightarrow> addr \<Rightarrow> bool" where
  "around s as x bs q prev = (\<exists>d. seg (ds_infos s) 0 (ds_first s) as q \<and> ds_infos s x = Some d \<and>
     di_prev d = end_of 0 as \<and> dll (ds_infos s) prev (di_next d) bs \<and>
     x \<noteq> 0 \<and> 0 \<notin> set as \<and> distinct (as @ x # bs) \<and> ds_infos s 0 = None)"

lemma seg_mapped: "seg h prev p xs q \<Longrightarrow> x \<in> set xs \<Longrightarrow> \<exists>d. h x = Some d"
  by (induction xs arbitrary: prev p) auto

lemma unlink_front_ok:
  assumes "around s as x bs q prev"
  shows "\<exists>s' d. unlink_front x s = Ok s' \<and> around s' as x bs (di_next d) prev \<and> ds_infos s' x = Some d \<and>
    dyn_describes s' = dyn_describes s"
proof -
  obtain d where d: "ds_infos s x = Some d" "di_prev d = end_of 0 as" using assms by (auto simp: around_def)
  show ?thesis
  proof (cases "as = []")
    case True
    then show ?thesis using assms d
      by (auto simp: around_def unlink_front_def di_get_def end_of_def dyn_describes_def)
  next
    case False
    then have l: "last as \<in> set as" by simp
    with assms obtain e where e: "ds_infos s (last as) = Some e" by (auto simp: around_def dest: seg_mapped)
    have ne: "last as \<noteq> 0" "last as \<noteq> x" "last as \<notin> set bs" "distinct as"
      using assms l by (auto simp: around_def)
    have sg: "seg (ds_infos s) 0 (ds_first s) as q" using assms by (auto simp: around_def)
    let ?s = "s\<lparr>ds_infos := (ds_infos s)(last as \<mapsto> e\<lparr>di_next := di_next d\<rparr>)\<rparr>"
    have "unlink_front x s = Ok ?s"
      using False d e ne by (simp add: unlink_front_def di_get_def di_set_def end_of_def)
    moreover have "around ?s as x bs (di_next d) prev"
      using assms seg_end [OF sg False ne(4), of "di_next d"] ne e d by (auto simp: around_def)
    moreover have "dyn_describes ?s = dyn_describes s" using e by (auto simp: dyn_describes_def fun_eq_iff)
    ultimately show ?thesis using ne d by (intro exI [of _ ?s] exI [of _ d]) auto
  qed
qed

lemma unlink_back_ok:
  assumes "around s as x bs (di_next d) prev" "ds_infos s x = Some d"
  shows "\<exists>s'. unlink_back x s = Ok s' \<and> around s' as x bs (di_next d) (end_of 0 as) \<and>
    ds_infos s' x = Some d \<and> dyn_describes s' = dyn_describes s"
proof (cases bs)
  case Nil
  then show ?thesis using assms by (auto simp: around_def unlink_back_def di_get_def)
next
  case (Cons b bs')
  then obtain e where e: "ds_infos s b = Some e" "di_next d = b" "b \<noteq> 0" "b \<noteq> x" "b \<notin> set as" "b \<notin> set bs'"
    using assms by (auto simp: around_def)
  let ?s = "s\<lparr>ds_infos := (ds_infos s)(b \<mapsto> e\<lparr>di_prev := end_of 0 as\<rparr>)\<rparr>"
  have "unlink_back x s = Ok ?s"
    using assms e by (auto simp: unlink_back_def di_get_def di_set_def around_def)
  moreover have "around ?s as x bs (di_next d) (end_of 0 as)"
    using assms e Cons by (auto simp: around_def)
  moreover have "dyn_describes ?s = dyn_describes s" using e by (auto simp: dyn_describes_def fun_eq_iff)
  ultimately show ?thesis using assms(2) e by auto
qed

lemma cancel_ok:
  assumes "dyn_list s xs" "x \<in> set xs"
  shows "\<exists>s'. U_dyn_cancel x s = Ok s' \<and> dyn_list s' (remove1 x xs) \<and> dyn_describes s' = dyn_describes s"
proof -
  let ?s = "s\<lparr>ds_generation := ds_generation s + 1\<rparr>"
  obtain as bs where xs: "xs = as @ x # bs" using assms(2) by (auto simp: in_set_conv_decomp)
  have "around ?s as x bs x x"
    using assms(1) dll_nonzero [of "ds_infos s" 0 "ds_first s" xs]
    by (auto simp: xs around_def dyn_list_def dll_append)
  from unlink_front_ok [OF this] obtain s1 d where s1: "unlink_front x ?s = Ok s1"
    "around s1 as x bs (di_next d) x" "ds_infos s1 x = Some d" "dyn_describes s1 = dyn_describes ?s" by blast
  from unlink_back_ok [OF s1(2,3)] obtain s2 where s2: "unlink_back x s1 = Ok s2"
    "around s2 as x bs (di_next d) (end_of 0 as)" "ds_infos s2 x = Some d" "dyn_describes s2 = dyn_describes s1"
    by blast
  let ?s' = "s2\<lparr>ds_infos := (ds_infos s2)(x \<mapsto> d\<lparr>di_next := 0, di_prev := 0\<rparr>)\<rparr>"
  have "U_dyn_cancel x s = Ok ?s'"
    using s1(1) s2(1,3) by (simp add: U_dyn_cancel_unlink di_set_def di_get_def)
  moreover have "dyn_list ?s' (remove1 x xs)"
    using s2(2,3) by (auto simp: xs around_def dyn_list_def dll_append remove1_append)
  moreover have "dyn_describes ?s' = dyn_describes s"
  proof -
    have "dyn_describes ?s' = dyn_describes s2" using s2(3) by (auto simp: dyn_describes_def fun_eq_iff)
    then show ?thesis by (simp add: s2(4) s1(4)) (simp add: dyn_describes_def fun_eq_iff)
  qed
  ultimately show ?thesis by blast
qed

interpretation dy: registry U_dyn_register U_dyn_cancel dyn_list dyn_describes
  by unfold_locales (simp_all add: register_ok cancel_ok)

section \<open>Lookup\<close>

definition covers :: "dyn_state \<Rightarrow> u64 \<Rightarrow> addr \<Rightarrow> bool" where
  "covers s ip p = (case dyn_describes s p of None \<Rightarrow> False | Some d \<Rightarrow> di_start_ip d \<le> ip \<and> ip < di_end_ip d)"

lemma dyn_lookup_dll:
  assumes "dll (ds_infos s) prev p xs" "length xs \<le> fuel"
  shows "dyn_lookup fuel s p ip = Ok (case find (covers s ip) xs of None \<Rightarrow> None
    | Some q \<Rightarrow> Some (q, the (ds_infos s q)))"
  using assms
proof (induction xs arbitrary: prev p fuel)
  case Nil
  then show ?case by (simp add: dyn_lookup.simps [of fuel])
next
  case (Cons x xs)
  then obtain d f where d: "p = x" "x \<noteq> 0" "ds_infos s x = Some d" "dll (ds_infos s) x (di_next d) xs"
    "fuel = Suc f" "length xs \<le> f" by (auto simp: Suc_le_length_iff dest: Suc_le_D)
  have "covers s ip x \<longleftrightarrow> di_start_ip d \<le> ip \<and> ip < di_end_ip d"
    using d(3) by (simp add: covers_def dyn_describes_def)
  with d Cons.IH [OF d(4,6)] show ?case by (simp add: dyn_lookup.simps [of "Suc f"] di_get_def)
qed

text \<open>Histories of registrations and cancellations.\<close>

primrec dyn_run :: "(addr + addr) list \<Rightarrow> dyn_state \<Rightarrow> dyn_state outcome" where
  "dyn_run [] s = Ok s"
| "dyn_run (c # cs) s = obind (case c of Inl x \<Rightarrow> U_dyn_register x s | Inr x \<Rightarrow> U_dyn_cancel x s) (dyn_run cs)"

primrec dyn_proper :: "(addr + addr) list \<Rightarrow> dyn_state \<Rightarrow> addr list \<Rightarrow> bool" where
  "dyn_proper [] s xs = True"
| "dyn_proper (c # cs) s xs = (case c of
      Inl x \<Rightarrow> x \<notin> set xs \<and> ds_infos s x \<noteq> None \<and> dyn_proper cs s (x # xs)
    | Inr x \<Rightarrow> x \<in> set xs \<and> dyn_proper cs s (remove1 x xs))"

primrec dyn_registered :: "(addr + addr) list \<Rightarrow> addr list \<Rightarrow> addr list" where
  "dyn_registered [] xs = xs"
| "dyn_registered (c # cs) xs = dyn_registered cs (case c of Inl x \<Rightarrow> x # xs | Inr x \<Rightarrow> remove1 x xs)"

lemma dyn_run_eq: "dyn_run cs s = dy.run cs s"
proof -
  have "dyn_run cs = dy.run cs" by (induction cs) (rule ext, simp)+
  then show ?thesis by simp
qed

lemma dyn_proper_eq: "dyn_proper cs s xs = dy.proper cs s xs"
  by (induction cs arbitrary: xs) (auto simp: dyn_describes_def split: sum.splits)

lemma dyn_registered_eq: "dyn_registered cs xs = dy.registered cs xs"
  by (induction cs arbitrary: xs) simp_all

text \<open>C17: the registration list is a well-formed doubly linked list after every history of
  registrations and cancellations (each structure registered while it is not in the list and
  cancelled while it is): no operation follows a dangling pointer, the list holds exactly the
  structures registered and not cancelled, most recent first, and a lookup ends and returns the most
  recently registered structure whose range contains the address.\<close>

theorem dyn_history_lookup:
  assumes "dyn_list s xs" "dyn_proper cs s xs" "length (dyn_registered cs xs) \<le> fuel"
  shows "\<exists>s'. dyn_run cs s = Ok s' \<and> dyn_list s' (dyn_registered cs xs) \<and>
    (\<forall>p. dyn_describes s' p = dyn_describes s p) \<and>
    map_option fst (case dyn_lookup fuel s' (ds_first s') ip of Ok r \<Rightarrow> r | _ \<Rightarrow> None) =
      find (covers s ip) (dyn_registered cs xs) \<and>
    is_Ok (dyn_lookup fuel s' (ds_first s') ip)"
proof -
  obtain s' where s': "dyn_run cs s = Ok s'" "dyn_list s' (dyn_registered cs xs)" "dyn_describes s' = dyn_describes s"
    using dy.run_holds [OF assms(1)] assms(2) by (auto simp: dyn_run_eq dyn_proper_eq dyn_registered_eq)
  have "covers s' ip = covers s ip" by (simp add: covers_def fun_eq_iff s'(3))
  with dyn_lookup_dll [of s' 0 "ds_first s'" "dyn_registered cs xs" fuel ip] s'(2) assms(3)
  have "dyn_lookup fuel s' (ds_first s') ip = Ok (case find (covers s ip) (dyn_registered cs xs) of
      None \<Rightarrow> None | Some q \<Rightarrow> Some (q, the (ds_infos s' q)))" by (simp add: dyn_list_def)
  with s' show ?thesis by (intro exI [of _ s']) (auto simp: is_Ok_def split: option.splits)
qed

text \<open>Two structures, for the code at 0x100 to 0x200 and 0x180 to 0x300.\<close>

definition di0 :: unw_dyn_info_t where
  "di0 = \<lparr>di_next = 0, di_prev = 0, di_start_ip = 0x100, di_end_ip = 0x200, di_gp = 0,
     di_format = UNW_INFO_FORMAT_DYNAMIC, di_handler = 0, di_flags = 0, di_name_ptr = 0, di_segbase = 0,
     di_table_len = 0, di_table_data = 0\<rparr>"

definition dyn0 :: dyn_state where
  "dyn0 = \<lparr>ds_generation = 0, ds_first = 0, ds_infos = [0x10 \<mapsto> di0, 0x20 \<mapsto> di0\<lparr>di_start_ip := 0x180, di_end_ip := 0x300\<rparr>]\<rparr>"

theorem dyn_history_lookup_witness:
  "\<exists>s'. dyn_run [Inl 0x10, Inl 0x20, Inr 0x10] dyn0 = Ok s' \<and> dyn_list s' [0x20] \<and>
     is_Ok (dyn_lookup 1 s' (ds_first s') 0x190)"
proof -
  have "dyn_list dyn0 []" "dyn_proper [Inl 0x10, Inl 0x20, Inr 0x10] dyn0 []"
    "length (dyn_registered [Inl 0x10, Inl 0x20, Inr 0x10] []) \<le> 1"
    "dyn_registered [Inl 0x10, Inl 0x20, Inr 0x10] [] = [0x20]"
    by (simp_all add: dyn_list_def dyn0_def)
  with dyn_history_lookup [of dyn0 "[]" "[Inl 0x10, Inl 0x20, Inr 0x10]" 1 "0x190"] show ?thesis by metis
qed

end
