(* ===== verification/Proc_Search.thy ===== *)
theory Proc_Search
  imports Dwarf_FDE Dyn_Info
begin

text \<open>
  Finding the procedure information for an instruction pointer: \<^verbatim>\<open>Gfind_proc_info-lsb.c\<close> (the
  search of the \<open>.eh_frame\<close> sections of the loaded kernel modules and of binary search tables),
  \<^verbatim>\<open>Gdyn-extract.c\<close> and \<^verbatim>\<open>Gfind_dynamic_proc_info.c\<close> (the dynamically registered
  procedures) and \<^verbatim>\<open>Gget_proc_info_by_ip.c\<close>.

  The kernel linker is not part of the library. Its three functions are arguments of the model:
  \<open>lk_search_symbol\<close> is \<open>linker_ddb_search_symbol\<close>, \<open>lk_symbol_values\<close> is \<open>linker_ddb_symbol_values\<close>
  (both \<open>None\<close> for a non-zero return) and \<open>lk_foreach\<close> is \<open>linker_file_foreach\<close>.
\<close>

section \<open>Loaded files\<close>

record Elf_progent =
  pe_addr :: addr
  pe_size :: u64
  pe_name :: "string option"

record linker_file =
  lf_filename :: "string option"
  lf_address :: addr
  lf_size :: u64
  lf_progtab :: "Elf_progent list"

record linker_symval =
  sv_name :: addr
  sv_value :: addr
  sv_size :: u64

text \<open>
  \<open>struct dwarf_callback_data\<close> without its inputs. \<open>di.format\<close> and \<open>di_debug.format\<close> start as -1:
  \<open>None\<close> is a \<open>di\<close> whose format is still -1.
\<close>

record cb_state =
  cb_single_fde :: bool
  cb_di :: "unw_dyn_info_t option"
  cb_di_debug :: "unw_dyn_info_t option"
  cb_pi :: unw_proc_info_t
  cb_pool :: pool_state

record linker =
  lk_search_symbol :: "addr \<Rightarrow> u64 option"
  lk_symbol_values :: "u64 \<Rightarrow> linker_symval option"
  lk_foreach ::
    "(linker_file \<Rightarrow> cb_state \<Rightarrow> (int \<times> cb_state) outcome) \<Rightarrow> cb_state \<Rightarrow> (int \<times> cb_state) outcome"

section \<open>Linear search\<close>

text \<open>
  \<open>n\<close> is what is left of \<open>fde_count\<close>, which bounds the loop. \<open>Ret ()\<close> is the return value 1. The
  address that the callee advances is the local variable \<open>addr\<close>.
\<close>

fun linear_search ::
  "nat \<Rightarrow> memory \<Rightarrow> u64 \<Rightarrow> addr \<Rightarrow> bool \<Rightarrow> nat \<Rightarrow> fde_state \<Rightarrow> (fde_state, unit) call" where
  "linear_search fuel m ip eh_frame_end need_unwind_info 0 s = throw UNW_ENOINFO s"
| "linear_search fuel m ip eh_frame_end need_unwind_info (Suc n) s =
     (if \<not> fst s < eh_frame_end then throw UNW_ENOINFO s
      else
        obind (dwarf_extract_proc_info_from_fde fuel m False 0 s) (\<lambda>(r, s').
        case r of
          Err e \<Rightarrow> linear_search fuel m ip eh_frame_end need_unwind_info n s'
        | Ret _ \<Rightarrow>
            (let (addr', pi, pool) = s' in
             if start_ip pi \<le> ip \<and> ip < end_ip pi then
               if need_unwind_info
               then dwarf_extract_proc_info_from_fde fuel m True 0 (fst s, pi, pool)
               else ret () s'
             else linear_search fuel m ip eh_frame_end need_unwind_info n s')))"

section \<open>The section of a file\<close>

fun strings_equal_loop :: "string \<Rightarrow> string \<Rightarrow> bool" where
  "strings_equal_loop (x # xs) (y # ys) = (if x = y then strings_equal_loop xs ys else False)"
| "strings_equal_loop [] [] = True"
| "strings_equal_loop _ _ = False"

text \<open>A \<open>char *\<close> is NULL or a string; equal pointers are equal strings.\<close>

definition strings_equal :: "string option \<Rightarrow> string option \<Rightarrow> bool" where
  "strings_equal str1 str2 =
     (case (str1, str2) of
        (None, None) \<Rightarrow> True
      | (Some s1, Some s2) \<Rightarrow> strings_equal_loop s1 s2
      | _ \<Rightarrow> False)"

definition find_eh_frame_section :: "linker_file \<Rightarrow> Elf_progent option" where
  "find_eh_frame_section file =
     (if strings_equal (Some ''kernel'') (lf_filename file) then None
      else find (\<lambda>p. strings_equal (pe_name p) (Some ''.eh_frame'')) (lf_progtab file))"

section \<open>The callback\<close>

definition zero_dyn_info :: unw_dyn_info_t where
  "zero_dyn_info = \<lparr>di_next = 0, di_prev = 0, di_start_ip = 0, di_end_ip = 0, di_gp = 0,
     di_format = UNW_INFO_FORMAT_DYNAMIC, di_handler = 0, di_flags = 0, di_name_ptr = 0, di_segbase = 0,
     di_table_len = 0, di_table_data = 0\<rparr>"

definition dwarf_callback ::
  "nat \<Rightarrow> linker \<Rightarrow> memory \<Rightarrow> u64 \<Rightarrow> bool \<Rightarrow> linker_file \<Rightarrow> cb_state \<Rightarrow> (int \<times> cb_state) outcome" where
  "dwarf_callback fuel lk m ip need_unwind_info file cb =
     (if ip < lf_address file \<or> lf_address file + lf_size file < ip then Ok (0, cb)
      else case Option.bind (lk_search_symbol lk ip) (lk_symbol_values lk) of
        None \<Rightarrow> Ok (0, cb)
      | Some values \<Rightarrow>
          (let cb = cb\<lparr>cb_pi := (cb_pi cb)\<lparr>pi_gp := 0\<rparr>\<rparr> in
           case find_eh_frame_section file of
             None \<Rightarrow> Ok (0, cb)
           | Some section \<Rightarrow>
               (let eh_frame_start = pe_addr section; eh_frame_end = pe_addr section + pe_size section;
                    fde_count = unat (eh_frame_end - eh_frame_start) div 8;
                    pi = (cb_pi cb)\<lparr>pi_format := UNW_INFO_FORMAT_TABLE\<rparr>;
                    di = (case cb_di cb of None \<Rightarrow> zero_dyn_info | Some di \<Rightarrow> di)\<lparr>di_gp := 0,
                      di_format := UNW_INFO_FORMAT_TABLE, di_start_ip := sv_value values,
                      di_end_ip := sv_value values + sv_size values, di_name_ptr := sv_name values\<rparr> in
                obind (linear_search fuel m ip eh_frame_end need_unwind_info fde_count
                         (eh_frame_start, pi, cb_pool cb)) (\<lambda>(r, _, pi, pool).
                Ok (case r of Ret _ \<Rightarrow> 1 | Err _ \<Rightarrow> 0,
                    cb\<lparr>cb_single_fde := True, cb_di := Some di, cb_pi := pi, cb_pool := pool\<rparr>)))))"

section \<open>Binary search tables\<close>

text \<open>A \<open>struct table_entry\<close>: two signed 32-bit offsets.\<close>

definition entry_start_ip_offset :: "memory \<Rightarrow> addr \<Rightarrow> nat \<Rightarrow> u32" where
  "entry_start_ip_offset m table i = ucast (mem_le m 4 (table + 8 * word_of_nat i))"

definition entry_fde_offset :: "memory \<Rightarrow> addr \<Rightarrow> nat \<Rightarrow> u32" where
  "entry_fde_offset m table i = ucast (mem_le m 4 (table + 8 * word_of_nat i + 4))"

text \<open>
  The indices are less than \<open>2 ^ 61\<close>, so the additions of \<open>unsigned long\<close> values do not wrap.
\<close>

function unw_lookup_loop :: "memory \<Rightarrow> addr \<Rightarrow> u32 \<Rightarrow> nat \<Rightarrow> nat \<Rightarrow> nat" where
  "unw_lookup_loop m table rel_ip lo hi =
     (if lo < hi then
        (let mid = (lo + hi) div 2 in
         if sint rel_ip < sint (entry_start_ip_offset m table mid)
         then unw_lookup_loop m table rel_ip lo mid
         else unw_lookup_loop m table rel_ip (mid + 1) hi)
      else hi)"
  by pat_completeness auto
termination
  by (relation "measure (\<lambda>(m, table, rel_ip, lo, hi). hi - lo)") auto

declare unw_lookup_loop.simps [simp del]

text \<open>The index of the entry, if there is one.\<close>

definition unw_lookup :: "memory \<Rightarrow> addr \<Rightarrow> u64 \<Rightarrow> u32 \<Rightarrow> nat option" where
  "unw_lookup m table table_size rel_ip =
     (let hi = unw_lookup_loop m table rel_ip 0 (unat table_size div 8) in
      if hi = 0 then None else Some (hi - 1))"

text \<open>
  The table of a \<open>di\<close>: its address, its size in bytes and the base of the \<open>.debug_frame\<close> section. A
  \<open>struct unw_debug_frame_list\<close> has \<open>debug_frame\<close> at 16, \<open>index\<close> at 32 and \<open>index_size\<close> at 40.
\<close>

definition unwind_table :: "memory \<Rightarrow> unw_dyn_info_t \<Rightarrow> addr \<times> u64 \<times> u64" where
  "unwind_table m di =
     (if di_format di = UNW_INFO_FORMAT_REMOTE_TABLE then (di_table_data di, di_table_len di * 8, 0)
      else (let fdesc = di_table_data di in
            (read_word m (fdesc + 32), read_word m (fdesc + 40) * 8, read_word m (fdesc + 16))))"

type_synonym pi_state = "unw_proc_info_t \<times> pool_state"

definition dwarf_search_unwind_table ::
  "nat \<Rightarrow> memory \<Rightarrow> u64 \<Rightarrow> unw_dyn_info_t \<Rightarrow> bool \<Rightarrow> pi_state \<Rightarrow> (pi_state, unit) call" where
  "dwarf_search_unwind_table fuel m ip di need_unwind_info = (\<lambda>(pi, pool).
     if di_format di \<noteq> UNW_INFO_FORMAT_REMOTE_TABLE \<and> di_format di \<noteq> UNW_INFO_FORMAT_TABLE then Panic
     else if \<not> (di_start_ip di \<le> ip \<and> ip < di_end_ip di) then Panic
     else
       (let (table, table_len, debug_frame_base) = unwind_table m di; segbase = di_segbase di in
        case unw_lookup m table table_len (ucast (ip - segbase)) of
          None \<Rightarrow> throw UNW_ENOINFO (pi, pool)
        | Some e \<Rightarrow>
            (let off = scast (entry_fde_offset m table e);
                 fde_addr = (if debug_frame_base \<noteq> 0 then off + debug_frame_base else off + segbase) in
             obind (dwarf_extract_proc_info_from_fde fuel m need_unwind_info debug_frame_base
                      (fde_addr, pi, pool)) (\<lambda>(r, _, pi, pool).
             case r of
               Err e \<Rightarrow> throw e (pi, pool)
             | Ret _ \<Rightarrow>
                 (let pi = (if di_format di = UNW_INFO_FORMAT_TABLE
                            then pi\<lparr>start_ip := start_ip pi + segbase, end_ip := end_ip pi + segbase,
                                    pi_flags := UNW_PI_FLAG_DEBUG_FRAME\<rparr>
                            else pi) in
                  if ip < start_ip pi \<or> end_ip pi \<le> ip then throw UNW_ENOINFO (pi, pool)
                  else ret () (pi, pool))))))"

section \<open>\<open>dwarf_find_proc_info\<close>\<close>

definition cb_init :: "pi_state \<Rightarrow> cb_state" where
  "cb_init = (\<lambda>(pi, pool).
     \<lparr>cb_single_fde = False, cb_di = None, cb_di_debug = None, cb_pi = pi, cb_pool = pool\<rparr>)"

text \<open>The part behind the walk over the files.\<close>

definition find_in_tables ::
  "nat \<Rightarrow> memory \<Rightarrow> u64 \<Rightarrow> bool \<Rightarrow> cb_state \<Rightarrow> (pi_state, unit) call" where
  "find_in_tables fuel m ip need_unwind_info cb =
     obind (case cb_di cb of
              Some di \<Rightarrow> dwarf_search_unwind_table fuel m ip di need_unwind_info (cb_pi cb, cb_pool cb)
            | None \<Rightarrow> throw UNW_ENOINFO (cb_pi cb, cb_pool cb)) (\<lambda>(r, s).
     case (r, cb_di_debug cb) of
       (Err UNW_ENOINFO, Some di) \<Rightarrow> dwarf_search_unwind_table fuel m ip di need_unwind_info s
     | _ \<Rightarrow> Ok (r, s))"

definition dwarf_find_proc_info ::
  "nat \<Rightarrow> linker \<Rightarrow> memory \<Rightarrow> u64 \<Rightarrow> bool \<Rightarrow> pi_state \<Rightarrow> (pi_state, unit) call" where
  "dwarf_find_proc_info fuel lk m ip need_unwind_info s =
     obind (lk_foreach lk (dwarf_callback fuel lk m ip need_unwind_info) (cb_init s)) (\<lambda>(found, cb).
     if found > 0 then throw UNW_ENOINFO (cb_pi cb, cb_pool cb)
     else if cb_single_fde cb then ret () (cb_pi cb, cb_pool cb)
     else find_in_tables fuel m ip need_unwind_info cb)"

text \<open>\<open>dwarf_put_unwind_info\<close> does nothing.\<close>

definition dwarf_put_unwind_info :: "pi_state \<Rightarrow> pi_state" where
  "dwarf_put_unwind_info s = s"

section \<open>Dynamic procedures\<close>

definition unwi_extract_dynamic_proc_info ::
  "nat \<Rightarrow> memory \<Rightarrow> u64 \<Rightarrow> addr \<Rightarrow> unw_dyn_info_t \<Rightarrow> bool \<Rightarrow> pi_state \<Rightarrow> (pi_state, unit) call" where
  "unwi_extract_dynamic_proc_info fuel m ip p di need_unwind_info = (\<lambda>(pi, pool).
     let pi = pi\<lparr>start_ip := di_start_ip di, end_ip := di_end_ip di, pi_gp := di_gp di,
                 pi_format := di_format di\<rparr> in
     case di_format di of
       UNW_INFO_FORMAT_DYNAMIC \<Rightarrow>
         ret () (pi\<lparr>pi_handler := di_handler di, pi_lsda := 0, pi_flags := ucast (di_flags di),
                    pi_unwind_info_size := 0,
                    pi_unwind_info := (if need_unwind_info then UI_dyn p else UI_NULL)\<rparr>, pool)
     | UNW_INFO_FORMAT_TABLE \<Rightarrow> dwarf_search_unwind_table fuel m ip di need_unwind_info (pi, pool)
     | UNW_INFO_FORMAT_REMOTE_TABLE \<Rightarrow> dwarf_search_unwind_table fuel m ip di need_unwind_info (pi, pool)
     | _ \<Rightarrow> throw UNW_EINVAL (pi, pool))"

definition unwi_find_dynamic_proc_info ::
  "nat \<Rightarrow> dyn_state \<Rightarrow> memory \<Rightarrow> u64 \<Rightarrow> bool \<Rightarrow> pi_state \<Rightarrow> (pi_state, unit) call" where
  "unwi_find_dynamic_proc_info fuel ds m ip need_unwind_info s =
     obind (dyn_lookup fuel ds (ds_first ds) ip) (\<lambda>r.
     case r of
       None \<Rightarrow> throw UNW_ENOINFO s
     | Some (p, di) \<Rightarrow> unwi_extract_dynamic_proc_info fuel m ip p di need_unwind_info s)"

definition unw_get_proc_info_by_ip ::
  "nat \<Rightarrow> linker \<Rightarrow> dyn_state \<Rightarrow> memory \<Rightarrow> u64 \<Rightarrow> pi_state \<Rightarrow> (pi_state, unit) call" where
  "unw_get_proc_info_by_ip fuel lk ds m ip s =
     obind (unwi_find_dynamic_proc_info fuel ds m ip False s) (\<lambda>(r, s).
     if r = Err UNW_ENOINFO then dwarf_find_proc_info fuel lk m ip False s else Ok (r, s))"

section \<open>Binary search finds the entry\<close>

text \<open>A table of \<open>n\<close> entries sorted by their start offset.\<close>

definition sorted_table :: "memory \<Rightarrow> addr \<Rightarrow> nat \<Rightarrow> bool" where
  "sorted_table m table n = (\<forall>i j. i \<le> j \<and> j < n \<longrightarrow>
     sint (entry_start_ip_offset m table i) \<le> sint (entry_start_ip_offset m table j))"

text \<open>Everything below the result starts at or before \<open>rel_ip\<close>, everything from it on starts behind.\<close>

definition splits_at :: "memory \<Rightarrow> addr \<Rightarrow> u32 \<Rightarrow> nat \<Rightarrow> nat \<Rightarrow> bool" where
  "splits_at m table rel_ip n k = (k \<le> n \<and>
     (\<forall>i<k. sint (entry_start_ip_offset m table i) \<le> sint rel_ip) \<and>
     (\<forall>i. k \<le> i \<and> i < n \<longrightarrow> sint rel_ip < sint (entry_start_ip_offset m table i)))"

lemma unw_lookup_loop_splits:
  assumes "sorted_table m table n" "lo \<le> hi" "hi \<le> n"
    "\<forall>i<lo. sint (entry_start_ip_offset m table i) \<le> sint rel_ip"
    "\<forall>i. hi \<le> i \<and> i < n \<longrightarrow> sint rel_ip < sint (entry_start_ip_offset m table i)"
  shows "splits_at m table rel_ip n (unw_lookup_loop m table rel_ip lo hi)"
  using assms(2-5)
proof (induction "hi - lo" arbitrary: lo hi rule: less_induct)
  case less
  show ?case
  proof (cases "lo < hi")
    case False
    then have "unw_lookup_loop m table rel_ip lo hi = hi" by (subst unw_lookup_loop.simps) simp
    with False less.prems show ?thesis by (simp add: splits_at_def)
  next
    case True
    define mid where "mid = (lo + hi) div 2"
    have mid: "lo \<le> mid" "mid < hi" "mid < n" using True less.prems(2) by (auto simp: mid_def)
    have srt: "sint (entry_start_ip_offset m table i) \<le> sint (entry_start_ip_offset m table j)"
      if "i \<le> j" "j < n" for i j using assms(1) that by (simp add: sorted_table_def)
    show ?thesis
    proof (cases "sint rel_ip < sint (entry_start_ip_offset m table mid)")
      case lt: True
      have "splits_at m table rel_ip n (unw_lookup_loop m table rel_ip lo mid)"
        by (rule less.hyps) (use mid less.prems lt srt [of mid] in \<open>auto intro: less_le_trans\<close>)
      then show ?thesis using True lt by (subst unw_lookup_loop.simps) (simp add: mid_def [symmetric])
    next
      case ge: False
      have "splits_at m table rel_ip n (unw_lookup_loop m table rel_ip (mid + 1) hi)"
      proof (rule less.hyps)
        show "\<forall>i<mid + 1. sint (entry_start_ip_offset m table i) \<le> sint rel_ip"
          using srt [of _ mid] mid(3) ge by (auto simp: not_less less_Suc_eq_le intro: order_trans)
      qed (use mid less.prems in auto)
      then show ?thesis using True ge by (subst unw_lookup_loop.simps) (simp add: mid_def [symmetric])
    qed
  qed
qed

text \<open>C19: the binary search is correct: in a table sorted by start offset it returns the last entry
  that starts at or before the address, and no entry exactly when every entry starts behind it.\<close>

theorem unw_lookup_correct:
  assumes "sorted_table m table (unat table_size div 8)"
  shows "case unw_lookup m table table_size rel_ip of
      None \<Rightarrow> \<forall>i < unat table_size div 8. sint rel_ip < sint (entry_start_ip_offset m table i)
    | Some k \<Rightarrow> k < unat table_size div 8 \<and> sint (entry_start_ip_offset m table k) \<le> sint rel_ip \<and>
        (\<forall>i. k < i \<and> i < unat table_size div 8 \<longrightarrow> sint rel_ip < sint (entry_start_ip_offset m table i))"
  using unw_lookup_loop_splits [OF assms, of 0 "unat table_size div 8" rel_ip]
  by (auto simp: unw_lookup_def Let_def splits_at_def)

theorem unw_lookup_correct_witness:
  "\<exists>k. unw_lookup (\<lambda>_. 0) 0x1000 16 5 = Some k \<and> sint (entry_start_ip_offset (\<lambda>_. 0) 0x1000 k) \<le> 5"
proof -
  have z: "mem_le (\<lambda>_. 0) n a = 0" for n a by (induction n arbitrary: a) simp_all
  have e: "entry_start_ip_offset (\<lambda>_. 0) t i = 0" for t i by (simp add: entry_start_ip_offset_def z)
  have "sorted_table (\<lambda>_. 0) 0x1000 (unat (16 :: u64) div 8)" by (simp add: sorted_table_def e)
  have "\<not> (\<forall>i < unat (16 :: u64) div 8. sint (5 :: u32) < sint (0 :: u32))" by (auto intro!: exI [of _ 0])
  with unw_lookup_correct [OF \<open>sorted_table _ _ _\<close>, of 5] show ?thesis by (auto simp: e split: option.splits)
qed

section \<open>Linear search of a compiler-emitted section\<close>

text \<open>
  A section: a CIE at \<open>cie\<close> and, from \<open>a\<close> up to the end \<open>e\<close>, FDEs that refer to it. An entry is the length
  of the FDE, the displacement of the start address and the size of the function.
\<close>

type_synonym gcc_entry = "u32 \<times> u32 \<times> u32"

primrec gcc_fdes :: "memory \<Rightarrow> addr \<Rightarrow> addr \<Rightarrow> gcc_entry list \<Rightarrow> addr \<Rightarrow> bool" where
  "gcc_fdes m cie a [] e = (a = e)"
| "gcc_fdes m cie a (x # xs) e = (case x of (fde_len, off, len) \<Rightarrow>
     a < e \<and> gcc_fde_at m a cie fde_len off len \<and> gcc_fdes m cie (a + 4 + ucast fde_len) xs e)"

text \<open>What the FDEs describe: address, length, start and end address.\<close>

primrec gcc_ranges :: "addr \<Rightarrow> gcc_entry list \<Rightarrow> (addr \<times> u32 \<times> u64 \<times> u64) list" where
  "gcc_ranges a [] = []"
| "gcc_ranges a (x # xs) = (case x of (fde_len, off, len) \<Rightarrow>
     (a, fde_len, a + 8 + scast off, a + 8 + scast off + scast len) # gcc_ranges (a + 4 + ucast fde_len) xs)"

definition in_range :: "u64 \<Rightarrow> addr \<times> u32 \<times> u64 \<times> u64 \<Rightarrow> bool" where
  "in_range ip r = (case r of (_, _, first, lim) \<Rightarrow> first \<le> ip \<and> ip < lim)"

text \<open>The procedure information of an FDE.\<close>

definition gcc_pi :: "unw_proc_info_t \<Rightarrow> u64 \<Rightarrow> u64 \<Rightarrow> unw_proc_info_t" where
  "gcc_pi pi first lim = pi\<lparr>start_ip := first, end_ip := lim, pi_handler := 0, pi_lsda := 0\<rparr>"

definition gcc_unwind_pi :: "unw_proc_info_t \<Rightarrow> addr \<Rightarrow> dwarf_cie_info_t \<Rightarrow> unw_proc_info_t" where
  "gcc_unwind_pi pi obj dci = pi\<lparr>pi_format := UNW_INFO_FORMAT_TABLE, pi_unwind_info_size := CIE_INFO_SIZE,
     pi_unwind_info := UI_cie obj dci\<rparr>"

lemma gcc_extract:
  assumes "gcc_cie_at m cie cie_len" "gcc_fde_at m a cie fde_len off len" "3 \<le> fuel"
    "first = a + 8 + scast off" "lim = first + scast len"
  shows "dwarf_extract_proc_info_from_fde fuel m False 0 (a, pi, pool) =
      ret () (a + 4 + ucast fde_len, gcc_pi pi first lim, pool)"
    "pool_alloc pool = Ok (obj, pool') \<Longrightarrow> obj \<noteq> 0 \<Longrightarrow>
     dwarf_extract_proc_info_from_fde fuel m True 0 (a, pi, pool) = ret () (a + 4 + ucast fde_len,
        gcc_unwind_pi (gcc_pi pi first lim) obj (gcc_cie_info cie cie_len a fde_len), pool')"
  using gcc_fde_decoded [OF assms(1-3), of pi pool] gcc_fde_decoded_unwind [OF assms(1-3), of pool obj pool' pi]
  by (simp_all add: gcc_pi_def gcc_unwind_pi_def assms(4,5))

text \<open>The outcome of a search for \<open>ip\<close> when \<open>r\<close> is the FDE that covers it.\<close>

definition search_result ::
  "bool \<Rightarrow> addr \<Rightarrow> u32 \<Rightarrow> addr \<Rightarrow> unw_proc_info_t \<Rightarrow> pool_state \<Rightarrow> pool_state \<Rightarrow> u64 \<Rightarrow> (addr \<times> u32 \<times> u64 \<times> u64) option \<Rightarrow>
   (fde_state, unit) call \<Rightarrow> bool" where
  "search_result need cie cie_len obj pi pool pool' ip r res = (case r of
      None \<Rightarrow> \<exists>a' pi'. res = throw UNW_ENOINFO (a', pi', pool) \<and> \<not> (start_ip pi' \<le> ip \<and> ip < end_ip pi') \<and>
        pi_unwind_info pi' = pi_unwind_info pi \<and> pi_format pi' = pi_format pi
    | Some (fde, fde_len, first, lim) \<Rightarrow> \<exists>a' pi'. res = ret () (a', pi', if need then pool' else pool) \<and>
        start_ip pi' = first \<and> end_ip pi' = lim \<and> first \<le> ip \<and> ip < lim \<and>
        (need \<longrightarrow> pi_unwind_info pi' = UI_cie obj (gcc_cie_info cie cie_len fde fde_len)))"

lemma search_result_gcc_pi [simp]:
  "search_result need cie cie_len obj (gcc_pi pi first lim) pool pool' ip r res =
   search_result need cie cie_len obj pi pool pool' ip r res"
  by (cases r) (simp_all add: search_result_def gcc_pi_def)

lemma linear_search_gcc_fdes:
  assumes cie: "gcc_cie_at m cie cie_len" and fuel: "3 \<le> fuel" and alloc: "pool_alloc pool = Ok (obj, pool')" "obj \<noteq> 0"
  shows "gcc_fdes m cie a xs e \<Longrightarrow> length xs \<le> n \<Longrightarrow> \<not> (start_ip pi \<le> ip \<and> ip < end_ip pi) \<Longrightarrow>
    search_result need cie cie_len obj pi pool pool' ip (find (in_range ip) (gcc_ranges a xs))
      (linear_search fuel m ip e need n (a, pi, pool))"
proof (induction xs arbitrary: a n pi)
  case Nil
  then show ?case by (cases n) (simp_all add: search_result_def)
next
  case (Cons x xs)
  obtain fde_len off len where x: "x = (fde_len, off, len)" by (cases x)
  define first where "first = a + 8 + scast off"
  define lim where "lim = first + scast len"
  obtain k where n: "n = Suc k" "length xs \<le> k" using Cons.prems(2) by (cases n) auto
  have fde: "a < e" "gcc_fde_at m a cie fde_len off len" "gcc_fdes m cie (a + 4 + ucast fde_len) xs e"
    using Cons.prems(1) x by simp_all
  note ex = gcc_extract [OF cie fde(2) fuel first_def lim_def]
  have step: "linear_search fuel m ip e need n (a, pi, pool) =
      (if first \<le> ip \<and> ip < lim then
         if need then dwarf_extract_proc_info_from_fde fuel m True 0 (a, gcc_pi pi first lim, pool)
         else ret () (a + 4 + ucast fde_len, gcc_pi pi first lim, pool)
       else linear_search fuel m ip e need k (a + 4 + ucast fde_len, gcc_pi pi first lim, pool))"
    using fde(1) n ex(1) by (auto simp: ret_def gcc_pi_def)
  show ?case
  proof (cases "first \<le> ip \<and> ip < lim")
    case True
    then have "find (in_range ip) (gcc_ranges a (x # xs)) = Some (a, fde_len, first, lim)"
      by (simp add: x in_range_def first_def lim_def)
    then show ?thesis using True ex(2) [OF alloc, of "gcc_pi pi first lim"] unfolding step
      by (simp add: search_result_def gcc_pi_def gcc_unwind_pi_def)
  next
    case False
    then have f: "find (in_range ip) (gcc_ranges a (x # xs)) =
        find (in_range ip) (gcc_ranges (a + 4 + ucast fde_len) xs)"
      by (auto simp: x in_range_def first_def lim_def)
    have "\<not> (start_ip (gcc_pi pi first lim) \<le> ip \<and> ip < end_ip (gcc_pi pi first lim))"
      using False by (simp add: gcc_pi_def)
    from Cons.IH [OF fde(3) n(2) this] show ?thesis unfolding f step if_not_P [OF False] by simp
  qed
qed

text \<open>The whole section, from its CIE on.\<close>

definition gcc_section :: "memory \<Rightarrow> addr \<Rightarrow> u32 \<Rightarrow> gcc_entry list \<Rightarrow> addr \<Rightarrow> bool" where
  "gcc_section m cie cie_len xs e = (gcc_cie_at m cie cie_len \<and> cie_len \<noteq> 0 \<and> cie < e \<and>
     gcc_fdes m cie (cie + 4 + ucast cie_len) xs e)"

definition section_entry :: "addr \<Rightarrow> u32 \<Rightarrow> gcc_entry list \<Rightarrow> u64 \<Rightarrow> (addr \<times> u32 \<times> u64 \<times> u64) option" where
  "section_entry cie cie_len xs ip = find (in_range ip) (gcc_ranges (cie + 4 + ucast cie_len) xs)"

lemma linear_search_section:
  assumes sect: "gcc_section m cie cie_len xs e" and "length xs < n" "3 \<le> fuel"
    "pool_alloc pool = Ok (obj, pool')" "obj \<noteq> 0" "\<not> (start_ip pi \<le> ip \<and> ip < end_ip pi)"
  shows "search_result need cie cie_len obj pi pool pool' ip (section_entry cie cie_len xs ip)
    (linear_search fuel m ip e need n (cie, pi, pool))"
proof -
  obtain k where k: "n = Suc k" "length xs \<le> k" using assms(2) by (cases n) auto
  have s: "gcc_cie_at m cie cie_len" "gcc_fdes m cie (cie + 4 + ucast cie_len) xs e"
    using sect by (simp_all add: gcc_section_def)
  have "dwarf_readu32 m cie = (cie_len, cie + 4)" "dwarf_reads32 m (cie + 4) = (0, cie + 8)" "cie_len \<noteq> 0xffffffff"
    "cie_len \<noteq> 0"
    using sect by (simp_all add: gcc_section_def gcc_cie_at_def dwarf_readu32_def dwarf_reads32_def add.assoc)
  then have "fde_header m cie 0 = Fde_CIE (cie + 4 + ucast cie_len)" by (simp add: fde_header_def is_cie_id_def)
  then have "dwarf_extract_proc_info_from_fde fuel m False 0 (cie, pi, pool) = ret () (cie + 4 + ucast cie_len, pi, pool)"
    by (simp add: dwarf_extract_proc_info_from_fde_def)
  then have "linear_search fuel m ip e need n (cie, pi, pool) =
      linear_search fuel m ip e need k (cie + 4 + ucast cie_len, pi, pool)"
    using k(1) sect assms(6) by (auto simp: gcc_section_def ret_def)
  then show ?thesis
    using linear_search_gcc_fdes [OF s(1) assms(3-5) s(2) k(2) assms(6), of need] by (simp add: section_entry_def)
qed

text \<open>C15: linear search of an \<open>.eh_frame\<close> section as the compiler emits it, a CIE and any number of
  FDEs: with a count that is at least the number of entries it returns exactly the first FDE whose
  range contains the address, with the range and, on request, the unwind information of that FDE in
  a pool object; it fails with \<open>UNW_ENOINFO\<close> exactly when no FDE covers the address, and then the
  procedure information does not claim to cover it.\<close>

theorem linear_search_correct:
  assumes "gcc_section m cie cie_len xs e" "length xs < n" "3 \<le> fuel"
    "pool_alloc pool = Ok (obj, pool')" "obj \<noteq> 0" "\<not> (start_ip pi \<le> ip \<and> ip < end_ip pi)"
  shows "case section_entry cie cie_len xs ip of
      None \<Rightarrow> \<exists>a' pi'. linear_search fuel m ip e need n (cie, pi, pool) = throw UNW_ENOINFO (a', pi', pool) \<and>
        \<not> (start_ip pi' \<le> ip \<and> ip < end_ip pi')
    | Some (fde, fde_len, first, lim) \<Rightarrow> \<exists>a' pi'. linear_search fuel m ip e need n (cie, pi, pool) =
        ret () (a', pi', if need then pool' else pool) \<and>
        start_ip pi' = first \<and> end_ip pi' = lim \<and> first \<le> ip \<and> ip < lim \<and>
        (need \<longrightarrow> pi_unwind_info pi' = UI_cie obj (gcc_cie_info cie cie_len fde fde_len))"
  using linear_search_section [OF assms, of need] unfolding search_result_def by (fastforce split: option.splits)

lemma gcc_mem_section: "gcc_section gcc_mem 0x1000 0x14 [(0x14, 0x100, 0x40)] 0x1030"
  unfolding gcc_section_def using gcc_mem_cie gcc_mem_fde by simp

theorem linear_search_correct_witness:
  "\<exists>a' pi'. linear_search 3 gcc_mem 0x1130 0x1030 False 2 (0x1000, zero_proc_info, (env0, pool0)) =
     ret () (a', pi', (env0, pool0)) \<and> start_ip pi' = 0x1120 \<and> end_ip pi' = 0x1160"
proof -
  obtain obj pool' where p: "pool_alloc (env0, pool0) = Ok (obj, pool')" "obj \<noteq> 0" using pool0_alloc by blast
  have e: "section_entry 0x1000 0x14 [(0x14, 0x100, 0x40)] 0x1130 = Some (0x1018, 0x14, 0x1120, 0x1160)"
    by (simp add: section_entry_def in_range_def)
  have z: "\<not> (start_ip zero_proc_info \<le> 0x1130 \<and> 0x1130 < end_ip zero_proc_info)" by (simp add: zero_proc_info_def)
  show ?thesis
    using linear_search_correct [OF gcc_mem_section _ _ p z, of 2 3 False] by (auto simp: e)
qed

section \<open>Walking over the loaded files\<close>

text \<open>
  What the kernel documents of \<open>linker_file_foreach\<close>: it calls the predicate on the loaded files in
  turn until one call returns non-zero, and returns the value of the last call. There is always at
  least one file, the kernel.
\<close>

fun run_files ::
  "linker_file list \<Rightarrow> (linker_file \<Rightarrow> cb_state \<Rightarrow> (int \<times> cb_state) outcome) \<Rightarrow> cb_state \<Rightarrow> (int \<times> cb_state) outcome" where
  "run_files [] p cb = Ok (0, cb)"
| "run_files (f # fs) p cb =
     obind (p f cb) (\<lambda>(r, cb). if r \<noteq> 0 then Ok (r, cb) else run_files fs p cb)"

definition walks_files :: "linker \<Rightarrow> linker_file list \<Rightarrow> bool" where
  "walks_files lk files = (files \<noteq> [] \<and> (\<forall>p cb. lk_foreach lk p cb = run_files files p cb))"

definition elsewhere :: "u64 \<Rightarrow> linker_file \<Rightarrow> bool" where
  "elsewhere ip file = (ip < lf_address file \<or> lf_address file + lf_size file < ip)"

lemma run_files_elsewhere:
  "\<forall>f\<in>set fs. elsewhere ip f \<Longrightarrow>
   run_files (fs @ gs) (dwarf_callback fuel lk m ip need) cb = run_files gs (dwarf_callback fuel lk m ip need) cb"
  by (induction fs) (auto simp: dwarf_callback_def elsewhere_def)

text \<open>A module that holds the code at \<open>ip\<close> and an \<open>.eh_frame\<close> section with the given entries.\<close>

definition module_for :: "linker \<Rightarrow> memory \<Rightarrow> u64 \<Rightarrow> linker_file \<Rightarrow> addr \<Rightarrow> u32 \<Rightarrow> gcc_entry list \<Rightarrow> bool" where
  "module_for lk m ip file cie cie_len xs = (\<not> elsewhere ip file \<and>
     Option.bind (lk_search_symbol lk ip) (lk_symbol_values lk) \<noteq> None \<and>
     (\<exists>sec. find_eh_frame_section file = Some sec \<and> pe_addr sec = cie \<and>
       gcc_section m cie cie_len xs (cie + pe_size sec) \<and> length xs < unat (pe_size sec) div 8))"

lemma strings_equal_iff [simp]: "strings_equal s t \<longleftrightarrow> s = t"
proof -
  have "strings_equal_loop x y \<longleftrightarrow> x = y" for x y by (induction x y rule: strings_equal_loop.induct) auto
  then show ?thesis by (auto simp: strings_equal_def split: option.splits)
qed

lemma search_result_cases:
  assumes "search_result need cie cie_len obj pi pool pool' ip r res"
  shows "\<exists>x a' pi' p'. res = Ok (x, a', pi', p') \<and>
    x = (if r = None then Err UNW_ENOINFO else Ret ()) \<and> (r = None \<longleftrightarrow> \<not> (start_ip pi' \<le> ip \<and> ip < end_ip pi')) \<and>
    (r = None \<longrightarrow> pi_unwind_info pi' = pi_unwind_info pi \<and> pi_format pi' = pi_format pi)"
proof (cases r)
  case None
  with assms show ?thesis by (fastforce simp: search_result_def throw_def)
next
  case (Some y)
  with assms show ?thesis by (fastforce simp: search_result_def ret_def split: prod.splits)
qed

lemma callback_module:
  assumes "module_for lk m ip file cie cie_len xs" "3 \<le> fuel" "pool_alloc (cb_pool cb) = Ok (obj, pool')" "obj \<noteq> 0"
    "\<not> (start_ip (cb_pi cb) \<le> ip \<and> ip < end_ip (cb_pi cb))"
  shows "\<exists>cb'. dwarf_callback fuel lk m ip need file cb =
      Ok (if section_entry cie cie_len xs ip = None then 0 else 1, cb') \<and> cb_single_fde cb' \<and>
    (section_entry cie cie_len xs ip = None \<longleftrightarrow> \<not> (start_ip (cb_pi cb') \<le> ip \<and> ip < end_ip (cb_pi cb'))) \<and>
    (section_entry cie cie_len xs ip = None \<longrightarrow>
       pi_unwind_info (cb_pi cb') = pi_unwind_info (cb_pi cb) \<and> pi_format (cb_pi cb') = UNW_INFO_FORMAT_TABLE)"
proof -
  obtain sec sv where sec: "find_eh_frame_section file = Some sec" "pe_addr sec = cie"
    "gcc_section m cie cie_len xs (cie + pe_size sec)" "length xs < unat (pe_size sec) div 8"
    and v: "Option.bind (lk_search_symbol lk ip) (lk_symbol_values lk) = Some sv"
    using assms(1) by (auto simp: module_for_def)
  let ?pi = "(cb_pi cb)\<lparr>pi_gp := 0, pi_format := UNW_INFO_FORMAT_TABLE\<rparr>"
  have "\<not> (start_ip ?pi \<le> ip \<and> ip < end_ip ?pi)" using assms(5) by simp
  note res = linear_search_section [OF sec(3,4) assms(2-4) this, of need]
  have "dwarf_callback fuel lk m ip need file cb =
    obind (linear_search fuel m ip (cie + pe_size sec) need (unat (pe_size sec) div 8) (cie, ?pi, cb_pool cb))
      (\<lambda>(r, _, pi, pool). Ok (case r of Ret _ \<Rightarrow> 1 | Err _ \<Rightarrow> 0,
         cb\<lparr>cb_single_fde := True, cb_di := Some ((case cb_di cb of None \<Rightarrow> zero_dyn_info | Some di \<Rightarrow> di)\<lparr>di_gp := 0,
            di_format := UNW_INFO_FORMAT_TABLE, di_start_ip := sv_value sv,
            di_end_ip := sv_value sv + sv_size sv, di_name_ptr := sv_name sv\<rparr>),
            cb_pi := pi, cb_pool := pool\<rparr>))"
    using assms(1) sec(1,2) v
    by (simp add: dwarf_callback_def module_for_def elsewhere_def)
  with search_result_cases [OF res] show ?thesis by (auto split: if_splits)
qed

text \<open>What \<open>dwarf_find_proc_info\<close> makes of a module: the test behind the walk is inverted.\<close>

lemma find_proc_info_module:
  assumes "walks_files lk (fs @ file # gs)" "\<forall>f \<in> set fs \<union> set gs. elsewhere ip f"
    "module_for lk m ip file cie cie_len xs" "3 \<le> fuel" "pool_alloc pool = Ok (obj, pool')" "obj \<noteq> 0"
    "\<not> (start_ip pi \<le> ip \<and> ip < end_ip pi)"
  shows "\<exists>pi' pool''. dwarf_find_proc_info fuel lk m ip need (pi, pool) =
      (if section_entry cie cie_len xs ip = None then ret () (pi', pool'') else throw UNW_ENOINFO (pi', pool'')) \<and>
    (section_entry cie cie_len xs ip = None \<longleftrightarrow> \<not> (start_ip pi' \<le> ip \<and> ip < end_ip pi')) \<and>
    (section_entry cie cie_len xs ip = None \<longrightarrow>
       pi_unwind_info pi' = pi_unwind_info pi \<and> pi_format pi' = UNW_INFO_FORMAT_TABLE)"
proof -
  let ?cb = "cb_init (pi, pool)" and ?p = "dwarf_callback fuel lk m ip need"
  have cb: "cb_pool ?cb = pool" "cb_pi ?cb = pi" by (simp_all add: cb_init_def)
  obtain cb' where cb': "?p file ?cb = Ok (if section_entry cie cie_len xs ip = None then 0 else 1, cb')"
    "cb_single_fde cb'"
    "section_entry cie cie_len xs ip = None \<longleftrightarrow> \<not> (start_ip (cb_pi cb') \<le> ip \<and> ip < end_ip (cb_pi cb'))"
    "section_entry cie cie_len xs ip = None \<longrightarrow>
       pi_unwind_info (cb_pi cb') = pi_unwind_info pi \<and> pi_format (cb_pi cb') = UNW_INFO_FORMAT_TABLE"
    using callback_module [OF assms(3,4), of ?cb obj pool' need] assms(5-7) cb by auto
  have "run_files gs ?p cb' = Ok (0, cb')" using run_files_elsewhere [of gs ip "[]" fuel lk m need cb'] assms(2) by simp
  then have "lk_foreach lk ?p ?cb = Ok (if section_entry cie cie_len xs ip = None then 0 else 1, cb')"
    using assms(1,2) run_files_elsewhere [of fs ip "file # gs" fuel lk m need ?cb] cb'(1)
    by (simp add: walks_files_def)
  then have "dwarf_find_proc_info fuel lk m ip need (pi, pool) =
    (if section_entry cie cie_len xs ip = None then ret () (cb_pi cb', cb_pool cb')
     else throw UNW_ENOINFO (cb_pi cb', cb_pool cb'))"
    using cb'(2) by (simp add: dwarf_find_proc_info_def)
  with cb'(3,4) show ?thesis by (intro exI [of _ "cb_pi cb'"] exI [of _ "cb_pool cb'"] conjI)
qed

text \<open>The result of \<open>dwarf_find_proc_info\<close> is inverted. Let the code at \<open>ip\<close> belong to one loaded
  module with a compiler-emitted \<open>.eh_frame\<close> section. If an FDE covers \<open>ip\<close>, the procedure information
  is filled in correctly and the call fails with \<open>UNW_ENOINFO\<close>; if no FDE covers \<open>ip\<close>, the call succeeds
  with procedure information that does not cover \<open>ip\<close>. (The test \<open>ret > 0\<close> stands where \<open>ret <= 0\<close> is
  meant.)\<close>

lemma find_proc_info_inverted:
  assumes "walks_files lk (fs @ file # gs)" "\<forall>f \<in> set fs \<union> set gs. elsewhere ip f"
    "module_for lk m ip file cie cie_len xs" "3 \<le> fuel" "pool_alloc pool = Ok (obj, pool')" "obj \<noteq> 0"
    "\<not> (start_ip pi \<le> ip \<and> ip < end_ip pi)"
  shows "\<exists>pi' pool''. dwarf_find_proc_info fuel lk m ip need (pi, pool) =
      (if section_entry cie cie_len xs ip = None then ret () (pi', pool'') else throw UNW_ENOINFO (pi', pool'')) \<and>
    (section_entry cie cie_len xs ip = None \<longleftrightarrow> \<not> (start_ip pi' \<le> ip \<and> ip < end_ip pi'))"
  using find_proc_info_module [OF assms, of need] by metis

text \<open>A linker with one module at 0x1000 whose section is that of \<open>gcc_mem\<close>.\<close>

definition module0 :: linker_file where
  "module0 = \<lparr>lf_filename = Some ''m.ko'', lf_address = 0x1000, lf_size = 0x1000,
     lf_progtab = [\<lparr>pe_addr = 0x1000, pe_size = 0x30, pe_name = Some ''.eh_frame''\<rparr>]\<rparr>"

definition linker0 :: linker where
  "linker0 = \<lparr>lk_search_symbol = (\<lambda>a. Some a),
     lk_symbol_values = (\<lambda>a. Some \<lparr>sv_name = 0, sv_value = a, sv_size = 0x40\<rparr>),
     lk_foreach = run_files [module0]\<rparr>"

end
