(* ===== verification/Dwarf_Frame.thy ===== *)
theory Dwarf_Frame
  imports Dwarf_CFI Unw_Call
begin

text \<open>
  Applying a register state to a cursor: \<open>eval_location_expr\<close> and \<open>apply_reg_state\<close> of
  \<^verbatim>\<open>Gparser.c\<close>, which move a cursor from a frame to its caller, and \<open>tdep_stash_frame\<close> of
  \<^verbatim>\<open>Gstash_frame.c\<close>, which records what the fast tracer needs to know about the frame.

  The calls return the cursor and the machine with the reply, because the C code changes the cursor
  before it may fail. The machine changes only in its cache of validated pages; a reader that fails
  leaves the cache as it was before the read, which no later read can observe since every non-zero
  page validates.
\<close>

type_synonym unw_state = "cursor \<times> machine"

section \<open>\<open>tdep_stash_frame\<close>\<close>

definition labs64 :: "u64 \<Rightarrow> int outcome" where
  "labs64 v = defined (v \<noteq> 0x8000000000000000) (Ok (abs (sint v)))"

text \<open>An assignment to a signed bit-field of \<open>n\<close> bits.\<close>

definition bit_field :: "nat \<Rightarrow> u64 \<Rightarrow> int" where
  "bit_field n v = signed_take_bit (n - 1) (sint v)"

text \<open>A register that is unsaved, or saved at an offset from the CFA that the frame record can hold.\<close>

definition stashable :: "dwarf_save_loc_t \<Rightarrow> bool outcome" where
  "stashable l =
     (case sl_where l of
        DWARF_WHERE_UNDEF \<Rightarrow> Ok True
      | DWARF_WHERE_SAME \<Rightarrow> Ok True
      | DWARF_WHERE_CFAREL \<Rightarrow>
          obind (labs64 (sl_val l)) (\<lambda>n. Ok (n < 2 ^ 14 \<and> sl_val l + 1 \<noteq> 0))
      | _ \<Rightarrow> Ok False)"

definition is_standard_frame :: "cursor \<Rightarrow> dwarf_reg_state_t \<Rightarrow> bool outcome" where
  "is_standard_frame c rs =
     (if frame_type (c_frame_info c) \<noteq> UNW_X86_64_FRAME_OTHER then Ok False
      else if sl_where (rs_reg rs ! DWARF_CFA_REG_COLUMN) \<noteq> DWARF_WHERE_REG then Ok False
      else if sl_val (rs_reg rs ! DWARF_CFA_REG_COLUMN) \<notin> {of_nat RBP, of_nat RSP} then Ok False
      else obind (labs64 (sl_val (rs_reg rs ! DWARF_CFA_OFF_COLUMN))) (\<lambda>n.
        if \<not> n < 2 ^ 29 then Ok False
        else defined (unat (c_ret_addr_column c) < length (c_loc c))
          (if c_loc c ! unat (c_ret_addr_column c) \<noteq> c_cfa c - 8 then Ok False
           else obind (stashable (rs_reg rs ! RBP)) (\<lambda>b.
             if b then stashable (rs_reg rs ! RSP) else Ok False))))"

definition stash_standard :: "dwarf_reg_state_t \<Rightarrow> unw_tdep_frame_t \<Rightarrow> unw_tdep_frame_t" where
  "stash_standard rs f =
     (let f = f\<lparr>frame_type := UNW_X86_64_FRAME_STANDARD,
                cfa_reg_rsp := (sl_val (rs_reg rs ! DWARF_CFA_REG_COLUMN) = of_nat RSP),
                cfa_reg_offset := bit_field 30 (sl_val (rs_reg rs ! DWARF_CFA_OFF_COLUMN))\<rparr>;
          f = (if sl_where (rs_reg rs ! RBP) = DWARF_WHERE_CFAREL
               then f\<lparr>rbp_cfa_offset := bit_field 15 (sl_val (rs_reg rs ! RBP))\<rparr> else f) in
      if sl_where (rs_reg rs ! RSP) = DWARF_WHERE_CFAREL
      then f\<lparr>rsp_cfa_offset := bit_field 15 (sl_val (rs_reg rs ! RSP))\<rparr> else f)"

definition tdep_stash_frame :: "cursor \<Rightarrow> dwarf_reg_state_t \<Rightarrow> cursor outcome" where
  "tdep_stash_frame c rs =
     obind (is_standard_frame c rs) (\<lambda>standard.
     if standard then Ok (c\<lparr>c_frame_info := stash_standard rs (c_frame_info c)\<rparr>)
     else if frame_type (c_frame_info c) = UNW_X86_64_FRAME_SIGRETURN then
       (let uc = c_sigcontext_addr c in
        if c_loc c ! RIP - uc = uc_mcontext_gregs ! RIP \<and> c_loc c ! RBP - uc = uc_mcontext_gregs ! RBP \<and>
           c_loc c ! RSP - uc = uc_mcontext_gregs ! RSP
        then Ok c else Panic)
     else Ok c)"

section \<open>\<open>apply_reg_state\<close>\<close>

text \<open>
  The location an expression denotes. \<open>dwarf_eval_expr\<close> has mapped a register number to its API
  number when it says the result is a register; \<open>eval_location_expr\<close> maps it once more.
\<close>

definition eval_location_expr ::
  "nat \<Rightarrow> machine \<Rightarrow> cursor \<Rightarrow> addr \<Rightarrow> (dwarf_loc_t \<times> machine) outcome" where
  "eval_location_expr fuel M c a =
     obind (dwarf_read_uleb128 (m_mem M) a) (\<lambda>(len, a).
     obind (dwarf_eval_expr fuel M c a len) (\<lambda>(v, is_register, M).
     if is_register then obind (dwarf_to_unw_regnum v) (\<lambda>r. Ok (DWARF_REG_LOC c (int r), M))
     else Ok (v, M)))"

text \<open>
  The CFA of the frame. In the local build \<open>DWARF_IS_REG_LOC\<close> is 0, so the value of a location is
  taken as the CFA whether it is a memory or a register location.
\<close>

definition apply_cfa ::
  "nat \<Rightarrow> machine \<Rightarrow> cursor \<Rightarrow> dwarf_reg_state_t \<Rightarrow> (u64 \<times> machine) outcome" where
  "apply_cfa fuel M c rs =
     (let cfa_reg = rs_reg rs ! DWARF_CFA_REG_COLUMN in
      if sl_where cfa_reg = DWARF_WHERE_REG then
        obind (if sl_val cfa_reg = of_nat RSP \<and> sl_where (rs_reg rs ! RSP) = DWARF_WHERE_SAME
               then Ok (c_cfa c, M)
               else obind (dwarf_to_unw_regnum (sl_val cfa_reg)) (\<lambda>r. unw_get_reg M c (int r)))
          (\<lambda>(base, M). Ok (base + sl_val (rs_reg rs ! DWARF_CFA_OFF_COLUMN), M))
      else if sl_where cfa_reg \<noteq> DWARF_WHERE_EXPR then Panic
      else eval_location_expr fuel M c (sl_val cfa_reg))"

text \<open>One round of the loop over the registers: the new location of register \<open>i\<close>.\<close>

definition apply_reg ::
  "nat \<Rightarrow> dwarf_reg_state_t \<Rightarrow> u64 \<Rightarrow> nat \<Rightarrow> unw_state \<Rightarrow> (unw_state, unit) call" where
  "apply_reg fuel rs cfa i = (\<lambda>(c, M).
     case sl_where (rs_reg rs ! i) of
       DWARF_WHERE_UNDEF \<Rightarrow> ret () (c\<lparr>c_loc := (c_loc c)[i := DWARF_NULL_LOC]\<rparr>, M)
     | DWARF_WHERE_SAME \<Rightarrow> ret () (c, M)
     | DWARF_WHERE_CFAREL \<Rightarrow> ret () (c\<lparr>c_loc := (c_loc c)[i := cfa + sl_val (rs_reg rs ! i)]\<rparr>, M)
     | DWARF_WHERE_REG \<Rightarrow>
         cbind (reads (dwarf_to_unw_regnum (sl_val (rs_reg rs ! i))) (c, M)) (\<lambda>r (c, M).
         ret () (c\<lparr>c_loc := (c_loc c)[i := DWARF_REG_LOC c (int r)]\<rparr>, M))
     | DWARF_WHERE_EXPR \<Rightarrow>
         cbind (reads (eval_location_expr fuel M c (sl_val (rs_reg rs ! i))) (c, M)) (\<lambda>(l, M) (c, _).
         ret () (c\<lparr>c_loc := (c_loc c)[i := l]\<rparr>, M)))"

primrec apply_regs ::
  "nat \<Rightarrow> dwarf_reg_state_t \<Rightarrow> u64 \<Rightarrow> nat list \<Rightarrow> unw_state \<Rightarrow> (unw_state, unit) call" where
  "apply_regs fuel rs cfa [] s = ret () s"
| "apply_regs fuel rs cfa (i # is) s =
     cbind (apply_reg fuel rs cfa i s) (\<lambda>_ s. apply_regs fuel rs cfa is s)"

text \<open>The new instruction pointer: 0 when the return address has no location.\<close>

definition apply_ip :: "unw_state \<Rightarrow> (unw_state, unit) call" where
  "apply_ip = (\<lambda>(c, M).
     let col = unat (c_ret_addr_column c) in
     if \<not> col < length (c_loc c) then UB
     else if DWARF_IS_NULL_LOC (c_loc c ! col) then ret () (c\<lparr>c_ip := 0\<rparr>, M)
     else cbind (reads (dwarf_get M c (c_loc c ! col)) (c, M)) (\<lambda>(ip, M) (c, _).
       ret () (c\<lparr>c_ip := ip\<rparr>, M)))"

definition apply_reg_state ::
  "nat \<Rightarrow> dwarf_reg_state_t \<Rightarrow> unw_state \<Rightarrow> (unw_state, unit) call" where
  "apply_reg_state fuel rs = (\<lambda>(c, M).
     let prev_ip = c_ip c; prev_cfa = c_cfa c in
     cbind (reads (apply_cfa fuel M c rs) (c, M)) (\<lambda>(cfa, M) (c, _).
     cbind (apply_regs fuel rs cfa [0..<DWARF_NUM_PRESERVED_REGS] (c, M)) (\<lambda>_ (c, M).
     cbind (apply_ip (c\<lparr>c_cfa := cfa\<rparr>, M)) (\<lambda>_ (c, M).
     if c_ip c = prev_ip \<and> c_cfa c = prev_cfa then throw UNW_EBADFRAME (c, M)
     else if c_stash_frames c then
       cbind (reads (tdep_stash_frame c rs) (c, M)) (\<lambda>c (_, M). ret () (c, M))
     else ret () (c, M)))))"

section \<open>What a register state describes\<close>

text \<open>
  A register state without expressions: the CFA is a register plus an offset, every register is
  unsaved, unchanged, saved relative to the CFA or saved in another register.
\<close>

definition simple_rules :: "dwarf_reg_state_t \<Rightarrow> bool" where
  "simple_rules rs = (length (rs_reg rs) = 19 \<and>
     sl_where (rs_reg rs ! 17) = DWARF_WHERE_REG \<and> unat (sl_val (rs_reg rs ! 17)) \<le> 16 \<and>
     (\<forall>l\<in>set (take 17 (rs_reg rs)). sl_where l \<noteq> DWARF_WHERE_EXPR \<and>
        (sl_where l = DWARF_WHERE_REG \<longrightarrow> unat (sl_val l) \<le> 16)))"

text \<open>The location of a register in the caller, from its rule and its location in the callee.\<close>

definition rule_loc :: "cursor \<Rightarrow> u64 \<Rightarrow> dwarf_save_loc_t \<Rightarrow> dwarf_loc_t \<Rightarrow> dwarf_loc_t" where
  "rule_loc c cfa rule old =
     (case sl_where rule of
        DWARF_WHERE_UNDEF \<Rightarrow> 0
      | DWARF_WHERE_SAME \<Rightarrow> old
      | DWARF_WHERE_CFAREL \<Rightarrow> cfa + sl_val rule
      | DWARF_WHERE_REG \<Rightarrow> x86_64_r_uc_addr (c_uc c) (int (unat (sl_val rule)))
      | DWARF_WHERE_EXPR \<Rightarrow> old)"

definition caller_locs :: "cursor \<Rightarrow> u64 \<Rightarrow> dwarf_reg_state_t \<Rightarrow> dwarf_loc_t list" where
  "caller_locs c cfa rs = map2 (rule_loc c cfa) (take 17 (rs_reg rs)) (c_loc c)"

text \<open>A location that can be read: not NULL and, when addresses are validated, not in page 0.\<close>

definition readable_loc :: "cursor \<Rightarrow> dwarf_loc_t \<Rightarrow> bool" where
  "readable_loc c l = (l \<noteq> 0 \<and> (c_validate c \<longrightarrow> PAGE_START l \<noteq> 0))"

lemma dwarf_get_readable:
  assumes "readable_loc c l"
  shows "\<exists>M'. dwarf_get M c l = Ok (read_word (m_mem M) l, M') \<and> m_mem M' = m_mem M"
proof -
  have "fst (validate_mem M l)" if "PAGE_START l \<noteq> 0"
    using that by (auto simp: validate_mem_def msync_validate_def Let_def split: prod.splits bool.splits)
  then have "\<exists>v M'. dwarf_get M c l = Ok (v, M')"
    using assms by (auto simp: readable_loc_def dwarf_get_def DWARF_IS_NULL_LOC_def access_mem_read_def
        split: prod.splits)
  then show ?thesis using dwarf_get_OkD by blast
qed

lemma readable_loc_cong: "c_validate c' = c_validate c \<Longrightarrow> readable_loc c' l = readable_loc c l"
  by (simp add: readable_loc_def)

lemma apply_reg_simple:
  assumes "simple_rules rs" "i < 17" "length (c_loc c) = 17"
  shows "apply_reg fuel rs cfa i (c, M) =
    ret () (c\<lparr>c_loc := (c_loc c)[i := rule_loc c cfa (rs_reg rs ! i) (c_loc c ! i)]\<rparr>, M)"
proof -
  have "rs_reg rs ! i \<in> set (take 17 (rs_reg rs))"
    using assms(1,2) by (auto simp: simple_rules_def in_set_conv_nth intro!: exI [of _ i])
  then have "sl_where (rs_reg rs ! i) \<noteq> DWARF_WHERE_EXPR"
    "sl_where (rs_reg rs ! i) = DWARF_WHERE_REG \<Longrightarrow> unat (sl_val (rs_reg rs ! i)) \<le> 16"
    using assms(1) by (auto simp: simple_rules_def)
  then show ?thesis
    by (cases "sl_where (rs_reg rs ! i)")
       (simp_all add: apply_reg_def rule_loc_def DWARF_NULL_LOC_def DWARF_REG_LOC_def
         dwarf_to_unw_regnum_small)
qed

lemma rule_loc_cong: "c_uc c' = c_uc c \<Longrightarrow> rule_loc c' cfa l x = rule_loc c cfa l x"
  by (simp add: rule_loc_def split: dwarf_where_t.splits)

lemma apply_regs_prefix:
  assumes "simple_rules rs" "n \<le> 17" "length (c_loc c) = 17"
  shows "apply_regs fuel rs cfa [n..<17] (c, M) = ret () (c\<lparr>c_loc := take n (c_loc c) @
     map (\<lambda>i. rule_loc c cfa (rs_reg rs ! i) (c_loc c ! i)) [n..<17]\<rparr>, M)"
  using assms(2,3)
proof (induction "17 - n" arbitrary: n c)
  case 0
  then show ?case by simp
next
  case (Suc k)
  then have n: "n < 17" by simp
  let ?c = "c\<lparr>c_loc := (c_loc c)[n := rule_loc c cfa (rs_reg rs ! n) (c_loc c ! n)]\<rparr>"
  have tk: "take (Suc n) (c_loc ?c) = take n (c_loc c) @ [rule_loc c cfa (rs_reg rs ! n) (c_loc c ! n)]"
    using n Suc.prems by (simp add: take_Suc_conv_app_nth)
  have mp: "map (\<lambda>i. rule_loc ?c cfa (rs_reg rs ! i) (c_loc ?c ! i)) [Suc n..<17] =
      map (\<lambda>i. rule_loc c cfa (rs_reg rs ! i) (c_loc c ! i)) [Suc n..<17]"
    by (auto simp: rule_loc_cong [of ?c c])
  have "apply_regs fuel rs cfa [n..<17] (c, M) = apply_regs fuel rs cfa [Suc n..<17] (?c, M)"
    using n Suc.prems by (simp add: upt_conv_Cons [of n 17] apply_reg_simple [OF assms(1) n])
  also have "\<dots> = ret () (?c\<lparr>c_loc := take (Suc n) (c_loc ?c) @
     map (\<lambda>i. rule_loc ?c cfa (rs_reg rs ! i) (c_loc ?c ! i)) [Suc n..<17]\<rparr>, M)"
    by (rule Suc.hyps(1)) (use n Suc in simp_all)
  finally show ?case unfolding tk mp using n by (simp add: upt_conv_Cons [of n 17])
qed

lemma caller_locs_map:
  assumes "simple_rules rs" "length (c_loc c) = 17"
  shows "caller_locs c cfa rs = map (\<lambda>i. rule_loc c cfa (rs_reg rs ! i) (c_loc c ! i)) [0..<17]"
  using assms by (auto simp: caller_locs_def simple_rules_def intro!: nth_equalityI)

lemma apply_regs_simple:
  assumes "simple_rules rs" "length (c_loc c) = 17"
  shows "apply_regs fuel rs cfa [0..<DWARF_NUM_PRESERVED_REGS] (c, M) =
    ret () (c\<lparr>c_loc := caller_locs c cfa rs\<rparr>, M)"
  using apply_regs_prefix [OF assms(1), of 0 c fuel cfa M] assms(2)
  by (simp add: DWARF_NUM_PRESERVED_REGS_def caller_locs_map [OF assms])

lemma unw_get_reg_RSP: "unw_get_reg M c 7 = Ok (c_cfa c, M)"
  by (simp add: unw_get_reg_def tdep_access_reg_read_def)

lemma apply_cfa_simple:
  assumes "simple_rules rs" "unw_get_reg M c (int (unat (sl_val (rs_reg rs ! 17)))) = Ok (base, M')"
  shows "apply_cfa fuel M c rs = Ok (base + sl_val (rs_reg rs ! 18), M')"
proof (cases "sl_val (rs_reg rs ! 17) = 7")
  case True
  then have "base = c_cfa c" "M' = M" using assms(2) unw_get_reg_RSP [of M c] by simp_all
  with True assms(1) show ?thesis
    by (simp add: apply_cfa_def simple_rules_def column_defs dwarf_to_unw_regnum_small unw_get_reg_RSP)
next
  case False
  with assms show ?thesis
    by (simp add: apply_cfa_def simple_rules_def column_defs dwarf_to_unw_regnum_small)
qed

text \<open>The cursor in the caller.\<close>

definition caller_cursor :: "memory \<Rightarrow> cursor \<Rightarrow> u64 \<Rightarrow> dwarf_reg_state_t \<Rightarrow> cursor" where
  "caller_cursor m c cfa rs =
     (let ra = caller_locs c cfa rs ! unat (c_ret_addr_column c) in
      c\<lparr>c_loc := caller_locs c cfa rs, c_cfa := cfa, c_ip := (if ra = 0 then 0 else read_word m ra)\<rparr>)"

lemma apply_reg_state_simple:
  assumes rules: "simple_rules rs" and c: "length (c_loc c) = 17" "unat (c_ret_addr_column c) < 17"
    and base: "unw_get_reg M c (int (unat (sl_val (rs_reg rs ! 17)))) = Ok (base, M1)"
    and cfa: "cfa = base + sl_val (rs_reg rs ! 18)"
    and ra: "ra = caller_locs c cfa rs ! unat (c_ret_addr_column c)" "ra = 0 \<or> readable_loc c ra"
    and c': "c' = caller_cursor (m_mem M) c cfa rs"
  shows "\<exists>M'. m_mem M' = m_mem M \<and> apply_reg_state fuel rs (c, M) =
    (if c_ip c' = c_ip c \<and> cfa = c_cfa c then throw UNW_EBADFRAME (c', M')
     else if c_stash_frames c then cbind (reads (tdep_stash_frame c' rs) (c', M')) (\<lambda>c (_, M). ret () (c, M))
     else ret () (c', M'))"
proof -
  obtain M2 where M2: "apply_cfa fuel M c rs = Ok (cfa, M2)" "m_mem M2 = m_mem M"
    using apply_cfa_simple [OF rules base, of fuel] unw_get_reg_OkD [OF base] cfa by auto
  let ?c1 = "c\<lparr>c_loc := caller_locs c cfa rs\<rparr>"
  have len: "length (caller_locs c cfa rs) = 17" using rules c(1) by (simp add: caller_locs_map)
  obtain M3 where M3: "apply_ip (?c1\<lparr>c_cfa := cfa\<rparr>, M2) = ret () (c', M3)" "m_mem M3 = m_mem M"
  proof (cases "ra = 0")
    case True
    then show ?thesis using that [of M2] M2(2) len c ra(1)
      by (simp add: apply_ip_def DWARF_IS_NULL_LOC_def c' caller_cursor_def)
  next
    case False
    then have "readable_loc (?c1\<lparr>c_cfa := cfa\<rparr>) ra" using ra(2) by (simp add: readable_loc_def)
    from dwarf_get_readable [OF this, of M2] obtain M3 where
      "dwarf_get M2 (?c1\<lparr>c_cfa := cfa\<rparr>) ra = Ok (read_word (m_mem M2) ra, M3)" "m_mem M3 = m_mem M2" by blast
    then show ?thesis using that [of M3] M2(2) len c ra(1) False
      by (simp add: apply_ip_def DWARF_IS_NULL_LOC_def c' caller_cursor_def)
  qed
  have "c_cfa c' = cfa" "c_stash_frames c' = c_stash_frames c" by (simp_all add: c' caller_cursor_def Let_def)
  then have "apply_reg_state fuel rs (c, M) =
    (if c_ip c' = c_ip c \<and> cfa = c_cfa c then throw UNW_EBADFRAME (c', M3)
     else if c_stash_frames c then cbind (reads (tdep_stash_frame c' rs) (c', M3)) (\<lambda>c (_, M). ret () (c, M))
     else ret () (c', M3))"
    by (simp add: apply_reg_state_def M2(1) apply_regs_simple [OF rules c(1)] M3(1))
  with M3(2) show ?thesis by blast
qed

section \<open>Properties\<close>

text \<open>C14: \<open>apply_reg_state\<close> moves the cursor to the calling frame: for a register state without
  expressions the new CFA is the base register plus the offset, register \<open>i\<close> is found where its rule
  says (nowhere, where it was, at CFA plus offset, in a register of the context), and the new
  instruction pointer is the word at the location of the return address, or 0 when it has none. The
  call fails exactly when neither the instruction pointer nor the CFA moved, and memory is never
  written.\<close>

theorem apply_reg_state_correct:
  assumes "simple_rules rs" "length (c_loc c) = 17" "unat (c_ret_addr_column c) < 17"
    "unw_get_reg M c (int (unat (sl_val (rs_reg rs ! 17)))) = Ok (base, M1)"
    "cfa = base + sl_val (rs_reg rs ! 18)"
    "locs = map2 (rule_loc c cfa) (take 17 (rs_reg rs)) (c_loc c)"
    "ra = locs ! unat (c_ret_addr_column c)" "ra = 0 \<or> readable_loc c ra" "\<not> c_stash_frames c"
    "ip = (if ra = 0 then 0 else read_word (m_mem M) ra)"
  shows "\<exists>M'. m_mem M' = m_mem M \<and> apply_reg_state fuel rs (c, M) =
    (if ip = c_ip c \<and> cfa = c_cfa c
     then throw UNW_EBADFRAME (c\<lparr>c_loc := locs, c_cfa := cfa, c_ip := ip\<rparr>, M')
     else ret () (c\<lparr>c_loc := locs, c_cfa := cfa, c_ip := ip\<rparr>, M'))"
proof -
  have locs: "locs = caller_locs c cfa rs" by (simp add: assms(6) caller_locs_def)
  have c': "caller_cursor (m_mem M) c cfa rs = c\<lparr>c_loc := locs, c_cfa := cfa, c_ip := ip\<rparr>"
    using assms(7,10) by (simp add: caller_cursor_def locs)
  have ra: "ra = caller_locs c cfa rs ! unat (c_ret_addr_column c)" using assms(7) locs by simp
  obtain M' where "m_mem M' = m_mem M" "apply_reg_state fuel rs (c, M) =
    (if ip = c_ip c \<and> cfa = c_cfa c
     then throw UNW_EBADFRAME (caller_cursor (m_mem M) c cfa rs, M')
     else ret () (caller_cursor (m_mem M) c cfa rs, M'))"
    using apply_reg_state_simple [OF assms(1-5) ra assms(8) refl, of fuel] assms(9) c' by auto
  then show ?thesis unfolding c' by blast
qed

text \<open>The rules of a function entered by a call: CFA is RSP + 8 and the return address is at CFA - 8.\<close>

definition entry_rules :: dwarf_reg_state_t where
  "entry_rules = zero_reg_state\<lparr>rs_reg := replicate 16 \<lparr>sl_where = DWARF_WHERE_SAME, sl_val = 0\<rparr> @
     [\<lparr>sl_where = DWARF_WHERE_CFAREL, sl_val = - 8\<rparr>, \<lparr>sl_where = DWARF_WHERE_REG, sl_val = 7\<rparr>,
      \<lparr>sl_where = DWARF_WHERE_UNDEF, sl_val = 8\<rparr>]\<rparr>"

definition entry_cursor :: cursor where
  "entry_cursor = cursor0\<lparr>c_cfa := 0x8000, c_ip := 0x1234, c_ret_addr_column := 16\<rparr>"

lemma entry_rules_reg:
  "rs_reg entry_rules ! 17 = \<lparr>sl_where = DWARF_WHERE_REG, sl_val = 7\<rparr>"
  "rs_reg entry_rules ! 18 = \<lparr>sl_where = DWARF_WHERE_UNDEF, sl_val = 8\<rparr>"
  "take 17 (rs_reg entry_rules) =
     replicate 16 \<lparr>sl_where = DWARF_WHERE_SAME, sl_val = 0\<rparr> @ [\<lparr>sl_where = DWARF_WHERE_CFAREL, sl_val = - 8\<rparr>]"
  by (simp_all add: entry_rules_def nth_append)

lemma entry_rules_simple: "simple_rules entry_rules"
  unfolding simple_rules_def entry_rules_reg by (auto simp: entry_rules_def)

theorem apply_reg_state_correct_witness:
  "\<exists>c' M'. apply_reg_state 0 entry_rules (entry_cursor, machine0) = ret () (c', M') \<and>
     c_cfa c' = 0x8008 \<and> c_ip c' = read_word (m_mem machine0) 0x8000"
proof -
  let ?locs = "map2 (rule_loc entry_cursor 0x8008) (take 17 (rs_reg entry_rules)) (c_loc entry_cursor)"
  have ra: "?locs ! unat (c_ret_addr_column entry_cursor) = 0x8000"
    unfolding entry_rules_reg
    by (simp add: entry_cursor_def cursor0_def rule_loc_def nth_append)
  have "\<exists>M'. m_mem M' = m_mem machine0 \<and> apply_reg_state 0 entry_rules (entry_cursor, machine0) =
    (if read_word (m_mem machine0) 0x8000 = c_ip entry_cursor \<and> 0x8008 = c_cfa entry_cursor
     then throw UNW_EBADFRAME (entry_cursor\<lparr>c_loc := ?locs, c_cfa := 0x8008,
       c_ip := read_word (m_mem machine0) 0x8000\<rparr>, M')
     else ret () (entry_cursor\<lparr>c_loc := ?locs, c_cfa := 0x8008,
       c_ip := read_word (m_mem machine0) 0x8000\<rparr>, M'))"
    by (rule apply_reg_state_correct [OF entry_rules_simple, where base = "0x8000" and ra = "0x8000"
          and ?M1.0 = machine0])
       (use ra in \<open>simp_all add: entry_rules_reg unw_get_reg_RSP entry_cursor_def cursor0_def readable_loc_def\<close>)
  then show ?thesis by (auto simp: entry_cursor_def)
qed

text \<open>A successful \<open>apply_reg_state\<close> makes progress, whatever the rules.\<close>

lemma apply_reg_state_moves:
  assumes "apply_reg_state fuel rs (c, M) = Ok (Ret (), c', M')"
  shows "c_ip c' \<noteq> c_ip c \<or> c_cfa c' \<noteq> c_cfa c"
proof -
  have stash: "c_ip d' = c_ip d \<and> c_cfa d' = c_cfa d" if "tdep_stash_frame d rs = Ok d'" for d d'
    using that by (auto simp: tdep_stash_frame_def Let_def split: if_splits)
  show ?thesis using assms
    by (auto simp: apply_reg_state_def Let_def split: prod.splits if_splits dest: stash)
qed

end
