(* ===== verification/Unw_Step.thy ===== *)
theory Unw_Step
  imports Proc_Search Dwarf_Frame
begin

text \<open>
  Stepping a cursor to the calling frame: \<open>fetch_proc_info\<close>, \<open>put_unwind_info\<close> and
  \<open>dwarf_find_save_locs\<close> of \<^verbatim>\<open>Gparser.c\<close>, \<^verbatim>\<open>Gput_dynamic_unwind_info.c\<close>, \<^verbatim>\<open>dwarf_Gstep.c\<close>,
  \<^verbatim>\<open>Gget_proc_info.c\<close>, the signal frames of \<^verbatim>\<open>Gos-freebsd.c\<close> and \<open>unw_step\<close> of \<^verbatim>\<open>Gstep.c\<close>.

  The library state holds the machine, the kernel memory allocator with the two object pools, the
  dynamic registrations and the kernel linker. Debugging output is left out; the three calls of
  \<open>unw_step\<close> that only feed a \<open>printf\<close> change nothing.
\<close>

section \<open>The library state\<close>

record unw_lib =
  l_machine :: machine
  l_env :: kernel_env
  l_rs_pool :: mempool
  l_cie_pool :: mempool
  l_dyn :: dyn_state
  l_linker :: linker

type_synonym lib_state = "cursor \<times> unw_lib"

text \<open>A call on the cursor and the machine alone.\<close>

definition on_machine :: "(unw_state \<Rightarrow> (unw_state, 'a) call) \<Rightarrow> lib_state \<Rightarrow> (lib_state, 'a) call" where
  "on_machine f = (\<lambda>(c, L).
     obind (f (c, l_machine L)) (\<lambda>(r, c, M). Ok (r, c, L\<lparr>l_machine := M\<rparr>)))"

section \<open>Procedure information of a cursor\<close>

text \<open>
  The calls of \<open>fetch_proc_info\<close> to \<open>unwi_find_dynamic_proc_info\<close> and \<open>tdep_find_proc_info\<close>: the reply of
  the one that decided, whether it was the dynamic one, and the state.
\<close>

definition lookup_proc_info ::
  "nat \<Rightarrow> u64 \<Rightarrow> bool \<Rightarrow> lib_state \<Rightarrow> (unit reply \<times> bool \<times> lib_state) outcome" where
  "lookup_proc_info fuel ip need_unwind_info = (\<lambda>(c, L).
     let m = m_mem (l_machine L);
         put = (\<lambda>(pi, env, pool). (c\<lparr>c_pi := pi\<rparr>, L\<lparr>l_env := env, l_cie_pool := pool\<rparr>)) in
     obind (unwi_find_dynamic_proc_info fuel (l_dyn L) m ip need_unwind_info
              (zero_proc_info, l_env L, l_cie_pool L)) (\<lambda>(r, s).
     if r = Err UNW_ENOINFO
     then obind (dwarf_find_proc_info fuel (l_linker L) m ip need_unwind_info s) (\<lambda>(r, s). Ok (r, False, put s))
     else Ok (r, True, put s)))"

text \<open>
  The rest of \<open>fetch_proc_info\<close>. An error of the dynamic lookup other than \<open>UNW_ENOINFO\<close> is returned only
  at the end, after the cursor has been marked valid. The unwind information of a dynamic procedure
  is not a \<open>struct dwarf_cie_info\<close>, so reading its \<open>signal_frame\<close> is undefined.
\<close>

definition accept_proc_info :: "bool \<Rightarrow> unit reply \<Rightarrow> bool \<Rightarrow> lib_state \<Rightarrow> (lib_state, unit) call" where
  "accept_proc_info need_unwind_info r dynamic = (\<lambda>(c, L).
     if r \<noteq> Ret () \<and> \<not> dynamic then Ok (r, c, L)
     else if pi_format (c_pi c) = UNW_INFO_FORMAT_ARM_EXIDX then throw UNW_ENOINFO (c, L)
     else
       (let c = c\<lparr>c_pi_valid := True, c_pi_is_dynamic := dynamic\<rparr> in
        if need_unwind_info then
          (case pi_unwind_info (c_pi c) of
             UI_NULL \<Rightarrow> Ok (r, c, L)
           | UI_cie _ dci \<Rightarrow> Ok (r, c\<lparr>c_use_prev_instr := \<not> dci_signal_frame dci\<rparr>, L)
           | UI_dyn _ \<Rightarrow> UB)
        else Ok (r, c, L)))"

definition fetch_proc_info :: "nat \<Rightarrow> u64 \<Rightarrow> bool \<Rightarrow> lib_state \<Rightarrow> (lib_state, unit) call" where
  "fetch_proc_info fuel ip need_unwind_info = (\<lambda>(c, L).
     let ip = (if c_use_prev_instr c then ip - 1 else ip) in
     if c_pi_valid c \<and> \<not> need_unwind_info then ret () (c, L)
     else
       obind (lookup_proc_info fuel ip need_unwind_info (c\<lparr>c_pi := zero_proc_info\<rparr>, L)) (\<lambda>(r, dynamic, s).
       accept_proc_info need_unwind_info r dynamic s))"

text \<open>\<open>unwi_put_dynamic_unwind_info\<close> of the local build: \<open>dwarf_put_unwind_info\<close> or nothing.\<close>

definition unwi_put_dynamic_unwind_info :: "pi_state \<Rightarrow> pi_state" where
  "unwi_put_dynamic_unwind_info s =
     (case pi_format (fst s) of
        UNW_INFO_FORMAT_TABLE \<Rightarrow> dwarf_put_unwind_info s
      | UNW_INFO_FORMAT_REMOTE_TABLE \<Rightarrow> dwarf_put_unwind_info s
      | _ \<Rightarrow> s)"

text \<open>Releasing an object that is not from the pool has no defined meaning.\<close>

definition put_unwind_info :: "lib_state \<Rightarrow> lib_state outcome" where
  "put_unwind_info = (\<lambda>(c, L).
     let pool = (l_env L, l_cie_pool L) in
     if \<not> c_pi_valid c then Ok (c, L)
     else if c_pi_is_dynamic c then
       (let (pi, env, p) = unwi_put_dynamic_unwind_info (c_pi c, pool) in
        Ok (c\<lparr>c_pi := pi\<rparr>, L\<lparr>l_env := env, l_cie_pool := p\<rparr>))
     else case pi_unwind_info (c_pi c) of
       UI_NULL \<Rightarrow> Ok (c, L)
     | UI_cie obj _ \<Rightarrow>
         (let (env, p) = pool_release pool obj in
          Ok (c\<lparr>c_pi := (c_pi c)\<lparr>pi_unwind_info := UI_NULL\<rparr>\<rparr>, L\<lparr>l_env := env, l_cie_pool := p\<rparr>))
     | UI_dyn _ \<Rightarrow> UB)"

definition dwarf_make_proc_info :: "nat \<Rightarrow> lib_state \<Rightarrow> (lib_state, unit) call" where
  "dwarf_make_proc_info fuel = (\<lambda>(c, L). fetch_proc_info fuel (c_ip c) False (c, L))"

definition unw_get_proc_info :: "nat \<Rightarrow> lib_state \<Rightarrow> (lib_state, unw_proc_info_t) call" where
  "unw_get_proc_info fuel s =
     obind (dwarf_make_proc_info fuel s) (\<lambda>(r, c, L).
     case r of
       Err _ \<Rightarrow> ret (zero_proc_info\<lparr>start_ip := c_ip c, end_ip := c_ip c + 1\<rparr>) (c, L)
     | Ret _ \<Rightarrow> ret (c_pi c) (c, L))"

section \<open>Finding the saved registers\<close>

definition lib_state_record :: "nat \<Rightarrow> lib_state \<Rightarrow> (lib_state, dwarf_state_record_t) call" where
  "lib_state_record fuel = (\<lambda>(c, L).
     obind (create_state_record_for fuel (m_mem (l_machine L)) c (c_ip c) (l_env L, l_rs_pool L))
       (\<lambda>(e, sr, c, env, pool).
     let s = (c, L\<lparr>l_env := env, l_rs_pool := pool\<rparr>) in
     case e of None \<Rightarrow> ret sr s | Some e \<Rightarrow> throw e s))"

definition uncached_dwarf_find_save_locs :: "nat \<Rightarrow> lib_state \<Rightarrow> (lib_state, unit) call" where
  "uncached_dwarf_find_save_locs fuel s =
     cbind (fetch_proc_info fuel (c_ip (fst s)) True s) (\<lambda>_ s.
     cbind (lib_state_record fuel s) (\<lambda>sr s.
     cbind (on_machine (apply_reg_state fuel (rs_current sr)) s) (\<lambda>_ s.
     obind (put_unwind_info s) (ret ()))))"

text \<open>The first statement returns; the cached lookup behind it is never reached.\<close>

definition dwarf_find_save_locs :: "nat \<Rightarrow> lib_state \<Rightarrow> (lib_state, unit) call" where
  "dwarf_find_save_locs fuel s = uncached_dwarf_find_save_locs fuel s"

text \<open>A return of \<open>Ret ()\<close> is the value 1.\<close>

definition dwarf_step :: "nat \<Rightarrow> lib_state \<Rightarrow> (lib_state, unit) call" where
  "dwarf_step fuel s =
     cbind (dwarf_find_save_locs fuel s) (\<lambda>_ (c, L). ret () (c\<lparr>c_pi_valid := False\<rparr>, L))"

section \<open>Frames without unwind information\<close>

definition is_plt_entry :: "unw_state \<Rightarrow> bool \<times> unw_state" where
  "is_plt_entry = (\<lambda>(c, M).
     case access_mem_read M c (c_ip c) of
       Ok (w0, M) \<Rightarrow>
         (case access_mem_read M c (c_ip c + 8) of
            Ok (w1, M) \<Rightarrow>
              (w0 AND 0xffff = 0x25ff \<and> drop_bit 48 w0 AND 0xff = 0x68 \<and> drop_bit 24 w1 AND 0xff = 0xe9, c, M)
          | _ \<Rightarrow> (False, c, M))
     | _ \<Rightarrow> (False, c, M))"

text \<open>The code words of the \<open>sigreturn\<close> trampoline, then those in front of a system call's return.\<close>

definition signal_words :: "cursor \<Rightarrow> machine \<Rightarrow> (machine, sigcontext_format_t) call" where
  "signal_words c M =
     cbind (reads (access_mem_read M c (c_ip c)) M) (\<lambda>(w0, M) _.
     cbind (reads (access_mem_read M c (c_ip c + 8)) M) (\<lambda>(w1, M) _.
     cbind (reads (access_mem_read M c (c_ip c + 16)) M) (\<lambda>(w2, M) _.
     if w0 = 0x48006a10247c8d48 \<and> w1 = 0x050f000001a1c0c7 \<and> w2 AND 0xffffff = 0xfdebf4
     then ret X86_64_SCF_FREEBSD_SIGFRAME M
     else
       cbind (reads (access_mem_read M c (c_ip c - 5)) M) (\<lambda>(b0, M) _.
       ret (if b0 AND 0xffffffffffffff = 0x050fca89490000 \<or> b0 AND 0xffffffffff = 0x050fca8949
            then X86_64_SCF_FREEBSD_SYSCALL else X86_64_SCF_NONE) M))))"

definition unw_is_signal_frame :: "unw_state \<Rightarrow> bool \<times> unw_state" where
  "unw_is_signal_frame = (\<lambda>(c, M).
     let c = c\<lparr>c_sigcontext_format := X86_64_SCF_NONE\<rparr> in
     case signal_words c M of
       Ok (Ret f, M) \<Rightarrow> (f \<noteq> X86_64_SCF_NONE, c\<lparr>c_sigcontext_format := f\<rparr>, M)
     | Ok (Err _, M) \<Rightarrow> (False, c, M)
     | _ \<Rightarrow> (False, c, M))"

text \<open>\<open>offsetof (struct sigframe, sf_uc)\<close>, the \<open>SIGF_UC\<close> of the trampoline.\<close>

definition SIGF_UC :: u64 where "SIGF_UC = 0x10"

definition unw_handle_signal_frame :: "unw_state \<Rightarrow> (unw_state, int) call" where
  "unw_handle_signal_frame = (\<lambda>(c, M).
     if c_sigcontext_format c = X86_64_SCF_FREEBSD_SIGFRAME then
       (let ucontext = c_cfa c + SIGF_UC; c = c\<lparr>c_sigcontext_addr := c_cfa c\<rparr> in
        cbind (reads (dwarf_get M c (ucontext + uc_mcontext_gregs ! RSP)) (c, M)) (\<lambda>(cfa, M) (c, _).
        ret 0 (c\<lparr>c_cfa := cfa, c_loc := map (\<lambda>off. ucontext + off) uc_mcontext_gregs\<rparr>, M)))
     else if c_sigcontext_format c = X86_64_SCF_FREEBSD_SYSCALL then
       (let c = c\<lparr>c_loc := (c_loc c)[RCX := c_loc c ! R10, RIP := c_cfa c]\<rparr> in
        cbind (reads (dwarf_get M c (c_loc c ! RIP)) (c, M)) (\<lambda>(ip, M) (c, _).
        ret 1 (c\<lparr>c_ip := ip, c_cfa := c_cfa c + 8\<rparr>, M)))
     else throw UNW_EBADFRAME (c, M))"

text \<open>
  The guess that RBP is a frame pointer, for \<open>rbp \<noteq> 0\<close>: the locations of RBP and RIP, and the frame
  record. The code reads the word at RBP twice, the second time without validation, to move the CFA.
\<close>

definition guess_frame ::
  "u64 \<Rightarrow> unw_state \<Rightarrow> (int reply \<times> dwarf_loc_t \<times> dwarf_loc_t \<times> unw_state) outcome" where
  "guess_frame rbp = (\<lambda>(c, M).
     let (r, M) = (case dwarf_get M c rbp of Ok (_, M) \<Rightarrow> (Ret 0, M) | Fail e \<Rightarrow> (Err e, M) | _ \<Rightarrow> (Ret 0, M));
         bad = (r \<noteq> Ret 0 \<or> rbp \<le> c_cfa c \<or> rbp - c_cfa c > 0x4000);
         c = c\<lparr>c_frame_info := (c_frame_info c)\<lparr>frame_type := UNW_X86_64_FRAME_GUESSED, cfa_reg_rsp := False,
               cfa_reg_offset := 8, rbp_cfa_offset := 0\<rparr>\<rparr> in
     case unw_get_reg M c (int RBP) of
       Ok (prev_rbp, M) \<Rightarrow>
         Ok (r, if bad then 0 else rbp, if bad then 0 else rbp + 8,
             c\<lparr>c_cfa := c_cfa c + (read_word (m_mem M) prev_rbp - prev_rbp)\<rparr>, M)
     | _ \<Rightarrow> UB)"

definition null_locs :: "dwarf_loc_t list" where
  "null_locs = replicate DWARF_NUM_PRESERVED_REGS DWARF_NULL_LOC"

text \<open>
  The ways to go on without DWARF information. The value is what the variable \<open>ret\<close> holds afterwards,
  still the error of \<open>dwarf_step\<close> where nothing assigned it; \<open>None\<close> is the early \<open>return 0\<close>.
\<close>

definition step_without_dwarf :: "unw_state \<Rightarrow> (unw_state, int reply option) call" where
  "step_without_dwarf s =
     (let (signal, s) = unw_is_signal_frame s in
      if signal then
        obind (unw_handle_signal_frame s) (\<lambda>(r, s). ret (case r of Ret n \<Rightarrow> Some (Ret n) | Err _ \<Rightarrow> None) s)
      else
        (let (plt, c, M) = is_plt_entry s in
         if plt then
           ret (Some (Err UNW_ENOINFO)) (c\<lparr>c_frame_info := (c_frame_info c)\<lparr>cfa_reg_offset := 8, cfa_reg_rsp := True,
                         frame_type := UNW_X86_64_FRAME_STANDARD\<rparr>,
                       c_loc := (c_loc c)[RIP := c_cfa c], c_cfa := c_cfa c + 8\<rparr>, M)
         else if DWARF_IS_NULL_LOC (c_loc c ! RBP) then ret (Some (Err UNW_ENOINFO)) (c\<lparr>c_loc := null_locs\<rparr>, M)
         else
           cbind (reads (dwarf_get M c (c_loc c ! RBP)) (c, M)) (\<lambda>(rbp, M) (c, _).
           if rbp = 0 then ret (Some (Ret 0)) (c\<lparr>c_loc := null_locs\<rparr>, M)
           else obind (guess_frame rbp (c, M)) (\<lambda>(r, rbp_loc, rip_loc, c, M).
             ret (Some r) (c\<lparr>c_loc := null_locs[RBP := rbp_loc, RSP := DWARF_NULL_LOC, RIP := rip_loc]\<rparr>, M)))))"

text \<open>The end of that part: the new instruction pointer and the check for progress.\<close>

definition finish_step :: "int reply \<Rightarrow> u64 \<Rightarrow> u64 \<Rightarrow> unw_state \<Rightarrow> (unw_state, int) call" where
  "finish_step r prev_ip prev_cfa = (\<lambda>(c, M).
     let c = c\<lparr>c_ret_addr_column := of_nat RIP\<rparr> in
     if DWARF_IS_NULL_LOC (c_loc c ! RBP) then ret 0 (c, M)
     else
       cbind (if DWARF_IS_NULL_LOC (c_loc c ! RIP) then ret r (c\<lparr>c_ip := 0\<rparr>, M)
              else cbind (reads (dwarf_get M c (c_loc c ! RIP)) (c, M)) (\<lambda>(ip, M) (c, _).
                ret (Ret 1) (c\<lparr>c_ip := ip\<rparr>, M))) (\<lambda>r (c, M).
       if c_ip c = prev_ip \<and> c_cfa c = prev_cfa then throw UNW_EBADFRAME (c, M) else Ok (r, c, M)))"

section \<open>\<open>unw_step\<close>\<close>

definition unw_step :: "nat \<Rightarrow> lib_state \<Rightarrow> (lib_state, int) call" where
  "unw_step fuel = (\<lambda>(c, L).
     let val = c_validate c in
     obind (dwarf_step fuel (c\<lparr>c_validate := True, c_sigcontext_format := X86_64_SCF_NONE\<rparr>, L)) (\<lambda>(r, c, L).
     let c = c\<lparr>c_validate := val\<rparr> in
     case r of
       Ret _ \<Rightarrow>
         if DWARF_IS_NULL_LOC (c_loc c ! RBP) then ret 0 (c\<lparr>c_ip := 0\<rparr>, L) else ret 1 (c, L)
     | Err e \<Rightarrow>
         if e \<noteq> UNW_ENOINFO then throw e (c, L)
         else
           (let prev_ip = c_ip c; prev_cfa = c_cfa c; c = c\<lparr>c_validate := True\<rparr> in
            on_machine (\<lambda>s. cbind (step_without_dwarf s) (\<lambda>r s.
              case r of Some r \<Rightarrow> finish_step r prev_ip prev_cfa s | None \<Rightarrow> ret 0 s)) (c, L))))"

section \<open>What a step keeps\<close>

text \<open>The position of a cursor: what identifies the frame it stands at.\<close>

definition position :: "cursor \<Rightarrow> u64 \<times> u64" where
  "position c = (c_ip c, c_cfa c)"

lemma position_simps [simp]:
  "position (c\<lparr>c_loc := l\<rparr>) = position c" "position (c\<lparr>c_pi := p\<rparr>) = position c"
  "position (c\<lparr>c_pi_valid := b\<rparr>) = position c" "position (c\<lparr>c_pi_valid := b, c_pi_is_dynamic := b'\<rparr>) = position c"
  "position (c\<lparr>c_use_prev_instr := b\<rparr>) = position c" "position (c\<lparr>c_ret_addr_column := w\<rparr>) = position c"
  "position (c\<lparr>c_validate := b\<rparr>) = position c"
  "position (c\<lparr>c_validate := b, c_sigcontext_format := f\<rparr>) = position c"
  "position (c\<lparr>c_pi_valid := b, c_pi_is_dynamic := b', c_use_prev_instr := b''\<rparr>) = position c"
  by (simp_all add: position_def)

lemma apply_reg_cursor: "apply_reg fuel rs cfa i (c, M) = Ok (x, c', M') \<Longrightarrow> \<exists>l. c' = c\<lparr>c_loc := l\<rparr>"
proof -
  assume a: "apply_reg fuel rs cfa i (c, M) = Ok (x, c', M')"
  have same: "\<exists>l. c = c\<lparr>c_loc := l\<rparr>" by (rule exI [of _ "c_loc c"]) simp
  with a show ?thesis by (cases "sl_where (rs_reg rs ! i)") (auto simp: apply_reg_def cbind_eq_Ok simp del: ex_simps)
qed

lemma apply_regs_cursor: "apply_regs fuel rs cfa is (c, M) = Ok (x, c', M') \<Longrightarrow> \<exists>l. c' = c\<lparr>c_loc := l\<rparr>"
proof (induction "is" arbitrary: c M)
  case Nil
  then have "c' = c\<lparr>c_loc := c_loc c\<rparr>" by simp
  then show ?case by blast
next
  case (Cons i "is")
  from Cons.prems consider c1 M1 where "apply_reg fuel rs cfa i (c, M) = Ok (Ret (), c1, M1)"
      "apply_regs fuel rs cfa is (c1, M1) = Ok (x, c', M')"
    | e where "apply_reg fuel rs cfa i (c, M) = Ok (Err e, c', M')"
    by (auto simp: cbind_eq_Ok)
  then show ?case
  proof cases
    case 1
    then obtain l l' where "c1 = c\<lparr>c_loc := l\<rparr>" "c' = c1\<lparr>c_loc := l'\<rparr>"
      using Cons.IH [OF 1(2)] apply_reg_cursor [OF 1(1)] by blast
    then have "c' = c\<lparr>c_loc := l'\<rparr>" by simp
    then show ?thesis by blast
  next
    case 2
    then show ?thesis by (rule apply_reg_cursor)
  qed
qed

lemma dwarf_get_errors: "dwarf_get M c l = Fail e \<Longrightarrow> e = UNW_EBADREG \<or> e = UNW_EUNSPEC"
  by (auto simp: dwarf_get_def access_mem_read_def split: if_splits prod.splits)

lemma apply_ip_ENOINFO: "apply_ip s \<noteq> Ok (Err UNW_ENOINFO, s')"
  by (cases s) (auto simp: apply_ip_def Let_def cbind_eq_Ok split: if_splits dest: dwarf_get_errors)

lemma stash_not_Fail: "tdep_stash_frame c rs \<noteq> Fail e"
  by (auto simp: tdep_stash_frame_def obind_eq_Fail is_standard_frame_def stashable_def labs64_def
      defined_def Let_def split: if_splits dwarf_where_t.splits)

text \<open>An application that fails with \<open>UNW_ENOINFO\<close> has not moved the cursor.\<close>

lemma apply_reg_state_ENOINFO:
  assumes "apply_reg_state fuel rs (c, M) = Ok (Err UNW_ENOINFO, c', M')"
  shows "position c' = position c"
proof -
  from assms consider "c' = c"
    | cfa M1 where "apply_regs fuel rs cfa [0..<DWARF_NUM_PRESERVED_REGS] (c, M1) = Ok (Err UNW_ENOINFO, c', M')"
    by (auto simp: apply_reg_state_def Let_def cbind_eq_Ok apply_ip_ENOINFO stash_not_Fail split: prod.splits if_splits)
  then show ?thesis by cases (auto dest: apply_regs_cursor)
qed

text \<open>What procedure lookup leaves alone: the position, the register locations, the frame record and the machine.\<close>

definition keeps_frame :: "lib_state \<Rightarrow> lib_state \<Rightarrow> bool" where
  "keeps_frame = (\<lambda>(c, L) (c', L').
     position c' = position c \<and> c_loc c' = c_loc c \<and> c_validate c' = c_validate c \<and>
     c_frame_info c' = c_frame_info c \<and> l_machine L' = l_machine L)"

lemma keeps_frame_refl [simp]: "keeps_frame s s"
  by (auto simp: keeps_frame_def)

lemma keeps_frame_trans: "keeps_frame s s' \<Longrightarrow> keeps_frame s' s'' \<Longrightarrow> keeps_frame s s''"
  by (auto simp: keeps_frame_def)

lemma lookup_proc_info_keeps:
  assumes "lookup_proc_info fuel ip need s = Ok (r, dynamic, s')"
  shows "keeps_frame s s'"
  using assms
  by (cases s) (auto simp: lookup_proc_info_def keeps_frame_def Let_def split: prod.splits if_splits)

lemma accept_proc_info_keeps:
  assumes "accept_proc_info need r dynamic s = Ok (x, s')"
  shows "keeps_frame s s'"
  using assms
  by (cases s; cases "pi_unwind_info (c_pi (fst s))") (auto simp: accept_proc_info_def keeps_frame_def Let_def position_def split: if_splits)

lemma fetch_proc_info_keeps:
  assumes "fetch_proc_info fuel ip need s = Ok (x, s')"
  shows "keeps_frame s s'"
proof -
  obtain c L where s: "s = (c, L)" by (cases s)
  have "keeps_frame (c, L) (c\<lparr>c_pi := zero_proc_info\<rparr>, L)" by (simp add: keeps_frame_def)
  then show ?thesis using assms
    by (auto simp: s fetch_proc_info_def Let_def split: if_splits
        dest!: lookup_proc_info_keeps accept_proc_info_keeps intro: keeps_frame_trans)
qed

lemma parse_fde_cursor:
  assumes "parse_fde fuel m c ip sr pool = Ok (x, sr', c', pool')"
  shows "\<exists>w. c' = c\<lparr>c_ret_addr_column := w\<rparr>"
  using assms by (cases "pi_unwind_info (c_pi c)") (auto simp: parse_fde_def Let_def split: option.splits)

lemma create_state_record_cursor:
  assumes "create_state_record_for fuel m c ip pool = Ok (x, sr, c', pool')"
  shows "c' = c \<or> (\<exists>w. c' = c\<lparr>c_ret_addr_column := w\<rparr>)"
  using assms by (auto simp: create_state_record_for_def split: if_splits unw_dyn_info_format_t.splits dest: parse_fde_cursor)

lemma lib_state_record_keeps:
  assumes "lib_state_record fuel s = Ok (x, s')"
  shows "keeps_frame s s'"
proof -
  obtain c L where s: "s = (c, L)" by (cases s)
  from assms obtain e sr c' env pool where
      "create_state_record_for fuel (m_mem (l_machine L)) c (c_ip c) (l_env L, l_rs_pool L) = Ok (e, sr, c', env, pool)"
      "s' = (c', L\<lparr>l_env := env, l_rs_pool := pool\<rparr>)"
    by (auto simp: s lib_state_record_def Let_def split: option.splits)
  then show ?thesis by (auto simp: s keeps_frame_def dest: create_state_record_cursor)
qed

lemma on_machine_eq:
  "on_machine f (c, L) = Ok (x, c', L') \<longleftrightarrow>
    (\<exists>M. f (c, l_machine L) = Ok (x, c', M) \<and> L' = L\<lparr>l_machine := M\<rparr>)"
  by (auto simp: on_machine_def)

lemma put_unwind_info_position: "put_unwind_info (c, L) = Ok (c', L') \<Longrightarrow> position c' = position c"
  by (cases "pi_unwind_info (c_pi c)") (auto simp: put_unwind_info_def Let_def split: if_splits prod.splits)

text \<open>A DWARF step that fails for want of information leaves the cursor where it was; one that succeeds moves it.\<close>

lemma dwarf_step_position:
  assumes "dwarf_step fuel s = Ok (r, s')"
  shows "r = Err UNW_ENOINFO \<Longrightarrow> position (fst s') = position (fst s)"
    and "r = Ret () \<Longrightarrow> position (fst s') \<noteq> position (fst s)"
proof -
  have kp: "position (fst t') = position (fst t)" if "keeps_frame t t'" for t t'
    using that by (auto simp: keeps_frame_def)
  have f: "position (fst t') = position (fst t)"
    if "fetch_proc_info fuel ip True t = Ok (x, t')" for x ip t t' using fetch_proc_info_keeps [OF that] kp by blast
  have l: "position (fst t') = position (fst t)"
    if "lib_state_record fuel t = Ok (x, t')" for x t t' using lib_state_record_keeps [OF that] kp by blast
  have a1: "position (fst t') = position (fst t)"
    if "on_machine (apply_reg_state fuel rs) t = Ok (Err UNW_ENOINFO, t')" for rs t t'
    using that by (cases t) (auto simp: on_machine_def dest: apply_reg_state_ENOINFO)
  have a2: "position (fst t') \<noteq> position (fst t)"
    if "on_machine (apply_reg_state fuel rs) t = Ok (Ret (), t')" for rs t t'
    using that by (cases t) (auto simp: on_machine_def position_def dest: apply_reg_state_moves)
  have p: "position (fst t') = position (fst t)" if "put_unwind_info t = Ok t'" for t t'
    using that put_unwind_info_position by (cases t; cases t') fastforce
  have d: "cbind (cbind (fetch_proc_info fuel (c_ip (fst s)) True s) (\<lambda>_ t.
      cbind (lib_state_record fuel t) (\<lambda>sr u.
      cbind (on_machine (apply_reg_state fuel (rs_current sr)) u) (\<lambda>_ v.
      obind (put_unwind_info v) (ret ()))))) (\<lambda>_ (c, L). ret () (c\<lparr>c_pi_valid := False\<rparr>, L)) = Ok (r, s')"
    using assms unfolding dwarf_step_def dwarf_find_save_locs_def uncached_dwarf_find_save_locs_def .
  show "r = Err UNW_ENOINFO \<Longrightarrow> position (fst s') = position (fst s)"
    using d by (elim cbind_OkE) (auto dest!: f l a1 p)
  show "r = Ret () \<Longrightarrow> position (fst s') \<noteq> position (fst s)"
    using d by (elim cbind_OkE) (auto dest!: f l a2 p)
qed

section \<open>Progress\<close>

lemma finish_step_moves:
  assumes "finish_step r prev_ip prev_cfa (c, M) = Ok (Ret 1, c', M')"
  shows "(c_ip c', c_cfa c') \<noteq> (prev_ip, prev_cfa)"
  using assms by (auto simp: finish_step_def Let_def split: if_splits)

text \<open>C13: a step that reports a frame (the value 1) makes progress: the instruction pointer or the CFA of
  the cursor has changed, whether the frame came from unwind information, from a signal frame, a
  PLT stub or a guess. A loop over frames therefore never reports the same frame twice in a row.\<close>

theorem unw_step_progress:
  assumes "unw_step fuel (c, L) = Ok (Ret 1, c', L')"
  shows "c_ip c' \<noteq> c_ip c \<or> c_cfa c' \<noteq> c_cfa c"
proof -
  let ?c = "c\<lparr>c_validate := True, c_sigcontext_format := X86_64_SCF_NONE\<rparr>"
  from assms obtain r d K where d: "dwarf_step fuel (?c, L) = Ok (r, d, K)"
    by (auto simp: unw_step_def Let_def)
  note pos = dwarf_step_position [OF d, simplified]
  show ?thesis
  proof (cases r)
    case (Ret u)
    then show ?thesis using assms d pos(2)
      by (auto simp: unw_step_def Let_def position_def split: if_splits)
  next
    case (Err e)
    then have e: "e = UNW_ENOINFO" using assms d by (auto simp: unw_step_def Let_def split: if_splits)
    then have eq: "c_ip d = c_ip c" "c_cfa d = c_cfa c" using pos(1) Err by (auto simp: position_def)
    from assms d Err e obtain M where
      "cbind (step_without_dwarf (d\<lparr>c_validate := True\<rparr>, l_machine K)) (\<lambda>r s.
         case r of Some r \<Rightarrow> finish_step r (c_ip d) (c_cfa d) s | None \<Rightarrow> ret 0 s) = Ok (Ret 1, c', M)"
      by (auto simp: unw_step_def Let_def on_machine_eq)
    then show ?thesis using eq by (auto split: option.splits dest: finish_step_moves)
  qed
qed

section \<open>Code without unwind information\<close>

text \<open>
  A file that has nothing on the code at \<open>ip\<close>: the code is elsewhere or has no symbol, or the file has
  no \<open>.eh_frame\<close> section (the kernel itself is never looked into).
\<close>

definition unlisted :: "linker \<Rightarrow> u64 \<Rightarrow> linker_file \<Rightarrow> bool" where
  "unlisted lk ip file = (elsewhere ip file \<or> Option.bind (lk_search_symbol lk ip) (lk_symbol_values lk) = None \<or>
     find_eh_frame_section file = None)"

definition no_unwind_info :: "unw_lib \<Rightarrow> u64 \<Rightarrow> bool" where
  "no_unwind_info L ip = (ds_first (l_dyn L) = 0 \<and>
     (\<exists>fs. walks_files (l_linker L) fs \<and> (\<forall>f\<in>set fs. unlisted (l_linker L) ip f)))"

text \<open>The address the unwind information of a cursor is looked up by.\<close>

definition lookup_ip :: "cursor \<Rightarrow> u64" where
  "lookup_ip c = (if c_use_prev_instr c then c_ip c - 1 else c_ip c)"

lemma run_files_unlisted:
  assumes "\<forall>f\<in>set fs. unlisted lk ip f" "pi_gp (cb_pi cb) = 0"
  shows "run_files fs (dwarf_callback fuel lk m ip need) cb = Ok (0, cb)"
proof -
  have "dwarf_callback fuel lk m ip need f cb = Ok (0, cb)" if "unlisted lk ip f" for f
    using that assms(2) by (auto simp: dwarf_callback_def unlisted_def elsewhere_def Let_def split: option.splits)
  with assms(1) show ?thesis by (induction fs) auto
qed

lemma find_proc_info_unlisted:
  assumes "walks_files lk fs" "\<forall>f\<in>set fs. unlisted lk ip f"
  shows "dwarf_find_proc_info fuel lk m ip need (zero_proc_info, pool) = throw UNW_ENOINFO (zero_proc_info, pool)"
proof -
  have gp: "pi_gp (cb_pi (cb_init (zero_proc_info, pool))) = 0" by (simp add: cb_init_def zero_proc_info_def)
  have "lk_foreach lk (dwarf_callback fuel lk m ip need) (cb_init (zero_proc_info, pool)) =
      Ok (0, cb_init (zero_proc_info, pool))"
    using assms run_files_unlisted [OF assms(2) gp] by (simp add: walks_files_def)
  then show ?thesis by (simp add: dwarf_find_proc_info_def find_in_tables_def cb_init_def throw_def)
qed

lemma lookup_proc_info_none:
  assumes "no_unwind_info L ip"
  shows "lookup_proc_info fuel ip need (c, L) = Ok (Err UNW_ENOINFO, False, c\<lparr>c_pi := zero_proc_info\<rparr>, L)"
proof -
  obtain fs where "walks_files (l_linker L) fs" "\<forall>f\<in>set fs. unlisted (l_linker L) ip f" "ds_first (l_dyn L) = 0"
    using assms by (auto simp: no_unwind_info_def)
  then show ?thesis
    by (simp add: lookup_proc_info_def unwi_find_dynamic_proc_info_def dyn_lookup.simps [of fuel]
        find_proc_info_unlisted throw_def)
qed

lemma dwarf_step_none:
  assumes "no_unwind_info L (lookup_ip c)"
  shows "dwarf_step fuel (c, L) = throw UNW_ENOINFO (c\<lparr>c_pi := zero_proc_info\<rparr>, L)"
proof -
  have "fetch_proc_info fuel (c_ip c) True (c, L) = throw UNW_ENOINFO (c\<lparr>c_pi := zero_proc_info\<rparr>, L)"
    using lookup_proc_info_none [OF assms, of fuel True "c\<lparr>c_pi := zero_proc_info\<rparr>"]
    by (simp add: lookup_ip_def fetch_proc_info_def accept_proc_info_def throw_def)
  then show ?thesis
    by (simp add: dwarf_step_def dwarf_find_save_locs_def uncached_dwarf_find_save_locs_def)
qed

lemma unw_step_none:
  assumes "no_unwind_info L (lookup_ip c)"
    and d: "d = c\<lparr>c_validate := True, c_sigcontext_format := X86_64_SCF_NONE, c_pi := zero_proc_info\<rparr>"
  shows "unw_step fuel (c, L) = on_machine (\<lambda>s. cbind (step_without_dwarf s) (\<lambda>r s.
    case r of Some r \<Rightarrow> finish_step r (c_ip c) (c_cfa c) s | None \<Rightarrow> ret 0 s)) (d, L)"
proof -
  let ?c = "c\<lparr>c_validate := True, c_sigcontext_format := X86_64_SCF_NONE\<rparr>"
  have "lookup_ip ?c = lookup_ip c" by (simp add: lookup_ip_def)
  then have "dwarf_step fuel (?c, L) = Ok (Err UNW_ENOINFO, d, L)"
    using dwarf_step_none [of L ?c fuel] assms by (simp add: throw_def)
  moreover have "c_ip d = c_ip c" "c_cfa d = c_cfa c" "d\<lparr>c_validate := True\<rparr> = d" by (cases c; simp add: d)+
  ultimately show ?thesis by (simp add: unw_step_def Let_def cong: option.case_cong)
qed

section \<open>Code of a module\<close>

text \<open>C20: unwind information of loaded modules is never used. Let the code of the cursor belong to one
  loaded module with a compiler-emitted \<open>.eh_frame\<close> section and let no dynamic procedure be registered.
  If an FDE covers the code, the DWARF step finds it and still fails with \<open>UNW_ENOINFO\<close>, leaving the
  frame of the cursor as it was; if no FDE covers the code, the step goes on with procedure
  information that has no unwind information and dereferences a null pointer.\<close>

theorem dwarf_step_module:
  assumes "ds_first (l_dyn L) = 0" "walks_files (l_linker L) (fs @ file # gs)"
    "\<forall>f \<in> set fs \<union> set gs. elsewhere ip f" "ip = lookup_ip c"
    "module_for (l_linker L) (m_mem (l_machine L)) ip file cie cie_len xs" "3 \<le> fuel"
    "pool_alloc (l_env L, l_cie_pool L) = Ok (obj, pool')" "obj \<noteq> 0"
  shows "if section_entry cie cie_len xs ip = None then dwarf_step fuel (c, L) = UB
    else \<exists>s'. dwarf_step fuel (c, L) = throw UNW_ENOINFO s' \<and> keeps_frame (c, L) s'"
proof -
  let ?m = "m_mem (l_machine L)" and ?found = "section_entry cie cie_len xs ip"
  have z: "\<not> (start_ip zero_proc_info \<le> ip \<and> ip < end_ip zero_proc_info)" "pi_unwind_info zero_proc_info = UI_NULL"
    by (simp_all add: zero_proc_info_def)
  obtain pi' env pool where find: "dwarf_find_proc_info fuel (l_linker L) ?m ip True (zero_proc_info, l_env L, l_cie_pool L) =
      (if ?found = None then ret () (pi', env, pool) else throw UNW_ENOINFO (pi', env, pool))"
    "?found = None \<longrightarrow> pi_unwind_info pi' = UI_NULL \<and> pi_format pi' = UNW_INFO_FORMAT_TABLE"
    using find_proc_info_module [OF assms(2,3,5-8) z(1), of True] z(2) by auto
  let ?c = "c\<lparr>c_pi := pi'\<rparr>" and ?L = "L\<lparr>l_env := env, l_cie_pool := pool\<rparr>"
  have "lookup_proc_info fuel ip True (c\<lparr>c_pi := zero_proc_info\<rparr>, L) =
      Ok (if ?found = None then Ret () else Err UNW_ENOINFO, False, ?c, ?L)"
    using assms(1) find(1)
    by (simp add: lookup_proc_info_def unwi_find_dynamic_proc_info_def dyn_lookup.simps [of fuel] throw_def ret_def)
  then have fetch: "fetch_proc_info fuel (c_ip c) True (c, L) =
      (if ?found = None then ret () (?c\<lparr>c_pi_valid := True, c_pi_is_dynamic := False\<rparr>, ?L)
       else throw UNW_ENOINFO (?c, ?L))"
    using assms(4) find(2) by (simp add: fetch_proc_info_def accept_proc_info_def lookup_ip_def ret_def throw_def)
  show ?thesis
  proof (cases "?found = None")
    case True
    then have "lib_state_record fuel (?c\<lparr>c_pi_valid := True, c_pi_is_dynamic := False\<rparr>, ?L) = UB"
      using find(2) by (simp add: lib_state_record_def create_state_record_for_def parse_fde_def)
    with True fetch show ?thesis
      by (simp add: dwarf_step_def dwarf_find_save_locs_def uncached_dwarf_find_save_locs_def)
  next
    case False
    with fetch show ?thesis
      by (simp add: dwarf_step_def dwarf_find_save_locs_def uncached_dwarf_find_save_locs_def keeps_frame_def)
  qed
qed

section \<open>Code that is not special\<close>

text \<open>No \<open>sigreturn\<close> trampoline, no system call stub and no PLT entry.\<close>

definition plain_code :: "memory \<Rightarrow> u64 \<Rightarrow> bool" where
  "plain_code m ip =
     (let w0 = read_word m ip; w1 = read_word m (ip + 8); w2 = read_word m (ip + 16); b0 = read_word m (ip - 5) in
      \<not> (w0 = 0x48006a10247c8d48 \<and> w1 = 0x050f000001a1c0c7 \<and> w2 AND 0xffffff = 0xfdebf4) \<and>
      b0 AND 0xffffffffffffff \<noteq> 0x050fca89490000 \<and> b0 AND 0xffffffffff \<noteq> 0x050fca8949 \<and>
      \<not> (w0 AND 0xffff = 0x25ff \<and> drop_bit 48 w0 AND 0xff = 0x68 \<and> drop_bit 24 w1 AND 0xff = 0xe9))"

lemma access_mem_read_elim:
  obtains M' where "access_mem_read M c a = Ok (read_word (m_mem M) a, M')" "m_mem M' = m_mem M"
    | e where "access_mem_read M c a = Fail e"
proof (cases "access_mem_read M c a")
  case (Ok x)
  then show ?thesis using that(1) [of "snd x"] access_mem_read_OkD [of M c a "fst x" "snd x"]
      access_mem_read_mem [of M c a "fst x" "snd x"] by (cases x) auto
qed (use that in \<open>auto simp: access_mem_read_def split: if_splits prod.splits\<close>)

lemma signal_words_plain:
  assumes "plain_code (m_mem M) (c_ip c)"
  shows "\<exists>M'. m_mem M' = m_mem M \<and> (signal_words c M = ret X86_64_SCF_NONE M' \<or> (\<exists>e. signal_words c M = throw e M'))"
proof (cases rule: access_mem_read_elim [of M c "c_ip c"])
  case (1 M1)
  show ?thesis
  proof (cases rule: access_mem_read_elim [of M1 c "c_ip c + 8"])
    case (1 M2)
    show ?thesis
    proof (cases rule: access_mem_read_elim [of M2 c "c_ip c + 16"])
      case (1 M3)
      show ?thesis
        by (cases rule: access_mem_read_elim [of M3 c "c_ip c - 5"])
           (use assms \<open>access_mem_read M c _ = _\<close> \<open>access_mem_read M1 c _ = _\<close> \<open>access_mem_read M2 c _ = _\<close>
             \<open>m_mem M1 = _\<close> \<open>m_mem M2 = _\<close> \<open>m_mem M3 = _\<close>
            in \<open>auto simp: signal_words_def plain_code_def Let_def\<close>)
    qed (use \<open>access_mem_read M c _ = _\<close> \<open>access_mem_read M1 c _ = _\<close> \<open>m_mem M1 = _\<close> \<open>m_mem M2 = _\<close>
         in \<open>auto simp: signal_words_def\<close>)
  qed (use \<open>access_mem_read M c _ = _\<close> \<open>m_mem M1 = _\<close> in \<open>auto simp: signal_words_def\<close>)
qed (auto simp: signal_words_def)

lemma not_signal_frame:
  assumes "plain_code (m_mem M) (c_ip c)"
  shows "\<exists>M'. m_mem M' = m_mem M \<and> unw_is_signal_frame (c, M) = (False, c\<lparr>c_sigcontext_format := X86_64_SCF_NONE\<rparr>, M')"
  using signal_words_plain [of M "c\<lparr>c_sigcontext_format := X86_64_SCF_NONE\<rparr>"] assms
  by (auto simp: unw_is_signal_frame_def ret_def throw_def)

lemma not_plt_entry:
  assumes "plain_code (m_mem M) (c_ip c)"
  shows "\<exists>M'. m_mem M' = m_mem M \<and> is_plt_entry (c, M) = (False, c, M')"
proof (cases rule: access_mem_read_elim [of M c "c_ip c"])
  case (1 M1)
  show ?thesis
    by (cases rule: access_mem_read_elim [of M1 c "c_ip c + 8"])
       (use assms 1 in \<open>auto simp: is_plt_entry_def plain_code_def Let_def\<close>)
qed (simp add: is_plt_entry_def)

section \<open>Guessed frames\<close>

text \<open>
  The location \<open>l\<close> holds a frame pointer that passes the heuristic: it lies above the CFA, at most
  0x4000 bytes away.
\<close>

definition guessable :: "machine \<Rightarrow> cursor \<Rightarrow> u64 \<Rightarrow> bool" where
  "guessable M c rbp = (PAGE_START (c_loc c ! RBP) \<noteq> 0 \<and> read_word (m_mem M) (c_loc c ! RBP) = rbp \<and>
     length (c_loc c) = 17 \<and> (rbp \<noteq> 0 \<longrightarrow> PAGE_START rbp \<noteq> 0 \<and> PAGE_START (rbp + 8) \<noteq> 0 \<and>
       c_cfa c < rbp \<and> rbp - c_cfa c \<le> 0x4000))"

lemma PAGE_START_nonzero: "PAGE_START a \<noteq> 0 \<Longrightarrow> a \<noteq> 0"
  by auto

text \<open>The cursor after a guess.\<close>

definition guessed :: "memory \<Rightarrow> u64 \<Rightarrow> cursor \<Rightarrow> cursor" where
  "guessed m rbp c = c\<lparr>c_ip := read_word m (rbp + 8), c_cfa := c_cfa c + (read_word m rbp - rbp),
     c_loc := null_locs[RBP := rbp, RIP := rbp + 8], c_ret_addr_column := of_nat RIP,
     c_frame_info := (c_frame_info c)\<lparr>frame_type := UNW_X86_64_FRAME_GUESSED, cfa_reg_rsp := False,
       cfa_reg_offset := 8, rbp_cfa_offset := 0\<rparr>\<rparr>"

lemma guess_frame_readable:
  assumes "c_validate c" "guessable M c rbp" "rbp \<noteq> 0"
  shows "\<exists>M'. m_mem M' = m_mem M \<and> guess_frame rbp (c, M) = Ok (Ret 0, rbp, rbp + 8,
    c\<lparr>c_cfa := c_cfa c + (read_word (m_mem M) rbp - rbp),
      c_frame_info := (c_frame_info c)\<lparr>frame_type := UNW_X86_64_FRAME_GUESSED, cfa_reg_rsp := False,
        cfa_reg_offset := 8, rbp_cfa_offset := 0\<rparr>\<rparr>, M')"
proof -
  let ?fi = "(c_frame_info c)\<lparr>frame_type := UNW_X86_64_FRAME_GUESSED, cfa_reg_rsp := False,
        cfa_reg_offset := 8, rbp_cfa_offset := 0\<rparr>"
  have r: "readable_loc c rbp" "readable_loc (c\<lparr>c_frame_info := ?fi\<rparr>) (c_loc c ! RBP)"
    and g: "read_word (m_mem M) (c_loc c ! RBP) = rbp" "c_cfa c < rbp" "rbp - c_cfa c \<le> 0x4000"
    using assms by (auto simp: readable_loc_def guessable_def)
  obtain M1 where M1: "dwarf_get M c rbp = Ok (read_word (m_mem M) rbp, M1)" "m_mem M1 = m_mem M"
    using dwarf_get_readable [OF r(1)] by blast
  obtain M2 where M2: "dwarf_get M1 (c\<lparr>c_frame_info := ?fi\<rparr>) (c_loc c ! RBP) = Ok (rbp, M2)" "m_mem M2 = m_mem M"
    using dwarf_get_readable [OF r(2), of M1] M1(2) g(1) by auto
  have "unw_get_reg M1 (c\<lparr>c_frame_info := ?fi\<rparr>) (int RBP) = Ok (rbp, M2)"
    using M2(1) by (simp add: unw_get_reg_def tdep_access_reg_read_def)
  then show ?thesis using M1 M2(2) g by (auto simp: guess_frame_def Let_def intro!: exI [of _ M2])
qed

text \<open>
  A step by a frame pointer: the new instruction pointer is the return address above the saved
  frame pointer, and the CFA moves by the distance of the two frame pointers.
\<close>

lemma unw_step_guess:
  assumes info: "no_unwind_info L (lookup_ip c)" and code: "plain_code (m_mem (l_machine L)) (c_ip c)"
    and g: "guessable (l_machine L) c rbp" "rbp \<noteq> 0" and moves: "read_word (m_mem (l_machine L)) rbp \<noteq> rbp"
    and d: "d = c\<lparr>c_validate := True, c_sigcontext_format := X86_64_SCF_NONE, c_pi := zero_proc_info\<rparr>"
  shows "\<exists>M'. m_mem M' = m_mem (l_machine L) \<and>
    unw_step fuel (c, L) = ret 1 (guessed (m_mem (l_machine L)) rbp d, L\<lparr>l_machine := M'\<rparr>)"
proof -
  let ?M = "l_machine L"
  have dc: "c_ip d = c_ip c" "c_cfa d = c_cfa c" "c_loc d = c_loc c" "c_validate d"
    "d\<lparr>c_sigcontext_format := X86_64_SCF_NONE\<rparr> = d" by (simp_all add: d)
  obtain M1 where M1: "m_mem M1 = m_mem ?M" "unw_is_signal_frame (d, ?M) = (False, d, M1)"
    using not_signal_frame [of ?M d] code dc by auto
  obtain M2 where M2: "m_mem M2 = m_mem ?M" "is_plt_entry (d, M1) = (False, d, M2)"
    using not_plt_entry [of M1 d] code dc M1 by auto
  have l: "readable_loc d (c_loc d ! RBP)" "c_loc d ! RBP \<noteq> 0" "read_word (m_mem ?M) (c_loc d ! RBP) = rbp"
    using g dc by (auto simp: guessable_def readable_loc_def)
  obtain M3 where M3: "m_mem M3 = m_mem ?M" "dwarf_get M2 d (c_loc d ! RBP) = Ok (rbp, M3)"
    using dwarf_get_readable [OF l(1), of M2] M2(1) l(3) by auto
  have gd: "guessable M3 d rbp" using g dc M3(1) by (simp add: guessable_def)
  obtain M4 where M4: "m_mem M4 = m_mem ?M" "guess_frame rbp (d, M3) = Ok (Ret 0, rbp, rbp + 8,
    d\<lparr>c_cfa := c_cfa d + (read_word (m_mem ?M) rbp - rbp),
      c_frame_info := (c_frame_info d)\<lparr>frame_type := UNW_X86_64_FRAME_GUESSED, cfa_reg_rsp := False,
        cfa_reg_offset := 8, rbp_cfa_offset := 0\<rparr>\<rparr>, M4)"
    using guess_frame_readable [OF dc(4) gd g(2)] M3(1) by auto
  let ?e = "(guessed (m_mem ?M) rbp d)\<lparr>c_ip := c_ip d, c_ret_addr_column := c_ret_addr_column d\<rparr>"
  have nl: "null_locs[RBP := rbp, RSP := DWARF_NULL_LOC, RIP := rbp + 8] = null_locs[RBP := rbp, RIP := rbp + 8]"
    by (simp add: null_locs_def DWARF_NUM_PRESERVED_REGS_def DWARF_NULL_LOC_def numeral_eq_Suc)
  have st: "step_without_dwarf (d, ?M) = ret (Some (Ret 0)) (?e, M4)"
    using M1(2) M2(2) M3(2) M4(2) l(2) g(2) nl
    by (simp add: step_without_dwarf_def DWARF_IS_NULL_LOC_def guessed_def)
  have r8: "readable_loc (?e\<lparr>c_ret_addr_column := of_nat RIP\<rparr>) (rbp + 8)" "rbp + 8 \<noteq> 0"
    using g by (auto simp: guessable_def readable_loc_def)
  obtain M5 where M5: "m_mem M5 = m_mem ?M"
    "dwarf_get M4 (?e\<lparr>c_ret_addr_column := of_nat RIP\<rparr>) (rbp + 8) = Ok (read_word (m_mem ?M) (rbp + 8), M5)"
    using dwarf_get_readable [OF r8(1), of M4] M4(1) by auto
  have loc: "c_loc ?e ! RBP = rbp" "c_loc ?e ! RIP = rbp + 8"
    by (simp_all add: guessed_def null_locs_def DWARF_NUM_PRESERVED_REGS_def)
  have "finish_step (Ret 0) (c_ip c) (c_cfa c) (?e, M4) = ret 1 (guessed (m_mem ?M) rbp d, M5)"
    using loc M5(2) g(2) r8(2) moves dc
    by (auto simp: finish_step_def DWARF_IS_NULL_LOC_def guessed_def ret_def)
  then show ?thesis
    using st M5(1) unfolding unw_step_none [OF info d] by (auto simp: on_machine_def ret_def)
qed

text \<open>A frame pointer of 0 marks the end of the chain.\<close>

lemma unw_step_end:
  assumes info: "no_unwind_info L (lookup_ip c)" and code: "plain_code (m_mem (l_machine L)) (c_ip c)"
    and g: "guessable (l_machine L) c 0"
  shows "\<exists>c' L'. unw_step fuel (c, L) = ret 0 (c', L')"
proof -
  let ?M = "l_machine L"
  obtain d where d: "d = c\<lparr>c_validate := True, c_sigcontext_format := X86_64_SCF_NONE, c_pi := zero_proc_info\<rparr>" by blast
  have dc: "c_ip d = c_ip c" "c_loc d = c_loc c" "c_validate d"
    "d\<lparr>c_sigcontext_format := X86_64_SCF_NONE\<rparr> = d" by (simp_all add: d)
  obtain M1 where M1: "m_mem M1 = m_mem ?M" "unw_is_signal_frame (d, ?M) = (False, d, M1)"
    using not_signal_frame [of ?M d] code dc by auto
  obtain M2 where M2: "m_mem M2 = m_mem ?M" "is_plt_entry (d, M1) = (False, d, M2)"
    using not_plt_entry [of M1 d] code dc M1 by auto
  have l: "readable_loc d (c_loc d ! RBP)" "c_loc d ! RBP \<noteq> 0" "read_word (m_mem ?M) (c_loc d ! RBP) = 0"
    using g dc by (auto simp: guessable_def readable_loc_def)
  obtain M3 where M3: "dwarf_get M2 d (c_loc d ! RBP) = Ok (0, M3)"
    using dwarf_get_readable [OF l(1), of M2] M2(1) l(3) by auto
  have "step_without_dwarf (d, ?M) = ret (Some (Ret 0)) (d\<lparr>c_loc := null_locs\<rparr>, M3)"
    using M1(2) M2(2) M3 l(2) by (simp add: step_without_dwarf_def DWARF_IS_NULL_LOC_def)
  then show ?thesis
    unfolding unw_step_none [OF info d]
    by (simp add: on_machine_def finish_step_def null_locs_def DWARF_NUM_PRESERVED_REGS_def DWARF_IS_NULL_LOC_def
        DWARF_NULL_LOC_def ret_def)
qed

section \<open>Signal frames\<close>

text \<open>The bytes of the \<open>sigreturn\<close> trampoline at \<open>ip\<close>.\<close>

definition trampoline_at :: "memory \<Rightarrow> u64 \<Rightarrow> bool" where
  "trampoline_at m ip = (read_word m ip = 0x48006a10247c8d48 \<and> read_word m (ip + 8) = 0x050f000001a1c0c7 \<and>
     read_word m (ip + 16) AND 0xffffff = 0xfdebf4 \<and>
     PAGE_START ip \<noteq> 0 \<and> PAGE_START (ip + 8) \<noteq> 0 \<and> PAGE_START (ip + 16) \<noteq> 0)"

lemma access_mem_read_valid:
  assumes "PAGE_START a \<noteq> 0"
  shows "\<exists>M'. m_mem M' = m_mem M \<and> access_mem_read M (c :: cursor) a = Ok (read_word (m_mem M) a, M')"
proof -
  have "readable_loc c a" using assms by (auto simp: readable_loc_def)
  from dwarf_get_readable [OF this, of M] show ?thesis
    using PAGE_START_nonzero [OF assms] by (auto simp: dwarf_get_def DWARF_IS_NULL_LOC_def)
qed

lemma trampoline_is_signal_frame:
  assumes "trampoline_at (m_mem M) (c_ip c)"
  shows "\<exists>M'. m_mem M' = m_mem M \<and>
    unw_is_signal_frame (c, M) = (True, c\<lparr>c_sigcontext_format := X86_64_SCF_FREEBSD_SIGFRAME\<rparr>, M')"
proof -
  let ?c = "c\<lparr>c_sigcontext_format := X86_64_SCF_NONE\<rparr>"
  note t = assms [unfolded trampoline_at_def]
  obtain M1 where M1: "m_mem M1 = m_mem M" "access_mem_read M ?c (c_ip c) = Ok (read_word (m_mem M) (c_ip c), M1)"
    using access_mem_read_valid t by blast
  obtain M2 where M2: "m_mem M2 = m_mem M1"
    "access_mem_read M1 ?c (c_ip c + 8) = Ok (read_word (m_mem M1) (c_ip c + 8), M2)"
    using access_mem_read_valid t by blast
  obtain M3 where M3: "m_mem M3 = m_mem M2"
    "access_mem_read M2 ?c (c_ip c + 16) = Ok (read_word (m_mem M2) (c_ip c + 16), M3)"
    using access_mem_read_valid t by blast
  have "signal_words ?c M = ret X86_64_SCF_FREEBSD_SIGFRAME M3"
    using M1 M2 M3 t by (simp add: signal_words_def)
  then show ?thesis using M1(1) M2(1) M3(1) by (simp add: unw_is_signal_frame_def ret_def)
qed

text \<open>C18: a signal frame is unwound to the interrupted code: when the cursor stands at the \<open>sigreturn\<close>
  trampoline and there is no unwind information, the step finds every register in the saved
  machine context above the CFA (\<open>sf_uc\<close> of the signal frame), and the instruction pointer and the CFA
  of the cursor become the saved RIP and RSP; memory is not changed.\<close>

theorem signal_frame_step:
  assumes "no_unwind_info L (lookup_ip c)" "trampoline_at m (c_ip c)" "m = m_mem (l_machine L)"
    "uc = c_cfa c + SIGF_UC" "\<forall>r\<in>{RBP, RSP, RIP}. PAGE_START (uc + uc_mcontext_gregs ! r) \<noteq> 0"
    "ip = read_word m (uc + uc_mcontext_gregs ! RIP)" "sp = read_word m (uc + uc_mcontext_gregs ! RSP)"
    "(ip, sp) \<noteq> (c_ip c, c_cfa c)"
  shows "\<exists>c' L'. unw_step fuel (c, L) = ret 1 (c', L') \<and> c_ip c' = ip \<and> c_cfa c' = sp \<and>
    c_loc c' = map (\<lambda>off. uc + off) uc_mcontext_gregs \<and> m_mem (l_machine L') = m"
proof -
  let ?M = "l_machine L"
  obtain d where d: "d = c\<lparr>c_validate := True, c_sigcontext_format := X86_64_SCF_NONE, c_pi := zero_proc_info\<rparr>" by blast
  have dc: "c_ip d = c_ip c" "c_cfa d = c_cfa c" by (simp_all add: d)
  obtain M1 where M1: "m_mem M1 = m"
    "unw_is_signal_frame (d, ?M) = (True, d\<lparr>c_sigcontext_format := X86_64_SCF_FREEBSD_SIGFRAME\<rparr>, M1)"
    using trampoline_is_signal_frame [of ?M d] assms(2,3) dc by auto
  let ?e = "d\<lparr>c_sigcontext_format := X86_64_SCF_FREEBSD_SIGFRAME, c_sigcontext_addr := c_cfa d\<rparr>"
  have rl: "readable_loc x (uc + uc_mcontext_gregs ! r)" "uc + uc_mcontext_gregs ! r \<noteq> 0" if "r \<in> {RBP, RSP, RIP}" for r x
    using assms(5) that by (auto simp: readable_loc_def)
  obtain M2 where M2: "m_mem M2 = m" "dwarf_get M1 ?e (uc + uc_mcontext_gregs ! RSP) = Ok (sp, M2)"
    using dwarf_get_readable [OF rl(1), of RSP M1 ?e] M1(1) assms(7) by auto
  let ?f = "?e\<lparr>c_cfa := sp, c_loc := map (\<lambda>off. uc + off) uc_mcontext_gregs\<rparr>"
  have st: "step_without_dwarf (d, ?M) = ret (Some (Ret 0)) (?f, M2)"
    using M1(2) M2(2) assms(4) dc by (simp add: step_without_dwarf_def unw_handle_signal_frame_def Let_def ret_def)
  let ?g = "?f\<lparr>c_ret_addr_column := of_nat RIP\<rparr>"
  obtain M3 where M3: "m_mem M3 = m" "dwarf_get M2 ?g (uc + uc_mcontext_gregs ! RIP) = Ok (ip, M3)"
    using dwarf_get_readable [OF rl(1), of RIP M2 ?g] M2(1) assms(6) by auto
  have len: "length uc_mcontext_gregs = 17" by (simp add: uc_mcontext_gregs_def)
  have "finish_step (Ret 0) (c_ip c) (c_cfa c) (?f, M2) = ret 1 (?g\<lparr>c_ip := ip\<rparr>, M3)"
    using M3(2) rl(2) [of RBP] rl(2) [of RIP] assms(8) len
    by (auto simp: finish_step_def DWARF_IS_NULL_LOC_def ret_def Let_def)
  then show ?thesis
    using st M3(1) unfolding unw_step_none [OF assms(1) d] by (simp add: on_machine_def ret_def)
qed

section \<open>Concrete stacks\<close>

text \<open>
  A stack of two frames: the frame pointers 0x9000 and 0x9100, found from 0x7000, with the return
  addresses 0x2100 and 0x3100; a signal frame at 0x8000 whose context holds RIP 0x2100 and
  RSP 0x8f00; and the trampoline at 0x5000.
\<close>

definition stack_mem :: memory where
  "stack_mem a =
     (if a = 0x7001 then 0x90 else if a = 0x9001 then 0x91 else if a = 0x9009 then 0x21
      else if a = 0x9109 then 0x31 else if a = 0x80c1 then 0x21 else if a = 0x80d9 then 0x8f
      else if 0x5000 \<le> a \<and> a < 0x5018 then
        [0x48, 0x8d, 0x7c, 0x24, 0x10, 0x6a, 0x00, 0x48, 0xc7, 0xc0, 0xa1, 0x01, 0x00, 0x00,
         0x0f, 0x05, 0xf4, 0xeb, 0xfd, 0, 0, 0, 0, 0] ! unat (a - 0x5000)
      else 0)"

definition lib0 :: unw_lib where
  "lib0 = \<lparr>l_machine = machine0\<lparr>m_mem := stack_mem\<rparr>, l_env = env0, l_rs_pool = pool0, l_cie_pool = pool0,
     l_dyn = \<lparr>ds_generation = 0, ds_first = 0, ds_infos = Map.empty\<rparr>, l_linker = linker0\<rparr>"

definition stack_cursor :: "u64 \<Rightarrow> cursor" where
  "stack_cursor ip = cursor0\<lparr>c_ip := ip, c_cfa := 0x8000, c_loc := (replicate 17 0)[RBP := 0x7000]\<rparr>"

lemma lib0_mem [simp]: "m_mem (l_machine lib0) = stack_mem"
  by (simp add: lib0_def)

lemma lib0_no_info: "0x2000 < ip \<Longrightarrow> no_unwind_info lib0 ip"
  by (auto simp: no_unwind_info_def lib0_def linker0_def walks_files_def unlisted_def elsewhere_def module0_def
      intro!: exI [of _ "[module0]"])

lemma read_word_bytes:
  "read_word m a = ucast (m a) OR push_bit 8 (ucast (m (a + 1)) OR push_bit 8 (ucast (m (a + 2)) OR
     push_bit 8 (ucast (m (a + 3)) OR push_bit 8 (ucast (m (a + 4)) OR push_bit 8 (ucast (m (a + 5)) OR
     push_bit 8 (ucast (m (a + 6)) OR push_bit 8 (ucast (m (a + 7)))))))))"
  by (simp add: read_word_def eval_nat_numeral add.assoc)

lemma stack_mem_words:
  "read_word stack_mem 0x7000 = 0x9000" "read_word stack_mem 0x9000 = 0x9100" "read_word stack_mem 0x9008 = 0x2100"
  "read_word stack_mem 0x9100 = 0" "read_word stack_mem 0x9108 = 0x3100"
  "read_word stack_mem 0x80c0 = 0x2100" "read_word stack_mem 0x80d8 = 0x8f00"
  by (simp_all add: read_word_bytes stack_mem_def)

lemma stack_mem_code: "plain_code stack_mem 0x4000" "plain_code stack_mem 0x2100" "plain_code stack_mem 0x3100"
proof -
  have "read_word stack_mem a = 0" if "a \<in> {0x4000, 0x4008, 0x4010, 0x3ffb, 0x2100, 0x2108, 0x2110, 0x20fb,
      0x3100, 0x3108, 0x3110, 0x30fb}" for a
    using that by (elim insertE emptyE) (simp_all add: read_word_bytes stack_mem_def)
  then show "plain_code stack_mem 0x4000" "plain_code stack_mem 0x2100" "plain_code stack_mem 0x3100"
    by (simp_all add: plain_code_def)
qed

lemma stack_mem_trampoline: "trampoline_at stack_mem 0x5000"
proof -
  have "read_word stack_mem 0x5000 = 0x48006a10247c8d48" "read_word stack_mem 0x5008 = 0x050f000001a1c0c7"
    "read_word stack_mem 0x5010 = 0xfdebf4" by (simp_all add: read_word_bytes stack_mem_def)
  then show ?thesis by (simp add: trampoline_at_def PAGE_START_def)
qed

lemma stack_cursor_guessable: "guessable (l_machine lib0) (stack_cursor ip) 0x9000"
proof -
  have "PAGE_START 0x7000 \<noteq> 0" "PAGE_START 0x9000 \<noteq> 0" "PAGE_START 0x9008 \<noteq> 0" by (simp_all add: PAGE_START_def)
  then show ?thesis by (simp add: guessable_def stack_cursor_def stack_mem_words)
qed

theorem unw_step_progress_witness:
  "\<exists>c' L'. unw_step 0 (stack_cursor 0x4000, lib0) = Ok (Ret 1, c', L') \<and>
     (c_ip c' \<noteq> c_ip (stack_cursor 0x4000) \<or> c_cfa c' \<noteq> c_cfa (stack_cursor 0x4000))"
proof -
  have "no_unwind_info lib0 (lookup_ip (stack_cursor 0x4000))"
    by (rule lib0_no_info) (simp add: lookup_ip_def stack_cursor_def cursor0_def)
  from unw_step_guess [OF this _ stack_cursor_guessable _ _ refl, of 0] stack_mem_code(1)
  have "\<exists>c' L'. unw_step 0 (stack_cursor 0x4000, lib0) = Ok (Ret 1, c', L')"
    by (auto simp: stack_mem_words ret_def stack_cursor_def)
  then show ?thesis using unw_step_progress by blast
qed

theorem signal_frame_step_witness:
  "\<exists>c' L'. unw_step 0 (stack_cursor 0x5000, lib0) = ret 1 (c', L') \<and> c_ip c' = 0x2100 \<and> c_cfa c' = 0x8f00"
proof -
  have pages: "PAGE_START 0x80c0 \<noteq> 0" "PAGE_START 0x80d8 \<noteq> 0" "PAGE_START 0x8068 \<noteq> 0" by (simp_all add: PAGE_START_def)
  have "no_unwind_info lib0 (lookup_ip (stack_cursor 0x5000))"
    by (rule lib0_no_info) (simp add: lookup_ip_def stack_cursor_def cursor0_def)
  from signal_frame_step [OF this _ refl refl _ refl refl, of 0] stack_mem_trampoline pages show ?thesis
    by (simp add: stack_mem_words stack_cursor_def SIGF_UC_def uc_mcontext_gregs_def) blast
qed

theorem dwarf_step_module_witness:
  "\<exists>s'. dwarf_step 3 (cursor0\<lparr>c_ip := 0x1130\<rparr>, lib0\<lparr>l_machine := machine0\<lparr>m_mem := gcc_mem\<rparr>\<rparr>) = throw UNW_ENOINFO s'"
proof -
  let ?c = "cursor0\<lparr>c_ip := 0x1130\<rparr>" and ?L = "lib0\<lparr>l_machine := machine0\<lparr>m_mem := gcc_mem\<rparr>\<rparr>"
  have L: "ds_first (l_dyn ?L) = 0" "l_linker ?L = linker0" "m_mem (l_machine ?L) = gcc_mem"
    "(l_env ?L, l_cie_pool ?L) = (env0, pool0)" by (simp_all add: lib0_def)
  obtain obj pool' where p: "pool_alloc (l_env ?L, l_cie_pool ?L) = Ok (obj, pool')" "obj \<noteq> 0" using pool0_alloc L(4) by auto
  have w: "walks_files (l_linker ?L) ([] @ module0 # [])" unfolding L by (simp add: walks_files_def linker0_def)
  have ip: "0x1130 = lookup_ip ?c" by (simp add: lookup_ip_def cursor0_def)
  have mod: "module_for (l_linker ?L) (m_mem (l_machine ?L)) 0x1130 module0 0x1000 0x14 [(0x14, 0x100, 0x40)]"
    unfolding L using gcc_mem_section
    by (simp add: module_for_def elsewhere_def module0_def linker0_def find_eh_frame_section_def)
  have e: "section_entry 0x1000 0x14 [(0x14, 0x100, 0x40)] 0x1130 = Some (0x1018, 0x14, 0x1120, 0x1160)"
    by (simp add: section_entry_def in_range_def)
  from dwarf_step_module [OF L(1) w _ ip mod _ p, of 3] show ?thesis by (auto simp: e)
qed

end
