(* ===== verification/Unw_Trace.thy ===== *)
theory Unw_Trace
  imports Unw_Step
begin

text \<open>
  The fast stack tracer of \<^verbatim>\<open>Gtrace.c\<close>: a hash table of frame records, filled by \<open>unw_step\<close>, from which
  the registers of the next frame are computed without looking at unwind information.

  A cache is a record at the address of its pool object. The kernel's per-thread storage
  (\<open>osd_thread_register\<close>, \<open>osd_thread_set\<close>) only serves to free the cache of a thread that ends; the key it
  returns is a parameter. One thread is modelled, and the lock around the creation of a cache makes it
  one step. The sizes of the tables are powers of two below \<open>2 ^ 32\<close>, the range of \<open>1u << log_size\<close>.
\<close>

section \<open>The frame cache\<close>

record unw_trace_cache_t =
  tc_frames :: "unw_tdep_frame_t list"
  tc_log_size :: nat
  tc_used :: nat
  tc_dtor_count :: nat

record trace_state =
  ts_once_happen :: bool
  ts_cache_key :: int
  ts_pool :: mempool
  ts_tls_cache :: addr
  ts_tls_cache_destroyed :: bool
  ts_global_cache :: addr
  ts_caches :: "addr \<Rightarrow> unw_trace_cache_t option"

type_synonym trace_env = "kernel_env \<times> trace_state"

definition HASH_MIN_BITS :: nat where "HASH_MIN_BITS = 14"

definition empty_frame :: unw_tdep_frame_t where
  "empty_frame = \<lparr>virtual_address = 0, frame_type = UNW_X86_64_FRAME_OTHER, last_frame = True, cfa_reg_rsp = True,
     cfa_reg_offset = 0, rbp_cfa_offset = - 1, rsp_cfa_offset = - 1\<rparr>"

text \<open>\<open>1u << n\<close>, undefined for a shift by the width of the operand.\<close>

definition table_size :: "nat \<Rightarrow> nat outcome" where
  "table_size n = defined (n < 32) (Ok (2 ^ n))"

text \<open>\<open>sizeof (unw_trace_cache_t)\<close> and \<open>sizeof (unw_tdep_frame_t)\<close> are 32 and 16.\<close>

definition trace_cache_free :: "trace_state \<Rightarrow> trace_state" where
  "trace_cache_free ts = ts\<lparr>ts_tls_cache_destroyed := True, ts_tls_cache := 0\<rparr>"

definition trace_cache_init_once :: "int \<Rightarrow> trace_env \<Rightarrow> trace_env outcome" where
  "trace_cache_init_once key = (\<lambda>(e, ts).
     obind (mempool_init e 32 0) (\<lambda>(e, pool).
     Ok (e, ts\<lparr>ts_cache_key := key, ts_pool := pool, ts_once_happen := True\<rparr>)))"

definition trace_cache_buckets :: "nat \<Rightarrow> kernel_env \<Rightarrow> unw_tdep_frame_t list option \<times> kernel_env" where
  "trace_cache_buckets n e =
     (let (p, e) = get_memory e (of_nat n * 16) in
      (if p \<noteq> 0 then Some (replicate n empty_frame) else None, e))"

definition trace_cache_create :: "trace_env \<Rightarrow> (addr \<times> trace_env) outcome" where
  "trace_cache_create = (\<lambda>(e, ts).
     if ts_tls_cache_destroyed ts then Ok (0, e, ts)
     else
       obind (mempool_alloc e (ts_pool ts)) (\<lambda>(cache, e, pool).
       let ts = ts\<lparr>ts_pool := pool\<rparr> in
       if cache = 0 then Ok (0, e, ts)
       else
         (case trace_cache_buckets (2 ^ HASH_MIN_BITS) e of
            (None, e) \<Rightarrow>
              (let (e, pool) = mempool_free e (ts_pool ts) cache in Ok (0, e, ts\<lparr>ts_pool := pool\<rparr>))
          | (Some frames, e) \<Rightarrow>
              Ok (cache, e, ts\<lparr>ts_caches := (ts_caches ts)(cache \<mapsto>
                    \<lparr>tc_frames = frames, tc_log_size = HASH_MIN_BITS, tc_used = 0, tc_dtor_count = 0\<rparr>),
                  ts_tls_cache_destroyed := False\<rparr>))))"

text \<open>The old table is not given back (a \<open>TODO\<close> of the code).\<close>

definition trace_cache_expand ::
  "unw_trace_cache_t \<times> kernel_env \<Rightarrow> (unw_trace_cache_t \<times> kernel_env, unit) call" where
  "trace_cache_expand = (\<lambda>(cache, e).
     let new_log_size = tc_log_size cache + 2 in
     obind (table_size new_log_size) (\<lambda>n.
     case trace_cache_buckets n e of
       (None, e) \<Rightarrow> throw UNW_ENOMEM (cache, e)
     | (Some frames, e) \<Rightarrow>
         ret () (cache\<lparr>tc_frames := frames, tc_log_size := new_log_size, tc_used := 0\<rparr>, e)))"

definition trace_cache_get_unthreaded :: "trace_env \<Rightarrow> (addr \<times> trace_env) outcome" where
  "trace_cache_get_unthreaded = (\<lambda>(e, ts).
     if ts_global_cache ts = 0 then
       obind (mempool_init e 32 0) (\<lambda>(e, pool).
       obind (trace_cache_create (e, ts\<lparr>ts_pool := pool\<rparr>)) (\<lambda>(cache, e, ts).
       Ok (cache, e, ts\<lparr>ts_global_cache := cache\<rparr>)))
     else Ok (ts_global_cache ts, e, ts))"

definition trace_cache_get :: "int \<Rightarrow> trace_env \<Rightarrow> (addr \<times> trace_env) outcome" where
  "trace_cache_get key = (\<lambda>(e, ts).
     if \<not> ts_once_happen ts then
       obind (trace_cache_init_once key (e, ts)) (\<lambda>(e, ts).
       if ts_tls_cache ts = 0 then
         obind (trace_cache_create (e, ts)) (\<lambda>(cache, e, ts). Ok (cache, e, ts\<lparr>ts_tls_cache := cache\<rparr>))
       else Ok (ts_tls_cache ts, e, ts))
     else trace_cache_get_unthreaded (e, ts))"

section \<open>Filling a slot\<close>

record trace_regs =
  tr_cfa :: u64
  tr_rip :: u64
  tr_rbp :: u64
  tr_rsp :: u64

definition prev_instr :: "cursor \<Rightarrow> u64" where
  "prev_instr c = (if c_use_prev_instr c then 1 else 0)"

text \<open>The three calls of \<open>dwarf_put\<close> joined by \<open>&&\<close>: writing stops at the first that fails.\<close>

primrec put_all :: "(dwarf_loc_t \<times> u64) list \<Rightarrow> machine \<Rightarrow> bool \<times> machine" where
  "put_all [] M = (True, M)"
| "put_all (x # xs) M =
     (case dwarf_put M (fst x) (snd x) of Ok M \<Rightarrow> put_all xs M | _ \<Rightarrow> (False, M))"

definition unknown_frame :: "u64 \<Rightarrow> unw_tdep_frame_t" where
  "unknown_frame rip = \<lparr>virtual_address = rip, frame_type = UNW_X86_64_FRAME_OTHER, last_frame = False,
     cfa_reg_rsp = True, cfa_reg_offset = 0, rbp_cfa_offset = - 1, rsp_cfa_offset = - 1\<rparr>"

text \<open>The cursor set to the instruction, its RIP, RBP and RSP found in the context.\<close>

definition trace_cursor :: "trace_regs \<Rightarrow> cursor \<Rightarrow> cursor" where
  "trace_cursor r c = c\<lparr>c_ip := tr_rip r + prev_instr c, c_cfa := tr_cfa r,
     c_loc := (c_loc c)[RIP := DWARF_REG_LOC c (int RIP), RBP := DWARF_REG_LOC c (int RBP),
                        RSP := DWARF_REG_LOC c (int RSP)],
     c_frame_info := unknown_frame (tr_rip r)\<rparr>"

definition trace_init_addr ::
  "nat \<Rightarrow> trace_regs \<Rightarrow> lib_state \<Rightarrow> (unw_tdep_frame_t \<times> lib_state) outcome" where
  "trace_init_addr fuel r = (\<lambda>(c, L).
     let f = unknown_frame (tr_rip r);
         c = trace_cursor r c;
         (ok, M) = put_all [(c_loc c ! RIP, tr_rip r), (c_loc c ! RBP, tr_rbp r), (c_loc c ! RSP, tr_rsp r)]
                     (l_machine L);
         L = L\<lparr>l_machine := M\<rparr> in
     if \<not> ok then Ok (f, c, L)
     else
       obind (unw_step fuel (c, L)) (\<lambda>(x, c, L).
       case x of
         Err _ \<Rightarrow> Ok (f, c, L)
       | Ret n \<Rightarrow> Ok (if n = 0 then (c_frame_info c)\<lparr>last_frame := True\<rparr> else c_frame_info c, c, L)))"

section \<open>Looking up an address\<close>

definition hash_slot :: "u64 \<Rightarrow> nat \<Rightarrow> nat" where
  "hash_slot rip log_size = unat (drop_bit 43 (rip * 0x9e3779b97f4a7c16) AND (2 ^ log_size - 1))"

text \<open>The probe ends at the address, at a free slot, or after 16 steps at neither.\<close>

datatype probe = Hit nat | Free nat | Collided

fun trace_probe :: "unw_tdep_frame_t list \<Rightarrow> nat \<Rightarrow> u64 \<Rightarrow> nat \<Rightarrow> nat \<Rightarrow> probe" where
  "trace_probe frames cache_size rip 0 slot = Collided"
| "trace_probe frames cache_size rip (Suc n) slot =
     (let addr = virtual_address (frames ! slot) in
      if addr = rip then Hit slot
      else if addr = 0 then Free slot
      else trace_probe frames cache_size rip n (if slot + 1 \<ge> cache_size then slot + 1 - cache_size else slot + 1))"

text \<open>
  The slot to fill when the address is not there: the table is replaced by an empty one of four times
  the size after a collision or when it is half full.
\<close>

definition trace_slot ::
  "probe \<Rightarrow> u64 \<Rightarrow> unw_trace_cache_t \<times> kernel_env \<Rightarrow> (unw_trace_cache_t \<times> kernel_env, nat) call" where
  "trace_slot p rip = (\<lambda>(cache, e).
     case p of
       Free slot \<Rightarrow>
         if tc_used cache \<ge> 2 ^ tc_log_size cache div 2
         then cbind (trace_cache_expand (cache, e)) (\<lambda>_ (cache, e).
           ret (hash_slot rip (tc_log_size cache)) (cache, e))
         else ret slot (cache, e)
     | _ \<Rightarrow>
         cbind (trace_cache_expand (cache, e)) (\<lambda>_ (cache, e).
           ret (hash_slot rip (tc_log_size cache)) (cache, e)))"

type_synonym trace_lib = "unw_trace_cache_t \<times> lib_state"

text \<open>Filling the slot: a free one counts as used.\<close>

definition trace_fill :: "nat \<Rightarrow> trace_regs \<Rightarrow> nat \<Rightarrow> trace_lib \<Rightarrow> (nat option \<times> trace_lib) outcome" where
  "trace_fill fuel r slot = (\<lambda>(cache, c, L).
     let cache = (if virtual_address (tc_frames cache ! slot) = 0
                  then cache\<lparr>tc_used := tc_used cache + 1\<rparr> else cache) in
     obind (trace_init_addr fuel r (c, L)) (\<lambda>(f, c, L).
     Ok (Some slot, cache\<lparr>tc_frames := (tc_frames cache)[slot := f]\<rparr>, c, L)))"

text \<open>The slot of the frame that describes the address, or \<open>NULL\<close>.\<close>

definition trace_lookup :: "nat \<Rightarrow> trace_regs \<Rightarrow> trace_lib \<Rightarrow> (nat option \<times> trace_lib) outcome" where
  "trace_lookup fuel r = (\<lambda>(cache, c, L).
     obind (table_size (tc_log_size cache)) (\<lambda>cache_size.
     case trace_probe (tc_frames cache) cache_size (tr_rip r) 16 (hash_slot (tr_rip r) (tc_log_size cache)) of
       Hit slot \<Rightarrow> Ok (Some slot, cache, c, L)
     | p \<Rightarrow>
         obind (trace_slot p (tr_rip r) (cache, l_env L)) (\<lambda>(x, cache, e).
         case x of
           Err _ \<Rightarrow> Ok (None, cache, c, L\<lparr>l_env := e\<rparr>)
         | Ret slot \<Rightarrow> trace_fill fuel r slot (cache, c, L\<lparr>l_env := e\<rparr>))))"

section \<open>The trace\<close>

text \<open>\<open>ACCESS_MEM_FAST\<close>: the value read, or the old one and the error.\<close>

definition fast_get :: "cursor \<Rightarrow> u64 \<Rightarrow> u64 \<Rightarrow> machine \<Rightarrow> unit reply \<times> u64 \<times> machine" where
  "fast_get c a old M =
     (case dwarf_get M c a of Ok (v, M) \<Rightarrow> (Ret (), v, M) | Fail e \<Rightarrow> (Err e, old, M) | _ \<Rightarrow> (Ret (), old, M))"

definition trace_standard ::
  "unw_tdep_frame_t \<Rightarrow> trace_regs \<Rightarrow> unw_state \<Rightarrow> unit reply \<times> trace_regs \<times> unw_state" where
  "trace_standard f r = (\<lambda>(c, M).
     let cfa = (if cfa_reg_rsp f then tr_rsp r else tr_rbp r) + of_int (cfa_reg_offset f);
         (x, rip, M) = fast_get c (cfa - 8) (tr_rip r) M;
         (x, rbp, M) = (if x = Ret () \<and> rbp_cfa_offset f \<noteq> - 1
                        then fast_get c (cfa + of_int (rbp_cfa_offset f)) (tr_rbp r) M else (x, tr_rbp r, M)) in
     (x, \<lparr>tr_cfa = cfa, tr_rip = rip, tr_rbp = rbp, tr_rsp = cfa\<rparr>, c\<lparr>c_use_prev_instr := True\<rparr>, M))"

definition trace_sigreturn ::
  "unw_tdep_frame_t \<Rightarrow> trace_regs \<Rightarrow> unw_state \<Rightarrow> unit reply \<times> trace_regs \<times> unw_state" where
  "trace_sigreturn f r = (\<lambda>(c, M).
     let uc = tr_cfa r + of_int (cfa_reg_offset f);
         (x, rip, M) = fast_get c (uc + uc_mcontext_gregs ! RIP) (tr_rip r) M;
         (x, rbp, M) = (if x = Ret () then fast_get c (uc + uc_mcontext_gregs ! RBP) (tr_rbp r) M else (x, tr_rbp r, M));
         (x, rsp, M) = (if x = Ret () then fast_get c (uc + uc_mcontext_gregs ! RSP) (tr_rsp r) M else (x, tr_rsp r, M)) in
     (x, \<lparr>tr_cfa = rsp, tr_rip = rip, tr_rbp = rbp, tr_rsp = rsp\<rparr>, c\<lparr>c_use_prev_instr := False\<rparr>, M))"

text \<open>The registers of the next frame.\<close>

definition trace_advance ::
  "unw_tdep_frame_t \<Rightarrow> trace_regs \<Rightarrow> unw_state \<Rightarrow> unit reply \<times> trace_regs \<times> unw_state" where
  "trace_advance f r = (\<lambda>(c, M).
     case frame_type f of
       UNW_X86_64_FRAME_GUESSED \<Rightarrow> trace_standard f r (c\<lparr>c_validate := True\<rparr>, M)
     | UNW_X86_64_FRAME_STANDARD \<Rightarrow> trace_standard f r (c, M)
     | UNW_X86_64_FRAME_SIGRETURN \<Rightarrow> trace_sigreturn f r (c, M)
     | UNW_X86_64_FRAME_OTHER \<Rightarrow> (Err UNW_ESTOPUNWIND, r, c, M))"

text \<open>
  The loop, by the number of frames that still fit into the buffer; \<open>x\<close> is the value of \<open>ret\<close> so far and
  \<open>out\<close> the addresses recorded so far.
\<close>

primrec trace_loop ::
  "nat \<Rightarrow> nat \<Rightarrow> unit reply \<Rightarrow> trace_regs \<Rightarrow> u64 list \<Rightarrow> trace_lib \<Rightarrow> (unit reply \<times> u64 list \<times> trace_lib) outcome" where
  "trace_loop fuel 0 x r out s = Ok (x, out, s)"
| "trace_loop fuel (Suc n) x r out s =
     (let r = r\<lparr>tr_rip := tr_rip r - prev_instr (fst (snd s))\<rparr> in
      obind (trace_lookup fuel r s) (\<lambda>(slot, cache, c, L).
      case slot of
        None \<Rightarrow> Ok (Err UNW_ENOINFO, out, cache, c, L)
      | Some slot \<Rightarrow>
          (let f = tc_frames cache ! slot in
           if virtual_address f \<noteq> tr_rip r then Panic
           else if last_frame f then Ok (x, out, cache, c, L)
           else
             (let (x, r, c, M) = trace_advance f r (c, l_machine L); s = (cache, c, L\<lparr>l_machine := M\<rparr>) in
              if x \<noteq> Ret () \<or> tr_rip r < 0x4000 then Ok (x, out, s)
              else trace_loop fuel n x r (out @ [tr_rip r - prev_instr c]) s))))"

text \<open>
  \<open>tdep_trace\<close> for a cursor, a buffer and a size that are there: the return value, the addresses stored
  into the buffer (their number is the new size) and the state.
\<close>

definition tdep_trace ::
  "nat \<Rightarrow> int \<Rightarrow> int \<Rightarrow> cursor \<times> unw_lib \<times> trace_state \<Rightarrow>
   (unit reply \<times> u64 list \<times> cursor \<times> unw_lib \<times> trace_state) outcome" where
  "tdep_trace fuel key maxdepth = (\<lambda>(c, L, ts).
     if maxdepth \<le> 0 then Ok (Err UNW_EINVAL, [], c, L, ts)
     else
       (let c = c\<lparr>c_stash_frames := True\<rparr>;
            (x, rbp, M) = fast_get c (c_loc c ! RBP) 0 (l_machine L);
            r = \<lparr>tr_cfa = c_cfa c, tr_rip = c_ip c, tr_rbp = rbp, tr_rsp = c_cfa c\<rparr> in
        if x \<noteq> Ret () then Panic
        else
          obind (trace_cache_get key (l_env L, ts)) (\<lambda>(p, e, ts).
          let L = L\<lparr>l_machine := M, l_env := e\<rparr> in
          case (if p = 0 then None else ts_caches ts p) of
            None \<Rightarrow> Ok (Err UNW_ENOMEM, [], c\<lparr>c_stash_frames := False\<rparr>, L, ts)
          | Some cache \<Rightarrow>
              obind (trace_loop fuel (nat maxdepth) (Ret ()) r [] (cache, c, L)) (\<lambda>(x, out, cache, c, L).
              Ok (x, out, c, L, ts\<lparr>ts_caches := (ts_caches ts)(p \<mapsto> cache)\<rparr>)))))"

section \<open>A step keeps the address of the frame record\<close>

abbreviation frame_va :: "cursor \<Rightarrow> u64" where
  "frame_va c \<equiv> virtual_address (c_frame_info c)"

lemma stash_va: "tdep_stash_frame c rs = Ok c' \<Longrightarrow> frame_va c' = frame_va c"
  by (auto simp: tdep_stash_frame_def stash_standard_def Let_def split: if_splits)

lemma apply_ip_va: "apply_ip (c, M) = Ok (x, c', M') \<Longrightarrow> frame_va c' = frame_va c"
  by (auto simp: apply_ip_def Let_def cbind_eq_Ok split: if_splits)

lemma apply_reg_state_va:
  assumes "apply_reg_state fuel rs (c, M) = Ok (x, c', M')"
  shows "frame_va c' = frame_va c"
  using assms unfolding apply_reg_state_def Let_def
  by (auto elim!: cbind_OkE split: if_splits prod.splits dest!: apply_regs_cursor apply_ip_va stash_va)

lemma keeps_frame_va: "keeps_frame s s' \<Longrightarrow> frame_va (fst s') = frame_va (fst s)"
  by (auto simp: keeps_frame_def)

lemma put_unwind_info_va: "put_unwind_info s = Ok s' \<Longrightarrow> frame_va (fst s') = frame_va (fst s)"
  by (cases s; cases "pi_unwind_info (c_pi (fst s))") (auto simp: put_unwind_info_def Let_def split: if_splits prod.splits)

lemma dwarf_step_va:
  assumes "dwarf_step fuel s = Ok (r, s')"
  shows "frame_va (fst s') = frame_va (fst s)"
proof -
  have a: "frame_va (fst t') = frame_va (fst t)" if "on_machine (apply_reg_state fuel rs) t = Ok (x, t')" for rs t t' x
    using that by (cases t) (auto simp: on_machine_def dest: apply_reg_state_va)
  show ?thesis
    using assms unfolding dwarf_step_def dwarf_find_save_locs_def uncached_dwarf_find_save_locs_def
    by (auto elim!: cbind_OkE dest!: fetch_proc_info_keeps [THEN keeps_frame_va] lib_state_record_keeps [THEN keeps_frame_va]
        a put_unwind_info_va)
qed

lemma signal_frame_va: "unw_is_signal_frame (c, M) = (b, c', M') \<Longrightarrow> frame_va c' = frame_va c"
  by (auto simp: unw_is_signal_frame_def Let_def split: outcome.splits reply.splits prod.splits)

lemma handle_signal_frame_va: "unw_handle_signal_frame (c, M) = Ok (x, c', M') \<Longrightarrow> frame_va c' = frame_va c"
  by (auto simp: unw_handle_signal_frame_def Let_def cbind_eq_Ok split: if_splits)

lemma plt_entry_va: "is_plt_entry (c, M) = (b, c', M') \<Longrightarrow> c' = c"
  by (auto simp: is_plt_entry_def split: outcome.splits prod.splits)

lemma guess_frame_va: "guess_frame rbp (c, M) = Ok (x, l, l', c', M') \<Longrightarrow> frame_va c' = frame_va c"
  by (auto simp: guess_frame_def Let_def split: outcome.splits prod.splits)

lemma step_without_dwarf_va:
  assumes "step_without_dwarf (c, M) = Ok (x, c', M')"
  shows "frame_va c' = frame_va c"
proof -
  obtain b c1 M1 where 1: "unw_is_signal_frame (c, M) = (b, c1, M1)" by (metis prod_cases3)
  obtain p c2 M2 where 2: "is_plt_entry (c1, M1) = (p, c2, M2)" by (metis prod_cases3)
  note v = signal_frame_va [OF 1] plt_entry_va [OF 2]
  show ?thesis
  proof (cases b)
    case True
    then show ?thesis using assms 1 v by (auto simp: step_without_dwarf_def dest!: handle_signal_frame_va)
  next
    case False
    then show ?thesis using assms 1 2 v
      by (auto simp: step_without_dwarf_def cbind_eq_Ok split: if_splits dest!: guess_frame_va)
  qed
qed

lemma finish_step_va: "finish_step r ip cfa (c, M) = Ok (x, c', M') \<Longrightarrow> frame_va c' = frame_va c"
  by (auto simp: finish_step_def Let_def cbind_eq_Ok split: if_splits)

lemma unw_step_va:
  assumes "unw_step fuel (c, L) = Ok (x, c', L')"
  shows "frame_va c' = frame_va c"
proof -
  let ?c = "c\<lparr>c_validate := True, c_sigcontext_format := X86_64_SCF_NONE\<rparr>"
  from assms obtain r d K where d: "dwarf_step fuel (?c, L) = Ok (r, d, K)" by (auto simp: unw_step_def Let_def)
  have v: "frame_va d = frame_va c" using dwarf_step_va [OF d] by simp
  show ?thesis
  proof (cases "r = Err UNW_ENOINFO")
    case True
    with assms d obtain M where
      "cbind (step_without_dwarf (d\<lparr>c_validate := True\<rparr>, l_machine K)) (\<lambda>r s.
         case r of Some r \<Rightarrow> finish_step r (c_ip d) (c_cfa d) s | None \<Rightarrow> ret 0 s) = Ok (x, c', M)"
      by (auto simp: unw_step_def Let_def on_machine_eq)
    then show ?thesis using v
      by (auto elim!: cbind_OkE split: option.splits dest!: step_without_dwarf_va finish_step_va)
  next
    case False
    then show ?thesis using assms d v by (auto simp: unw_step_def Let_def split: if_splits reply.splits)
  qed
qed

lemma trace_init_addr_va:
  assumes "trace_init_addr fuel r s = Ok (f, s')"
  shows "virtual_address f = tr_rip r"
proof -
  obtain c L where s: "s = (c, L)" by (cases s)
  let ?c = "trace_cursor r c"
  obtain ok M where p: "put_all [(c_loc ?c ! RIP, tr_rip r), (c_loc ?c ! RBP, tr_rbp r), (c_loc ?c ! RSP, tr_rsp r)]
    (l_machine L) = (ok, M)" by fastforce
  have u: "frame_va ?c = tr_rip r" "virtual_address (unknown_frame (tr_rip r)) = tr_rip r"
    by (simp_all add: trace_cursor_def unknown_frame_def)
  show ?thesis
  proof (cases ok)
    case False
    then show ?thesis using assms p u by (simp add: s trace_init_addr_def Let_def)
  next
    case True
    then obtain x c' L' where st: "unw_step fuel (?c, L\<lparr>l_machine := M\<rparr>) = Ok (x, c', L')"
      using assms p by (auto simp: s trace_init_addr_def Let_def)
    show ?thesis using assms p u True st unw_step_va [OF st]
      by (cases x) (auto simp: s trace_init_addr_def Let_def split: if_splits)
  qed
qed

section \<open>The frame cache is a table\<close>

text \<open>
  The table has the announced size, which is never that of a shift that would be undefined, and at
  most half of its slots are counted as used.
\<close>

definition cache_inv :: "unw_trace_cache_t \<Rightarrow> bool" where
  "cache_inv cache = (length (tc_frames cache) = 2 ^ tc_log_size cache \<and> tc_log_size cache < 32 \<and>
     0 < tc_log_size cache \<and> tc_used cache \<le> 2 ^ tc_log_size cache div 2)"

lemma hash_slot_less: "n < 64 \<Longrightarrow> hash_slot rip n < 2 ^ n"
proof -
  assume "n < 64"
  have "unat (x AND (2 ^ n - 1)) < 2 ^ n" if "n < 64" for x :: u64
  proof -
    have "x AND (2 ^ n - 1) = take_bit n x" by (simp add: take_bit_eq_mask mask_eq_exp_minus_1)
    then show ?thesis using that by (simp add: unsigned_take_bit_eq)
  qed
  then show ?thesis using \<open>n < 64\<close> by (simp add: hash_slot_def)
qed

lemma trace_probe_slot:
  assumes "slot < size0"
  shows "trace_probe frames size0 rip n slot = Hit k \<Longrightarrow> k < size0 \<and> virtual_address (frames ! k) = rip"
    and "trace_probe frames size0 rip n slot = Free k \<Longrightarrow> k < size0 \<and> virtual_address (frames ! k) = 0 \<and> rip \<noteq> 0"
  using assms by (induction n arbitrary: slot) (auto simp: Let_def split: if_splits)

text \<open>Filling the free slot a probe found makes the probe find the address, and no other address is lost.\<close>

lemma trace_probe_fill:
  assumes "trace_probe frames size0 rip n slot = Free k" "slot < size0" "size0 = length frames" "virtual_address f = rip"
  shows "trace_probe (frames[k := f]) size0 rip n slot = Hit k"
  using assms
proof (induction n arbitrary: slot)
  case (Suc n)
  then have "frames \<noteq> []" by auto
  show ?case
  proof (cases "slot = k")
    case True
    then show ?thesis using Suc.prems by (simp add: Let_def)
  next
    case False
    then show ?thesis using \<open>frames \<noteq> []\<close> Suc.prems Suc.IH [of "if slot + 1 \<ge> size0 then slot + 1 - size0 else slot + 1"]
      by (auto simp: Let_def split: if_splits)
  qed
qed simp

lemma trace_probe_keep:
  assumes "trace_probe frames size0 rip' n slot = Hit j" "slot < size0" "size0 = length frames" "rip' \<noteq> 0"
    "virtual_address (frames ! k) = 0" "virtual_address f \<noteq> 0"
  shows "trace_probe (frames[k := f]) size0 rip' n slot = Hit j"
  using assms
proof (induction n arbitrary: slot)
  case (Suc n)
  have "slot \<noteq> k" "frames \<noteq> []" using Suc.prems by (auto simp: Let_def split: if_splits)
  then show ?case using Suc.prems Suc.IH [of "if slot + 1 \<ge> size0 then slot + 1 - size0 else slot + 1"]
    by (auto simp: Let_def split: if_splits)
qed simp

text \<open>The slot to fill is free, in the table or in a new one.\<close>

lemma trace_slot_cases:
  assumes "trace_slot p rip (cache, e) = Ok (Ret slot, cache', e')"
  obtains (free) "p = Free slot" "cache' = cache" "tc_used cache < 2 ^ tc_log_size cache div 2"
  | (fresh) n where "tc_frames cache' = replicate (2 ^ n) empty_frame" "tc_log_size cache' = n" "n < 32" "1 < n"
      "tc_used cache' = 0" "slot = hash_slot rip n"
proof -
  have ex: thesis if "trace_cache_expand (cache, e) = Ok (Ret (), cache', e')" "slot = hash_slot rip (tc_log_size cache')"
    using that fresh [of "tc_log_size cache + 2"]
    by (auto simp: trace_cache_expand_def table_size_def trace_cache_buckets_def defined_def Let_def
        split: if_splits prod.splits)
  show thesis
  proof (cases "\<exists>s. p = Free s \<and> tc_used cache < 2 ^ tc_log_size cache div 2")
    case True
    then show thesis using assms free by (auto simp: trace_slot_def)
  next
    case False
    then have "cbind (trace_cache_expand (cache, e)) (\<lambda>_ (cache, e). ret (hash_slot rip (tc_log_size cache)) (cache, e)) =
        Ok (Ret slot, cache', e')"
      using assms by (cases p) (auto simp: trace_slot_def)
    then show thesis using ex by (auto split: prod.splits)
  qed
qed

lemma trace_probe_hit_now:
  "virtual_address (frames ! slot) = rip \<Longrightarrow> trace_probe frames size0 rip 16 slot = Hit slot"
  by (simp add: eval_nat_numeral Let_def)

lemma trace_probe_free_now:
  "virtual_address (frames ! slot) = 0 \<Longrightarrow> rip \<noteq> 0 \<Longrightarrow> trace_probe frames size0 rip 16 slot = Free slot"
  by (simp add: eval_nat_numeral Let_def)

text \<open>A lookup that has to fill a slot fills a free one and counts it.\<close>

lemma trace_lookup_fills:
  assumes "cache_inv cache" "trace_lookup fuel r (cache, c, L) = Ok (Some slot, cache', c', L')"
    "p = trace_probe (tc_frames cache) (2 ^ tc_log_size cache) (tr_rip r) 16 (hash_slot (tr_rip r) (tc_log_size cache))"
    "\<nexists>k. p = Hit k"
  obtains d e f where "trace_slot p (tr_rip r) (cache, l_env L) = Ok (Ret slot, d, e)" "virtual_address f = tr_rip r"
    "cache' = (if virtual_address (tc_frames d ! slot) = 0 then d\<lparr>tc_used := tc_used d + 1\<rparr> else d)
       \<lparr>tc_frames := (tc_frames d)[slot := f]\<rparr>"
proof -
  have "trace_lookup fuel r (cache, c, L) =
      obind (trace_slot p (tr_rip r) (cache, l_env L)) (\<lambda>(x, cache, e).
       case x of
         Err _ \<Rightarrow> Ok (None, cache, c, L\<lparr>l_env := e\<rparr>)
       | Ret slot \<Rightarrow> trace_fill fuel r slot (cache, c, L\<lparr>l_env := e\<rparr>))"
    using assms(1,4)
    by (cases p) (simp_all add: trace_lookup_def table_size_def defined_def cache_inv_def assms(3) [symmetric])
  with assms(2) obtain x d e where x: "trace_slot p (tr_rip r) (cache, l_env L) = Ok (x, d, e)"
    "(case x of Err _ \<Rightarrow> Ok (None, d, c, L\<lparr>l_env := e\<rparr>) | Ret slot \<Rightarrow> trace_fill fuel r slot (d, c, L\<lparr>l_env := e\<rparr>)) =
       Ok (Some slot, cache', c', L')" by auto
  then obtain k where k: "x = Ret k" by (cases x) auto
  with x(2) obtain f s' where f: "trace_init_addr fuel r (c, L\<lparr>l_env := e\<rparr>) = Ok (f, s')" "slot = k"
    "cache' = (if virtual_address (tc_frames d ! k) = 0 then d\<lparr>tc_used := tc_used d + 1\<rparr> else d)
       \<lparr>tc_frames := (tc_frames d)[k := f]\<rparr>"
    by (auto simp: trace_fill_def Let_def split: if_splits)
  show thesis using that [OF _ trace_init_addr_va [OF f(1)], of d e] x(1) k f(2,3) by simp
qed

lemma trace_lookup_hit:
  assumes "tc_log_size cache < 32" "tr_rip r = rip"
    "trace_probe (tc_frames cache) (2 ^ tc_log_size cache) rip 16 (hash_slot rip (tc_log_size cache)) = Hit k"
  shows "trace_lookup fuel r (cache, c, L) = Ok (Some k, cache, c, L)"
  using assms by (simp add: trace_lookup_def table_size_def defined_def)

text \<open>C4: the frame cache is sound. For a well-formed table, \<open>trace_lookup\<close> returns a slot that holds a
  frame record of the address it was asked for, so that the assertion of \<open>tdep_trace\<close> holds, and leaves
  a well-formed table behind, never more than half full whatever collided or was replaced; and the
  next lookup of the same address finds that very slot without a step and without changing anything.\<close>

theorem trace_lookup_sound:
  assumes "cache_inv cache" "trace_lookup fuel r (cache, c, L) = Ok (Some slot, cache', c', L')"
  shows "cache_inv cache' \<and> slot < length (tc_frames cache') \<and>
    virtual_address (tc_frames cache' ! slot) = tr_rip r \<and>
    (\<forall>fuel2 r2 c2 L2. tr_rip r2 = tr_rip r \<longrightarrow>
       trace_lookup fuel2 r2 (cache', c2, L2) = Ok (Some slot, cache', c2, L2))"
proof -
  let ?rip = "tr_rip r" and ?n = "tc_log_size cache"
  define p where "p = trace_probe (tc_frames cache) (2 ^ ?n) ?rip 16 (hash_slot ?rip ?n)"
  have inv: "length (tc_frames cache) = 2 ^ ?n" "?n < 32" "0 < ?n" using assms(1) by (simp_all add: cache_inv_def)
  have h: "hash_slot ?rip m < 2 ^ m" if "m < 32" for m using hash_slot_less that by simp
  have concl: ?thesis if "cache_inv cache'" "slot < length (tc_frames cache')" "virtual_address (tc_frames cache' ! slot) = ?rip"
      "trace_probe (tc_frames cache') (2 ^ tc_log_size cache') ?rip 16 (hash_slot ?rip (tc_log_size cache')) = Hit slot"
    using that trace_lookup_hit [OF _ _ that(4)] by (simp add: cache_inv_def)
  show ?thesis
  proof (cases "\<exists>k. p = Hit k")
    case True
    then obtain k where k: "p = Hit k" by blast
    then have "slot = k" "cache' = cache"
      using assms(2) trace_lookup_hit [OF inv(2) refl k [unfolded p_def], of fuel c L] by simp_all
    then show ?thesis using concl trace_probe_slot(1) [OF h [OF inv(2)] k [unfolded p_def]] assms(1) inv(1) k
      by (simp add: p_def)
  next
    case False
    from trace_lookup_fills [OF assms p_def False] obtain d e f where
      d: "trace_slot p ?rip (cache, l_env L) = Ok (Ret slot, d, e)" "virtual_address f = ?rip"
      and c': "cache' = (if virtual_address (tc_frames d ! slot) = 0 then d\<lparr>tc_used := tc_used d + 1\<rparr> else d)
        \<lparr>tc_frames := (tc_frames d)[slot := f]\<rparr>" .
    from d(1) show ?thesis
    proof (cases rule: trace_slot_cases)
      case free
      note k = trace_probe_slot(2) [OF h [OF inv(2)] free(1) [unfolded p_def]]
      show ?thesis
        by (rule concl) (use c' free k inv d(2) assms(1)
            trace_probe_fill [OF free(1) [unfolded p_def] h [OF inv(2)] inv(1) [symmetric] d(2)]
          in \<open>simp_all add: cache_inv_def\<close>)
    next
      case (fresh n)
      have sl: "slot < 2 ^ n" using fresh h by simp
      have "(1 :: nat) \<le> 2 ^ n div 2" using fresh(4) by (cases n) simp_all
      then show ?thesis
        by (intro concl) (use c' fresh sl d(2) in \<open>simp_all add: cache_inv_def empty_frame_def trace_probe_hit_now\<close>)
    qed
  qed
qed

section \<open>The fast path follows standard frames\<close>

lemma fast_get_readable:
  assumes "readable_loc c a"
  shows "\<exists>M'. m_mem M' = m_mem M \<and> fast_get c a old M = (Ret (), read_word (m_mem M) a, M')"
  using dwarf_get_readable [OF assms, of M] by (auto simp: fast_get_def)

lemma bit_field_small:
  assumes "0 < n" "n \<le> 64" "abs (sint v) < 2 ^ (n - 1)"
  shows "bit_field n v = sint v"
  using assms by (auto simp: bit_field_def intro!: signed_take_bit_int_eq_self)

lemma stashable_CFAREL:
  assumes "stashable l = Ok True" "sl_where l = DWARF_WHERE_CFAREL"
  shows "of_int (bit_field 15 (sl_val l)) = sl_val l" "bit_field 15 (sl_val l) \<noteq> - 1"
proof -
  have *: "abs (sint (sl_val l)) < 2 ^ 14" "sl_val l + 1 \<noteq> 0"
    using assms by (auto simp: stashable_def labs64_def defined_def split: if_splits)
  then have b: "bit_field 15 (sl_val l) = sint (sl_val l)" by (intro bit_field_small) simp_all
  then show e: "of_int (bit_field 15 (sl_val l)) = sl_val l" by simp
  show "bit_field 15 (sl_val l) \<noteq> - 1"
  proof
    assume "bit_field 15 (sl_val l) = - 1"
    with e have "sl_val l = - 1" by simp
    with *(2) show False by simp
  qed
qed

text \<open>What a standard frame record holds.\<close>

lemma standard_record:
  assumes "is_standard_frame c rs = Ok True" "f = stash_standard rs (c_frame_info c)"
  shows "cfa_reg_rsp f \<longleftrightarrow> sl_val (rs_reg rs ! 17) = 7" "of_int (cfa_reg_offset f) = sl_val (rs_reg rs ! 18)"
    "sl_where (rs_reg rs ! RBP) = DWARF_WHERE_CFAREL \<Longrightarrow>
       of_int (rbp_cfa_offset f) = sl_val (rs_reg rs ! RBP) \<and> rbp_cfa_offset f \<noteq> - 1"
    "sl_where (rs_reg rs ! RBP) \<noteq> DWARF_WHERE_CFAREL \<Longrightarrow> rbp_cfa_offset f = rbp_cfa_offset (c_frame_info c)"
    "frame_type f = UNW_X86_64_FRAME_STANDARD"
    "sl_where (rs_reg rs ! RBP) \<in> {DWARF_WHERE_UNDEF, DWARF_WHERE_SAME, DWARF_WHERE_CFAREL}"
proof -
  have o: "abs (sint (sl_val (rs_reg rs ! 18))) < 2 ^ 29" "stashable (rs_reg rs ! RBP) = Ok True"
    using assms(1) by (auto simp: is_standard_frame_def labs64_def defined_def column_defs split: if_splits)
  have "bit_field 30 (sl_val (rs_reg rs ! 18)) = sint (sl_val (rs_reg rs ! 18))" using o(1) by (intro bit_field_small) simp_all
  then show "of_int (cfa_reg_offset f) = sl_val (rs_reg rs ! 18)"
    by (simp add: assms(2) stash_standard_def Let_def column_defs)
  show "cfa_reg_rsp f \<longleftrightarrow> sl_val (rs_reg rs ! 17) = 7" "frame_type f = UNW_X86_64_FRAME_STANDARD"
    "sl_where (rs_reg rs ! RBP) \<noteq> DWARF_WHERE_CFAREL \<Longrightarrow> rbp_cfa_offset f = rbp_cfa_offset (c_frame_info c)"
    by (simp_all add: assms(2) stash_standard_def Let_def column_defs)
  show "sl_where (rs_reg rs ! RBP) = DWARF_WHERE_CFAREL \<Longrightarrow>
       of_int (rbp_cfa_offset f) = sl_val (rs_reg rs ! RBP) \<and> rbp_cfa_offset f \<noteq> - 1"
    using stashable_CFAREL [OF o(2)] by (simp add: assms(2) stash_standard_def Let_def)
  show "sl_where (rs_reg rs ! RBP) \<in> {DWARF_WHERE_UNDEF, DWARF_WHERE_SAME, DWARF_WHERE_CFAREL}"
    using o(2) by (auto simp: stashable_def split: dwarf_where_t.splits)
qed

text \<open>
  The registers the tracer works with, for a cursor whose RBP can be read.
\<close>

definition tracks :: "machine \<Rightarrow> cursor \<Rightarrow> trace_regs \<Rightarrow> bool" where
  "tracks M c r = (tr_rsp r = c_cfa c \<and> tr_rbp r = read_word (m_mem M) (c_loc c ! RBP))"

lemma standard_cfa:
  assumes "simple_rules rs" "sl_val (rs_reg rs ! 17) = 7 \<or> sl_val (rs_reg rs ! 17) = 6" "tracks M c r"
    "readable_loc c (c_loc c ! RBP)"
  shows "\<exists>M'. unw_get_reg M c (int (unat (sl_val (rs_reg rs ! 17)))) =
    Ok (if sl_val (rs_reg rs ! 17) = 7 then tr_rsp r else tr_rbp r, M')"
  using assms(2-4) dwarf_get_readable [OF assms(4), of M]
  by (auto simp: tracks_def unw_get_reg_def tdep_access_reg_read_def)

text \<open>C9: fast tracing agrees with unwinding on standard frames. Let a register state without expressions,
  whose CFA is RBP or RSP plus an offset, be applied to a cursor, and let that leave a standard frame
  record. Then the tracer, working from that record and the values of RBP and RSP alone, computes the
  CFA, the return address and (unless RBP is undefined in the caller) the RBP of the very cursor that
  \<open>apply_reg_state\<close> produced.\<close>

theorem trace_standard_frame:
  assumes "simple_rules rs" "sl_val (rs_reg rs ! 17) = 7 \<or> sl_val (rs_reg rs ! 17) = 6"
    "length (c_loc c) = 17" "unat (c_ret_addr_column c) < 17" "c_stash_frames c"
    "frame_type (c_frame_info c) = UNW_X86_64_FRAME_OTHER" "rbp_cfa_offset (c_frame_info c) = - 1"
    "readable_loc c (c_loc c ! RBP)" "tracks M c r"
    "cfa = (if sl_val (rs_reg rs ! 17) = 7 then tr_rsp r else tr_rbp r) + sl_val (rs_reg rs ! 18)"
    "readable_loc c (caller_locs c cfa rs ! unat (c_ret_addr_column c))" "readable_loc c (caller_locs c cfa rs ! RBP)"
    "apply_reg_state fuel rs (c, M) = ret () (c', M')" "frame_type (c_frame_info c') = UNW_X86_64_FRAME_STANDARD"
  shows "\<exists>M''. m_mem M'' = m_mem M \<and> trace_advance (c_frame_info c') r (c, M) =
    (Ret (), \<lparr>tr_cfa = c_cfa c', tr_rip = c_ip c', tr_rbp = read_word (m_mem M) (c_loc c' ! RBP), tr_rsp = c_cfa c'\<rparr>,
     c\<lparr>c_use_prev_instr := True\<rparr>, M'')"
proof -
  let ?ra = "caller_locs c cfa rs ! unat (c_ret_addr_column c)"
  define d where "d = caller_cursor (m_mem M) c cfa rs"
  obtain M1 where M1: "unw_get_reg M c (int (unat (sl_val (rs_reg rs ! 17)))) =
      Ok (if sl_val (rs_reg rs ! 17) = 7 then tr_rsp r else tr_rbp r, M1)"
    using standard_cfa [OF assms(1,2,9,8)] by blast
  have "?ra = 0 \<or> readable_loc c ?ra" using assms(11) ..
  from apply_reg_state_simple [OF assms(1,3,4) M1 assms(10) refl this d_def, of fuel] obtain M2 where
    M2: "apply_reg_state fuel rs (c, M) =
    (if c_ip d = c_ip c \<and> cfa = c_cfa c then throw UNW_EBADFRAME (d, M2)
     else cbind (reads (tdep_stash_frame d rs) (d, M2)) (\<lambda>c (_, M). ret () (c, M)))"
    unfolding if_P [OF assms(5)] by blast
  have ra: "?ra \<noteq> 0" using assms(11) by (auto simp: readable_loc_def)
  have dd: "c_cfa d = cfa" "c_loc d = caller_locs c cfa rs" "c_ip d = read_word (m_mem M) ?ra"
    "c_frame_info d = c_frame_info c" "c_ret_addr_column d = c_ret_addr_column c"
    using ra by (simp_all add: d_def caller_cursor_def Let_def)
  have st: "tdep_stash_frame d rs = Ok c'"
    using assms(13) M2 by (auto simp: ret_def throw_def reads_def split: if_splits outcome.splits)
  have std: "is_standard_frame d rs = Ok True" "c' = d\<lparr>c_frame_info := stash_standard rs (c_frame_info d)\<rparr>"
    using st assms(6,14) dd(4) by (auto simp: tdep_stash_frame_def split: if_splits)
  note f = standard_record [OF std(1) refl]
  have ra8: "?ra = cfa - 8" using std(1) dd by (auto simp: is_standard_frame_def defined_def split: if_splits)
  have rbp: "caller_locs c cfa rs ! RBP = rule_loc c cfa (rs_reg rs ! RBP) (c_loc c ! RBP)"
    using caller_locs_map [OF assms(1,3)] by simp
  have und: "sl_where (rs_reg rs ! RBP) \<noteq> DWARF_WHERE_UNDEF"
    using assms(12) rbp by (auto simp: rule_loc_def readable_loc_def)
  obtain M3 where M3: "m_mem M3 = m_mem M" "fast_get c (cfa - 8) (tr_rip r) M = (Ret (), c_ip d, M3)"
    using fast_get_readable [OF assms(11), of M "tr_rip r"] ra8 dd(3) by auto
  obtain M4 where M4: "m_mem M4 = m_mem M" "fast_get c (c_loc d ! RBP) (tr_rbp r) M3 = (Ret (), read_word (m_mem M) (c_loc d ! RBP), M4)"
    using fast_get_readable [OF assms(12), of M3 "tr_rbp r"] M3(1) dd(2) by auto
  have adv: "trace_advance (c_frame_info c') r (c, M) = trace_standard (c_frame_info c') r (c, M)"
    using assms(14) by (simp add: trace_advance_def)
  show ?thesis
  proof (cases "sl_where (rs_reg rs ! RBP) = DWARF_WHERE_CFAREL")
    case True
    then have "cfa + of_int (rbp_cfa_offset (c_frame_info c')) = c_loc d ! RBP" "rbp_cfa_offset (c_frame_info c') \<noteq> - 1"
      using f(3) std(2) rbp dd(2) by (simp_all add: rule_loc_def)
    then show ?thesis using M3(2) M4 f(1,2) std(2) assms(10) dd(1,2) unfolding adv
      by (auto simp: trace_standard_def Let_def)
  next
    case False
    then have "rbp_cfa_offset (c_frame_info c') = - 1" "c_loc d ! RBP = c_loc c ! RBP"
      using f(4,6) und std(2) rbp dd(2,4) assms(7) by (auto simp: rule_loc_def)
    then show ?thesis using M3 f(1,2) std(2) assms(9,10) dd(1,2) unfolding adv
      by (auto simp: trace_standard_def Let_def tracks_def)
  qed
qed

text \<open>A function entered by a call, with RBP at 0x7000.\<close>

definition traced_cursor :: cursor where
  "traced_cursor = entry_cursor\<lparr>c_stash_frames := True, c_frame_info := unknown_frame 0x1234,
     c_loc := (replicate 17 0)[RBP := 0x7000]\<rparr>"

lemma traced_cursor_simps:
  "length (c_loc traced_cursor) = 17" "unat (c_ret_addr_column traced_cursor) = 16" "c_stash_frames traced_cursor"
  "c_frame_info traced_cursor = unknown_frame 0x1234" "c_loc traced_cursor ! 6 = 0x7000" "c_cfa traced_cursor = 0x8000"
  "c_ip traced_cursor = 0x1234" "\<not> c_validate traced_cursor"
  by (simp_all add: traced_cursor_def entry_cursor_def cursor0_def)

lemma traced_locs: "caller_locs traced_cursor 0x8008 entry_rules ! 16 = 0x8000" "caller_locs traced_cursor 0x8008 entry_rules ! 6 = 0x7000"
  unfolding caller_locs_map [OF entry_rules_simple traced_cursor_simps(1)]
  by (simp_all add: traced_cursor_simps entry_rules_def rule_loc_def nth_append)

lemma traced_apply:
  "\<exists>c' M'. apply_reg_state 0 entry_rules (traced_cursor, machine0) = ret () (c', M') \<and>
     frame_type (c_frame_info c') = UNW_X86_64_FRAME_STANDARD"
proof -
  let ?d = "caller_cursor (m_mem machine0) traced_cursor 0x8008 entry_rules"
  have g: "unw_get_reg machine0 traced_cursor (int (unat (sl_val (rs_reg entry_rules ! 17)))) = Ok (0x8000, machine0)"
    by (simp add: entry_rules_reg unw_get_reg_RSP traced_cursor_simps)
  have ra: "0x8000 = caller_locs traced_cursor 0x8008 entry_rules ! unat (c_ret_addr_column traced_cursor)"
    by (simp add: traced_cursor_simps traced_locs)
  have d: "c_frame_info ?d = unknown_frame 0x1234" "c_cfa ?d = 0x8008" "c_loc ?d = caller_locs traced_cursor 0x8008 entry_rules"
    "unat (c_ret_addr_column ?d) = 16" "length (c_loc ?d) = 17"
    by (simp_all add: caller_cursor_def Let_def traced_cursor_simps caller_locs_map [OF entry_rules_simple])
  have r: "rs_reg entry_rules ! 6 = \<lparr>sl_where = DWARF_WHERE_SAME, sl_val = 0\<rparr>"
    "rs_reg entry_rules ! 7 = \<lparr>sl_where = DWARF_WHERE_SAME, sl_val = 0\<rparr>" by (simp_all add: entry_rules_def nth_append)
  have "is_standard_frame ?d entry_rules = Ok True"
    unfolding is_standard_frame_def using d traced_locs r
    by (simp add: column_defs entry_rules_reg labs64_def defined_def stashable_def unknown_frame_def)
  then have st: "tdep_stash_frame ?d entry_rules = Ok (?d\<lparr>c_frame_info := stash_standard entry_rules (c_frame_info ?d)\<rparr>)"
    by (simp add: tdep_stash_frame_def)
  have "0x8000 = (0 :: u64) \<or> readable_loc traced_cursor 0x8000" by (simp add: readable_loc_def traced_cursor_simps)
  from apply_reg_state_simple [OF entry_rules_simple _ _ g _ ra this refl, of 0] st show ?thesis
    by (auto simp: traced_cursor_simps entry_rules_reg stash_standard_def Let_def)
qed

theorem trace_standard_frame_witness:
  "\<exists>c' M' M''. apply_reg_state 0 entry_rules (traced_cursor, machine0) = ret () (c', M') \<and>
     trace_advance (c_frame_info c') \<lparr>tr_cfa = 0x8000, tr_rip = 0x1234, tr_rbp = 0, tr_rsp = 0x8000\<rparr> (traced_cursor, machine0) =
       (Ret (), \<lparr>tr_cfa = c_cfa c', tr_rip = c_ip c', tr_rbp = read_word (m_mem machine0) (c_loc c' ! RBP),
         tr_rsp = c_cfa c'\<rparr>, traced_cursor\<lparr>c_use_prev_instr := True\<rparr>, M'')"
proof -
  let ?r = "\<lparr>tr_cfa = 0x8000, tr_rip = 0x1234, tr_rbp = 0, tr_rsp = 0x8000\<rparr>"
  obtain c' M' where a: "apply_reg_state 0 entry_rules (traced_cursor, machine0) = ret () (c', M')"
    "frame_type (c_frame_info c') = UNW_X86_64_FRAME_STANDARD" using traced_apply by blast
  have "read_word (m_mem machine0) 0x7000 = 0" by (simp add: read_word_bytes machine0_def)
  then have t: "tracks machine0 traced_cursor ?r" by (simp add: tracks_def traced_cursor_simps)
  have "\<exists>M''. m_mem M'' = m_mem machine0 \<and> trace_advance (c_frame_info c') ?r (traced_cursor, machine0) =
    (Ret (), \<lparr>tr_cfa = c_cfa c', tr_rip = c_ip c', tr_rbp = read_word (m_mem machine0) (c_loc c' ! RBP), tr_rsp = c_cfa c'\<rparr>,
     traced_cursor\<lparr>c_use_prev_instr := True\<rparr>, M'')"
    by (rule trace_standard_frame [OF entry_rules_simple _ _ _ _ _ _ _ t _ _ _ a, where cfa = "0x8008"])
       (simp_all add: traced_cursor_simps traced_locs entry_rules_reg unknown_frame_def readable_loc_def)
  with a(1) show ?thesis by blast
qed

section \<open>The fast path misreads guessed frames\<close>

text \<open>C40: fast tracing disagrees with unwinding on guessed frames. Where \<open>unw_step\<close> guesses that RBP is a
  frame pointer it moves to the return address above the saved frame pointer, but the frame record it
  leaves (CFA = RBP + 8, RBP saved at CFA) makes the tracer read the two words in the wrong order: it
  takes the saved frame pointer for the return address and the return address for RBP.\<close>

theorem guessed_frame_mistraced:
  assumes "no_unwind_info L (lookup_ip c)" "plain_code m (c_ip c)" "m = m_mem (l_machine L)"
    "guessable (l_machine L) c rbp" "rbp \<noteq> 0" "read_word m rbp \<noteq> rbp" "tr_rbp r = rbp"
  shows "\<exists>c' L' x r' s'. unw_step fuel (c, L) = ret 1 (c', L') \<and> c_ip c' = read_word m (rbp + 8) \<and>
    read_word m (c_loc c' ! RBP) = read_word m rbp \<and>
    trace_advance (c_frame_info c') r (c', l_machine L') = (x, r', s') \<and>
    tr_rip r' = read_word m rbp \<and> tr_rbp r' = read_word m (rbp + 8)"
proof -
  let ?d = "c\<lparr>c_validate := True, c_sigcontext_format := X86_64_SCF_NONE, c_pi := zero_proc_info\<rparr>"
  let ?g = "guessed m rbp ?d"
  obtain M' where st: "m_mem M' = m" "unw_step fuel (c, L) = ret 1 (?g, L\<lparr>l_machine := M'\<rparr>)"
    using unw_step_guess [OF assms(1) _ assms(4,5) _ refl, of fuel] assms(2,3,6) by auto
  have g: "c_ip ?g = read_word m (rbp + 8)" "c_loc ?g ! RBP = rbp" "frame_type (c_frame_info ?g) = UNW_X86_64_FRAME_GUESSED"
    "\<not> cfa_reg_rsp (c_frame_info ?g)" "cfa_reg_offset (c_frame_info ?g) = 8" "rbp_cfa_offset (c_frame_info ?g) = 0"
    by (simp_all add: guessed_def null_locs_def DWARF_NUM_PRESERVED_REGS_def)
  let ?v = "?g\<lparr>c_validate := True\<rparr>"
  have rd: "readable_loc ?v rbp" "readable_loc ?v (rbp + 8)" using assms(4,5) by (auto simp: guessable_def readable_loc_def)
  obtain M1 where M1: "m_mem M1 = m" "fast_get ?v rbp (tr_rip r) M' = (Ret (), read_word m rbp, M1)"
    using fast_get_readable [OF rd(1), of M'] st(1) by fastforce
  obtain M2 where M2: "fast_get ?v (rbp + 8) (tr_rbp r) M1 = (Ret (), read_word m (rbp + 8), M2)"
    using fast_get_readable [OF rd(2), of M1] M1(1) by fastforce
  have "trace_advance (c_frame_info ?g) r (?g, M') = (Ret (), \<lparr>tr_cfa = rbp + 8, tr_rip = read_word m rbp,
      tr_rbp = read_word m (rbp + 8), tr_rsp = rbp + 8\<rparr>, ?v\<lparr>c_use_prev_instr := True\<rparr>, M2)"
    using g(3-6) M1(2) M2 assms(7) by (simp add: trace_advance_def trace_standard_def Let_def)
  then show ?thesis using st(2) g(1,2) by (intro exI [of _ ?g] exI [of _ "L\<lparr>l_machine := M'\<rparr>"]) simp
qed

theorem guessed_frame_mistraced_witness:
  "\<exists>c' L' x r' s'. unw_step 0 (stack_cursor 0x4000, lib0) = ret 1 (c', L') \<and> c_ip c' = 0x2100 \<and>
     trace_advance (c_frame_info c') \<lparr>tr_cfa = 0x8000, tr_rip = 0x4000, tr_rbp = 0x9000, tr_rsp = 0x8000\<rparr> (c', l_machine L') =
       (x, r', s') \<and> tr_rip r' = 0x9100"
proof -
  let ?r = "\<lparr>tr_cfa = 0x8000, tr_rip = 0x4000, tr_rbp = 0x9000, tr_rsp = 0x8000\<rparr>"
  have "no_unwind_info lib0 (lookup_ip (stack_cursor 0x4000))"
    by (rule lib0_no_info) (simp add: lookup_ip_def stack_cursor_def cursor0_def)
  from guessed_frame_mistraced [OF this _ refl stack_cursor_guessable, of ?r 0] stack_mem_code(1) show ?thesis
    by (simp add: stack_mem_words stack_cursor_def) blast
qed

text \<open>
  A table of two slots, and a context at an address where the location of RIP is null, so that the
  frame cannot be examined.
\<close>

definition small_cache :: unw_trace_cache_t where
  "small_cache = \<lparr>tc_frames = replicate 2 empty_frame, tc_log_size = 1, tc_used = 0, tc_dtor_count = 0\<rparr>"

lemma small_cache_inv: "cache_inv small_cache"
  by (simp add: cache_inv_def small_cache_def)

lemma small_cache_fill:
  "\<exists>slot cache' c' L'. trace_lookup 0 \<lparr>tr_cfa = 0x8000, tr_rip = 0x4000, tr_rbp = 0x9000, tr_rsp = 0x8000\<rparr>
     (small_cache, cursor0\<lparr>c_uc := - 0xb0\<rparr>, lib0) = Ok (Some slot, cache', c', L')"
proof -
  let ?r = "\<lparr>tr_cfa = 0x8000, tr_rip = 0x4000, tr_rbp = 0x9000, tr_rsp = 0x8000\<rparr>" and ?c = "cursor0\<lparr>c_uc := - 0xb0\<rparr>"
  have h: "hash_slot 0x4000 1 < 2" using hash_slot_less [of 1 "0x4000"] by simp
  have "trace_probe (replicate 2 empty_frame) 2 0x4000 16 (hash_slot 0x4000 1) = Free (hash_slot 0x4000 1)"
    using h by (intro trace_probe_free_now) (simp_all add: empty_frame_def)
  moreover have "c_loc (trace_cursor ?r ?c) ! RIP = 0"
    by (simp add: trace_cursor_def DWARF_REG_LOC_def x86_64_r_uc_addr_def uc_mcontext_gregs_def cursor0_def)
  then have "\<exists>f s'. trace_init_addr 0 ?r (?c, lib0) = Ok (f, s')"
    by (simp add: trace_init_addr_def Let_def dwarf_put_def DWARF_IS_NULL_LOC_def)
  then obtain f s' where "trace_init_addr 0 ?r (?c, lib0) = Ok (f, s')" by blast
  moreover have "lib0\<lparr>l_env := l_env lib0\<rparr> = lib0" by simp
  ultimately show ?thesis
    by (cases s') (simp add: trace_lookup_def small_cache_def table_size_def defined_def trace_slot_def trace_fill_def ret_def)
qed

theorem trace_lookup_sound_witness:
  "\<exists>slot cache' c' L'. trace_lookup 0 \<lparr>tr_cfa = 0x8000, tr_rip = 0x4000, tr_rbp = 0x9000, tr_rsp = 0x8000\<rparr>
     (small_cache, cursor0\<lparr>c_uc := - 0xb0\<rparr>, lib0) = Ok (Some slot, cache', c', L') \<and>
   cache_inv cache' \<and> virtual_address (tc_frames cache' ! slot) = 0x4000"
proof -
  obtain slot cache' c' L' where l: "trace_lookup 0 \<lparr>tr_cfa = 0x8000, tr_rip = 0x4000, tr_rbp = 0x9000, tr_rsp = 0x8000\<rparr>
     (small_cache, cursor0\<lparr>c_uc := - 0xb0\<rparr>, lib0) = Ok (Some slot, cache', c', L')" using small_cache_fill by blast
  from trace_lookup_sound [OF small_cache_inv l] l show ?thesis by simp
qed

end
