(* ===== verification/Unw_Backtrace.thy ===== *)
theory Unw_Backtrace
  imports Unw_Trace
begin

text \<open>
  Backtraces: \<open>slow_backtrace\<close> and \<open>unw_backtrace\<close> of \<^verbatim>\<open>backtrace.c\<close>, the loop over \<open>unw_step\<close> and the fast
  trace with that loop as its fallback. Capturing the context (\<open>getcontext\<close>, assembly) is a parameter:
  a function on the machine that stores the registers at a given address.

  The loop over frames has its own bound, \<open>steps\<close>; a run that needs more of it is \<open>Diverge\<close>. Addresses
  are appended to a list that stands for the part of the buffer that has been filled. The contract between the
  unwinder and the loops over frames is the locale \<open>stack_walk\<close>.
\<close>

section \<open>The loop over frames\<close>

primrec slow_loop :: "nat \<Rightarrow> nat \<Rightarrow> int \<Rightarrow> u64 list \<Rightarrow> lib_state \<Rightarrow> (u64 list \<times> lib_state) outcome" where
  "slow_loop 0 fuel n_max out s = Diverge"
| "slow_loop (Suc steps) fuel n_max out s =
     obind (unw_step fuel s) (\<lambda>(r, c, L).
     case r of
       Err _ \<Rightarrow> Ok (out, c, L)
     | Ret n \<Rightarrow>
         if n \<le> 0 then Ok (out, c, L)
         else if int (length out) \<ge> n_max then Ok (out, c, L)
         else
           (case unw_get_reg (l_machine L) c (int RIP) of
              Ok (ip, M) \<Rightarrow> slow_loop steps fuel n_max (out @ [ip]) (c, L\<lparr>l_machine := M\<rparr>)
            | _ \<Rightarrow> Ok (out, c, L)))"

definition slow_backtrace ::
  "nat \<Rightarrow> nat \<Rightarrow> int \<Rightarrow> addr \<Rightarrow> lib_state \<Rightarrow> (u64 list \<times> lib_state) outcome" where
  "slow_backtrace steps fuel n_max uc = (\<lambda>(c, L).
     case unw_init_local (l_machine L) c uc of
       Ok (c, M) \<Rightarrow> slow_loop steps fuel n_max [] (c, L\<lparr>l_machine := M\<rparr>)
     | _ \<Rightarrow> Ok ([], c, L))"

definition unw_backtrace ::
  "(addr \<Rightarrow> machine \<Rightarrow> machine) \<Rightarrow> (addr \<Rightarrow> machine \<Rightarrow> machine) \<Rightarrow> nat \<Rightarrow> nat \<Rightarrow> int \<Rightarrow> int \<Rightarrow> addr \<Rightarrow>
   cursor \<times> unw_lib \<times> trace_state \<Rightarrow> (u64 list \<times> unw_lib \<times> trace_state) outcome" where
  "unw_backtrace getcontext_trace getcontext steps fuel key n_max uc = (\<lambda>(c, L, ts).
     case unw_init_local (getcontext_trace uc (l_machine L)) c uc of
       Ok (c, M) \<Rightarrow>
         obind (tdep_trace fuel key n_max (c, L\<lparr>l_machine := M\<rparr>, ts)) (\<lambda>(r, out, c, L, ts).
         case r of
           Ret _ \<Rightarrow> Ok (out, L, ts)
         | Err _ \<Rightarrow>
             obind (slow_backtrace steps fuel n_max uc (c, L\<lparr>l_machine := getcontext uc (l_machine L)\<rparr>)) (\<lambda>(out, c, L).
             Ok (out, L, ts)))
     | _ \<Rightarrow> Ok ([], L\<lparr>l_machine := getcontext_trace uc (l_machine L)\<rparr>, ts))"

section \<open>Chains of frame pointers\<close>

text \<open>
  Every frame of the chain stores the caller's frame pointer, which is above it, and the return
  address behind it; the outermost one stores 0.
\<close>

primrec frame_chain :: "memory \<Rightarrow> u64 \<Rightarrow> u64 list \<Rightarrow> bool" where
  "frame_chain m rbp [] = (rbp = 0)"
| "frame_chain m rbp (ra # ras) = (rbp \<noteq> 0 \<and> PAGE_START rbp \<noteq> 0 \<and> PAGE_START (rbp + 8) \<noteq> 0 \<and>
     read_word m (rbp + 8) = ra \<and> (read_word m rbp = 0 \<or> rbp < read_word m rbp) \<and> frame_chain m (read_word m rbp) ras)"

text \<open>Code the unwinder has nothing on, for a cursor that looks up the address before the instruction.\<close>

definition opaque_code :: "unw_lib \<Rightarrow> u64 \<Rightarrow> u64 \<Rightarrow> bool" where
  "opaque_code L back ip = (plain_code (m_mem (l_machine L)) ip \<and> no_unwind_info L (ip - back))"

lemma no_unwind_info_machine [simp]: "no_unwind_info (L\<lparr>l_machine := M\<rparr>) ip = no_unwind_info L ip"
  by (simp add: no_unwind_info_def)

lemma lookup_ip_back: "lookup_ip c = c_ip c - prev_instr c"
  by (simp add: lookup_ip_def prev_instr_def)

text \<open>The distance between the frame pointer and the CFA of the cursor stays the same along the chain.\<close>

lemma cfa_moves:
  fixes cfa rbp up :: u64
  assumes "cfa < rbp" "rbp - cfa \<le> 0x4000" "rbp < up"
  shows "cfa + (up - rbp) < up" "up - (cfa + (up - rbp)) \<le> 0x4000"
proof -
  show "cfa + (up - rbp) < up" using assms by unat_arith
  have "up - (cfa + (up - rbp)) = rbp - cfa" by simp
  then show "up - (cfa + (up - rbp)) \<le> 0x4000" using assms(2) by simp
qed

lemma guessable_chain:
  assumes "guessable M c rbp" "frame_chain (m_mem M) rbp (ra # ras)" "up = read_word (m_mem M) rbp"
    "frame_chain (m_mem M) up ras" "m_mem M' = m_mem M" "c_cfa d = c_cfa c"
  shows "guessable M' (guessed (m_mem M) rbp d) up"
proof -
  have l: "c_loc (guessed (m_mem M) rbp d) ! RBP = rbp" "length (c_loc (guessed (m_mem M) rbp d)) = 17"
    by (simp_all add: guessed_def null_locs_def DWARF_NUM_PRESERVED_REGS_def)
  have c: "c_cfa (guessed (m_mem M) rbp d) = c_cfa c + (up - rbp)" using assms(3,6) by (simp add: guessed_def)
  have "PAGE_START up \<noteq> 0 \<and> PAGE_START (up + 8) \<noteq> 0" if "up \<noteq> 0" using assms(4) that by (cases ras) auto
  moreover have "c_cfa c + (up - rbp) < up \<and> up - (c_cfa c + (up - rbp)) \<le> 0x4000" if "up \<noteq> 0"
    using cfa_moves [of "c_cfa c" rbp up] assms(1-3) that by (auto simp: guessable_def)
  ultimately show ?thesis using assms l c unfolding guessable_def by auto
qed

text \<open>A cursor at the bottom of a chain that leads through opaque code.\<close>

definition chain_at :: "u64 \<Rightarrow> u64 list \<Rightarrow> cursor \<Rightarrow> unw_lib \<Rightarrow> bool" where
  "chain_at rbp ras c L = (frame_chain (m_mem (l_machine L)) rbp ras \<and> guessable (l_machine L) c rbp \<and>
     (\<forall>ip\<in>set (c_ip c # ras). opaque_code L (prev_instr c) ip))"

definition on_chain :: "u64 list \<Rightarrow> cursor \<Rightarrow> unw_lib \<Rightarrow> bool" where
  "on_chain ras c L = (\<exists>rbp. chain_at rbp ras c L)"

lemma on_chain_code:
  assumes "on_chain ras c L"
  shows "plain_code (m_mem (l_machine L)) (c_ip c)" "no_unwind_info L (lookup_ip c)"
  using assms by (auto simp: on_chain_def chain_at_def opaque_code_def lookup_ip_back)

lemma on_chain_end:
  assumes "on_chain [] c L"
  shows "\<exists>c' L'. unw_step fuel (c, L) = ret 0 (c', L')"
  using assms unw_step_end [OF on_chain_code(2,1) [OF assms], of fuel] by (auto simp: on_chain_def chain_at_def)

text \<open>One step goes to the caller, which is again on the chain.\<close>

lemma chain_at_step:
  assumes "chain_at rbp (ra # ras) c L" "m = m_mem (l_machine L)"
  shows "\<exists>c' L'. unw_step fuel (c, L) = ret 1 (c', L') \<and> c_ip c' = ra \<and> c_pi c' = zero_proc_info \<and>
    chain_at (read_word m rbp) ras c' L' \<and> c_cfa c' = c_cfa c + (read_word m rbp - rbp) \<and> m_mem (l_machine L') = m"
proof -
  let ?M = "l_machine L"
  have oc: "on_chain (ra # ras) c L" using assms(1) by (auto simp: on_chain_def)
  have r: "frame_chain m rbp (ra # ras)" "guessable ?M c rbp" "\<forall>ip\<in>set (c_ip c # ra # ras). opaque_code L (prev_instr c) ip"
    using assms by (auto simp: chain_at_def)
  define d where "d = c\<lparr>c_validate := True, c_sigcontext_format := X86_64_SCF_NONE, c_pi := zero_proc_info\<rparr>"
  let ?g = "guessed m rbp d" and ?up = "read_word m rbp"
  have ch: "rbp \<noteq> 0" "?up \<noteq> rbp" "read_word m (rbp + 8) = ra" "frame_chain m ?up ras" using r(1) by auto
  obtain M' where M': "m_mem M' = m" "unw_step fuel (c, L) = ret 1 (?g, L\<lparr>l_machine := M'\<rparr>)"
    using unw_step_guess [OF on_chain_code(2,1) [OF oc] r(2) ch(1) ch(2) [unfolded assms(2)] d_def, of fuel] assms(2) by auto
  have g: "c_ip ?g = ra" "prev_instr ?g = prev_instr c" "c_pi ?g = zero_proc_info" "c_cfa ?g = c_cfa c + (?up - rbp)"
    using ch(3) by (simp_all add: guessed_def d_def prev_instr_def)
  have "guessable M' (guessed (m_mem ?M) rbp d) (read_word (m_mem ?M) rbp)"
    by (rule guessable_chain [OF r(2) r(1) [unfolded assms(2)] refl ch(4) [unfolded assms(2)]]) (simp_all add: d_def M'(1) assms(2))
  then have "chain_at ?up ras ?g (L\<lparr>l_machine := M'\<rparr>)"
    using M'(1) g r(3) ch(4) assms(2) by (auto simp: chain_at_def opaque_code_def)
  then show ?thesis using M' g by fastforce
qed

section \<open>The unwinder and its clients\<close>

text \<open>
  What the loops over frames rely on: a step from a state that is at a frame with the return addresses \<open>as\<close> above it either
  enters the next frame, which is reported with a positive value, or says that there is none. \<open>k\<close> is what a client
  knows of the frame, \<open>up\<close> how it changes, \<open>entered\<close> what holds in the frame of a return address.
\<close>

locale stack_walk =
  fixes step :: "'s \<Rightarrow> ('s, int) call"
    and at :: "'k \<Rightarrow> 'a list \<Rightarrow> 's \<Rightarrow> bool"
    and up :: "'k \<Rightarrow> 'k"
    and entered :: "'a \<Rightarrow> 's \<Rightarrow> bool"
  assumes step_up: "at k (a # as) s \<Longrightarrow> \<exists>s'. step s = ret 1 s' \<and> entered a s' \<and> at (up k) as s'"
    and step_end: "at k [] s \<Longrightarrow> \<exists>s'. step s = ret 0 s'"
begin

text \<open>A loop that may make more steps than there are frames above has a step left in each of them.\<close>

lemma walk_induct [consumes 2, case_names outermost frame]:
  assumes "at k as s" "length as < n"
    and outermost: "\<And>n k s s'. at k [] s \<Longrightarrow> step s = Ok (Ret 0, s') \<Longrightarrow> P (Suc n) k [] s"
    and frame: "\<And>n k a as s s'. at k (a # as) s \<Longrightarrow> step s = Ok (Ret 1, s') \<Longrightarrow> entered a s' \<Longrightarrow> at (up k) as s' \<Longrightarrow>
      P n (up k) as s' \<Longrightarrow> P (Suc n) k (a # as) s"
  shows "P n k as s"
  using assms(1,2)
proof (induction as arbitrary: k s n)
  case Nil
  then show ?case using outermost step_end [OF Nil.prems(1)] by (cases n) (auto simp: ret_def)
next
  case (Cons a as)
  obtain j where j: "n = Suc j" "length as < j" using Cons.prems(2) by (cases n) auto
  obtain s' where s': "step s = ret 1 s'" "entered a s'" "at (up k) as s'" using step_up [OF Cons.prems(1)] by blast
  show ?case unfolding j(1) by (rule frame [OF Cons.prems(1) s'(1) [unfolded ret_def] s'(2,3) Cons.IH [OF s'(3) j(2)]])
qed

end

text \<open>Walks by \<open>unw_step\<close> whose clients read the return addresses off the cursor.\<close>

locale address_walk = stack_walk "unw_step fuel" at up entered
  for fuel :: nat and at :: "'k \<Rightarrow> u64 list \<Rightarrow> lib_state \<Rightarrow> bool" and up entered +
  assumes entered_ip: "entered a (c, L) \<Longrightarrow> c_ip c = a"
begin

text \<open>The loop of the slow backtrace.\<close>

lemma slow_loop_walk:
  assumes "at k as s" "length as < steps" "int (length out + length as) \<le> n_max"
  shows "\<exists>s'. slow_loop steps fuel n_max out s = Ok (out @ as, s')"
  using assms
proof (induction arbitrary: out rule: walk_induct)
  case (outermost n k s s')
  then show ?case by simp
next
  case (frame n k a as s s')
  obtain c L where s': "s' = (c, L)" by (cases s')
  then have "unw_get_reg (l_machine L) c (int RIP) = Ok (a, l_machine L)"
    using frame.hyps(3) entered_ip by (simp add: unw_get_reg_def)
  then show ?case using frame.hyps(2) frame.IH [of "out @ [a]"] frame.prems by (simp add: s')
qed

end

text \<open>The steps of \<open>unw_step\<close> on a chain; of a frame one knows the frame pointer and the CFA.\<close>

definition chain_state :: "memory \<Rightarrow> u64 \<times> u64 \<Rightarrow> u64 list \<Rightarrow> lib_state \<Rightarrow> bool" where
  "chain_state m = (\<lambda>(rbp, cfa) ras (c, L). chain_at rbp ras c L \<and> c_cfa c = cfa \<and> m_mem (l_machine L) = m)"

definition chain_up :: "memory \<Rightarrow> u64 \<times> u64 \<Rightarrow> u64 \<times> u64" where
  "chain_up m = (\<lambda>(rbp, cfa). (read_word m rbp, cfa + (read_word m rbp - rbp)))"

definition chain_entered :: "u64 \<Rightarrow> lib_state \<Rightarrow> bool" where
  "chain_entered ra = (\<lambda>(c, L). c_ip c = ra \<and> c_pi c = zero_proc_info)"

lemmas chain_state_defs = chain_state_def chain_up_def chain_entered_def

lemma chain_stateD:
  assumes "chain_state m k ras s"
  shows "c_cfa (fst s) = snd k" "m_mem (l_machine (snd s)) = m"
  using assms by (simp_all add: chain_state_def split_beta)

interpretation cw: address_walk fuel "chain_state m" "chain_up m" chain_entered for fuel m
proof unfold_locales
  fix k a as s
  show "\<exists>s'. unw_step fuel s = ret 1 s' \<and> chain_entered a s' \<and> chain_state m (chain_up m k) as s'" if "chain_state m k (a # as) s"
    using that chain_at_step [of _ a as _ _ m fuel] by (cases k; cases s) (fastforce simp: chain_state_defs)
  show "\<exists>s'. unw_step fuel s = ret 0 s'" if "chain_state m k [] s"
    using that on_chain_end [of _ _ fuel] by (cases k; cases s) (fastforce simp: chain_state_def on_chain_def)
  show "c_ip c = a" if "chain_entered a (c, L)" for c L using that by (simp add: chain_entered_def)
qed

text \<open>A context whose frame pointer starts a chain.\<close>

definition context_chain :: "u64 list \<Rightarrow> addr \<Rightarrow> unw_lib \<Rightarrow> bool" where
  "context_chain ras uc L =
     (let m = m_mem (l_machine L); rbp = read_word m (uc + 0x58); sp = read_word m (uc + 0xc8) in
      uc \<noteq> 0 \<and> unat uc + 256 < 2 ^ 64 \<and> PAGE_START (uc + 0x58) \<noteq> 0 \<and> sp < rbp \<and> rbp - sp \<le> 0x4000 \<and>
      frame_chain m rbp ras \<and> (\<forall>a\<in>set (read_word m (uc + 0xb0) # ras). opaque_code L 1 a))"

lemma init_chain_at:
  assumes "context_chain ras uc L" "length (c_eh_args c) = 2" "m = m_mem (l_machine L)"
  shows "\<exists>c'. unw_init_local (l_machine L) c uc = Ok (c', l_machine L) \<and> chain_at (read_word m (uc + 0x58)) ras c' L \<and>
    c_cfa c' = read_word m (uc + 0xc8)"
proof -
  let ?rbp = "read_word m (uc + 0x58)" and ?sp = "read_word m (uc + 0xc8)"
  have h: "uc \<noteq> 0" "unat uc + 256 < 2 ^ 64" "PAGE_START (uc + 0x58) \<noteq> 0" "?sp < ?rbp" "?rbp - ?sp \<le> 0x4000"
    "frame_chain m ?rbp ras" "\<forall>a\<in>set (read_word m (uc + 0xb0) # ras). opaque_code L 1 a"
    using assms(1,3) by (simp_all add: context_chain_def Let_def)
  obtain c' where c': "unw_init_local (l_machine L) c uc = Ok (c', l_machine L)"
    "c_loc c' = map (\<lambda>off. uc + off) uc_mcontext_gregs" "c_ip c' = read_word m (uc + 0xb0)" "c_cfa c' = ?sp" "c_use_prev_instr c'"
    using init_local_ok [OF h(1,2) assms(2), of "l_machine L"] assms(3) by metis
  have l: "c_loc c' ! RBP = uc + 0x58" "length (c_loc c') = 17" using c'(2) by (simp_all add: uc_mcontext_gregs_def)
  have "PAGE_START ?rbp \<noteq> 0 \<and> PAGE_START (?rbp + 8) \<noteq> 0" if "?rbp \<noteq> 0" using h(6) that by (cases ras) auto
  then have "guessable (l_machine L) c' ?rbp" using l c'(4) h(3-5) assms(3) by (auto simp: guessable_def)
  then have "chain_at ?rbp ras c' L" using h(6,7) c'(3,5) assms(3) by (auto simp: chain_at_def prev_instr_def)
  then show ?thesis using c'(1,4) by blast
qed

lemma init_chain_state:
  assumes "context_chain ras uc L" "length (c_eh_args c) = 2" "m = m_mem (l_machine L)"
  shows "\<exists>c'. unw_init_local (l_machine L) c uc = Ok (c', l_machine L) \<and>
    chain_state m (read_word m (uc + 0x58), read_word m (uc + 0xc8)) ras (c', L)"
  using init_chain_at [OF assms] assms(3) by (auto simp: chain_state_def)

section \<open>Properties\<close>

text \<open>C2: a backtrace through code without unwind information is complete: let a context hold RIP, RSP and
  a frame pointer RBP at most 0x4000 bytes above RSP, let the frame pointers form a chain up the stack,
  and let there be neither unwind information nor a signal trampoline, system call stub or PLT entry at
  any of the return addresses. Then \<open>slow_backtrace\<close> ends and stores exactly the return addresses of the
  chain, in order, if the buffer has room for them.\<close>

theorem slow_backtrace_complete:
  assumes "context_chain ras uc L" "length (c_eh_args c) = 2" "int (length ras) \<le> n_max" "length ras < steps"
  shows "\<exists>c' L'. slow_backtrace steps fuel n_max uc (c, L) = Ok (ras, c', L')"
proof -
  let ?m = "m_mem (l_machine L)"
  obtain c' where c': "unw_init_local (l_machine L) c uc = Ok (c', l_machine L)"
      "chain_state ?m (read_word ?m (uc + 0x58), read_word ?m (uc + 0xc8)) ras (c', L)"
    using init_chain_state [OF assms(1,2) refl] by blast
  then show ?thesis using cw.slow_loop_walk [OF c'(2) assms(4), of "[]" n_max fuel] assms(3) by (auto simp: slow_backtrace_def)
qed

text \<open>A context at 0x6000 for the stack of two frames.\<close>

definition backtrace_mem :: memory where
  "backtrace_mem a = (if a = 0x6059 then 0x90 else if a = 0x60b1 then 0x40 else if a = 0x60c9 then 0x80
     else stack_mem a)"

lemma backtrace_mem_words:
  "read_word backtrace_mem 0x6058 = 0x9000" "read_word backtrace_mem 0x60b0 = 0x4000" "read_word backtrace_mem 0x60c8 = 0x8000"
  "read_word backtrace_mem 0x9000 = 0x9100" "read_word backtrace_mem 0x9008 = 0x2100"
  "read_word backtrace_mem 0x9100 = 0" "read_word backtrace_mem 0x9108 = 0x3100"
  by (simp_all add: read_word_bytes backtrace_mem_def stack_mem_def)

lemma backtrace_mem_code: "ip \<in> {0x4000, 0x2100, 0x3100} \<Longrightarrow> plain_code backtrace_mem ip"
proof -
  have "read_word backtrace_mem a = 0" if "a \<in> {0x4000, 0x4008, 0x4010, 0x3ffb, 0x2100, 0x2108, 0x2110, 0x20fb,
      0x3100, 0x3108, 0x3110, 0x30fb}" for a
    using that by (elim insertE emptyE) (simp_all add: read_word_bytes backtrace_mem_def stack_mem_def)
  then show "ip \<in> {0x4000, 0x2100, 0x3100} \<Longrightarrow> plain_code backtrace_mem ip"
    by (elim insertE emptyE) (simp_all add: plain_code_def)
qed

definition backtrace_lib :: unw_lib where
  "backtrace_lib = lib0\<lparr>l_machine := machine0\<lparr>m_mem := backtrace_mem\<rparr>\<rparr>"

lemma backtrace_context: "context_chain [0x2100, 0x3100] 0x6000 backtrace_lib"
proof -
  have pages: "PAGE_START 0x6058 \<noteq> 0" "PAGE_START 0x9000 \<noteq> 0" "PAGE_START 0x9008 \<noteq> 0" "PAGE_START 0x9100 \<noteq> 0"
    "PAGE_START 0x9108 \<noteq> 0" by (simp_all add: PAGE_START_def)
  have "frame_chain backtrace_mem 0x9000 [0x2100, 0x3100]" using pages by (simp add: backtrace_mem_words)
  moreover have "\<forall>a\<in>set [0x4000, 0x2100, 0x3100]. opaque_code backtrace_lib 1 a"
    using backtrace_mem_code lib0_no_info by (simp add: opaque_code_def backtrace_lib_def)
  ultimately show ?thesis using pages by (simp add: context_chain_def backtrace_mem_words backtrace_lib_def Let_def)
qed

theorem slow_backtrace_complete_witness:
  "\<exists>c' L'. slow_backtrace 3 0 2 0x6000 (cursor0, backtrace_lib) = Ok ([0x2100, 0x3100], c', L')"
  by (rule slow_backtrace_complete [OF backtrace_context]) (simp_all add: cursor0_def)

end
