(* ===== verification/Unw_Exception.thy ===== *)
theory Unw_Exception
  imports Unw_Backtrace
begin

text \<open>
  The exception interface: resuming at a cursor (\<^verbatim>\<open>Gresume.c\<close>) and the two-phase unwinding of
  \<^verbatim>\<open>Unwind.c\<close> and \<^verbatim>\<open>unwind-internal.h\<close>.

  Personality, stop, trace and cleanup routines are code of the client: they are parameters, functions
  from their address and arguments to a reason code and a new state. \<open>getcontext\<close> is a function on the
  machine as for backtraces, and fails never; \<open>setcontext\<close> hands control to the context, so that a call of
  it is the end of the run (\<open>Resumed\<close>). The loops over frames are bounded by \<open>steps\<close>. Calls that only
  feed a \<open>printf\<close> are left out.
\<close>

section \<open>Resuming\<close>

text \<open>
  One round of the loop that copies the registers of the cursor into the context. The variable \<open>val\<close> is
  carried from round to round: a read that fails leaves it alone, and the write is not part of the
  condition. Writing it before anything was stored in it is undefined.
\<close>

definition establish_reg ::
  "cursor \<Rightarrow> nat \<Rightarrow> u64 option \<times> machine \<Rightarrow> (u64 option \<times> machine) outcome" where
  "establish_reg c reg = (\<lambda>(val, M).
     let (val, M) = (case tdep_access_reg_read M c (int reg) of Ok (v, M) \<Rightarrow> (Some v, M) | _ \<Rightarrow> (val, M)) in
     case val of
       None \<Rightarrow> UB
     | Some v \<Rightarrow> Ok (val, case access_reg_write M c (int reg) v of Ok M \<Rightarrow> M | _ \<Rightarrow> M))"

primrec establish_regs ::
  "cursor \<Rightarrow> nat list \<Rightarrow> u64 option \<times> machine \<Rightarrow> (u64 option \<times> machine) outcome" where
  "establish_regs c [] s = Ok s"
| "establish_regs c (reg # regs) s = obind (establish_reg c reg s) (establish_regs c regs)"

text \<open>No register is a floating-point one (\<open>unw_is_fpreg\<close>), and \<open>UNW_REG_LAST\<close> is RIP.\<close>

definition establish_machine_state :: "unw_state \<Rightarrow> machine outcome" where
  "establish_machine_state = (\<lambda>(c, M). obind (establish_regs c [0..<Suc RIP] (None, M)) (\<lambda>(_, M). Ok M))"

definition x86_64_sigreturn :: "cursor \<Rightarrow> 'a outcome" where "x86_64_sigreturn c = Panic"

text \<open>\<open>setcontext\<close> does not come back.\<close>

definition x86_64_local_resume :: "nat \<Rightarrow> lib_state \<Rightarrow> lib_state outcome" where
  "x86_64_local_resume fuel s =
     obind (dwarf_make_proc_info fuel s) (\<lambda>(_, c, L).
     if c_sigcontext_format c \<noteq> X86_64_SCF_NONE then x86_64_sigreturn c else Ok (c, L))"

text \<open>The state that \<open>setcontext\<close> is entered with.\<close>

definition unw_resume :: "nat \<Rightarrow> lib_state \<Rightarrow> lib_state outcome" where
  "unw_resume fuel = (\<lambda>(c, L).
     obind (establish_machine_state (c, l_machine L)) (\<lambda>M. x86_64_local_resume fuel (c, L\<lparr>l_machine := M\<rparr>)))"

section \<open>Contexts and exceptions\<close>

datatype Unwind_Reason_Code =
    URC_NO_REASON
  | URC_FOREIGN_EXCEPTION_CAUGHT
  | URC_FATAL_PHASE2_ERROR
  | URC_FATAL_PHASE1_ERROR
  | URC_NORMAL_STOP
  | URC_END_OF_STACK
  | URC_HANDLER_FOUND
  | URC_INSTALL_CONTEXT
  | URC_CONTINUE_UNWIND

type_synonym Unwind_Action = u32

definition UA_SEARCH_PHASE :: Unwind_Action where "UA_SEARCH_PHASE = 1"
definition UA_CLEANUP_PHASE :: Unwind_Action where "UA_CLEANUP_PHASE = 2"
definition UA_HANDLER_FRAME :: Unwind_Action where "UA_HANDLER_FRAME = 4"
definition UA_FORCE_UNWIND :: Unwind_Action where "UA_FORCE_UNWIND = 8"
definition UA_END_OF_STACK :: Unwind_Action where "UA_END_OF_STACK = 16"

record Unwind_Exception =
  exception_class :: u64
  exception_cleanup :: u64
  private_1 :: u64
  private_2 :: u64

record Unwind_Context =
  ctx_cursor :: cursor
  ctx_end_of_stack :: bool

record exc_state =
  x_exception :: Unwind_Exception
  x_context :: Unwind_Context
  x_lib :: unw_lib

text \<open>
  The client's routines, by their address. A personality and a stop routine get the actions (the
  version and the exception class are in the state or constant); a stop routine gets its parameter too.
\<close>

record client =
  cl_personality :: "u64 \<Rightarrow> Unwind_Action \<Rightarrow> exc_state \<Rightarrow> (Unwind_Reason_Code \<times> exc_state) outcome"
  cl_stop :: "u64 \<Rightarrow> u64 \<Rightarrow> Unwind_Action \<Rightarrow> exc_state \<Rightarrow> (Unwind_Reason_Code \<times> exc_state) outcome"
  cl_trace :: "u64 \<Rightarrow> u64 \<Rightarrow> exc_state \<Rightarrow> (Unwind_Reason_Code \<times> exc_state) outcome"
  cl_cleanup :: "u64 \<Rightarrow> Unwind_Reason_Code \<Rightarrow> exc_state \<Rightarrow> exc_state outcome"
  cl_getcontext :: "addr \<Rightarrow> machine \<Rightarrow> machine"

datatype unwind_end = Returned Unwind_Reason_Code | Resumed

text \<open>A call of the library on the cursor of the context.\<close>

definition on_cursor :: "(lib_state \<Rightarrow> (lib_state, 'a) call) \<Rightarrow> exc_state \<Rightarrow> ('a reply \<times> exc_state) outcome" where
  "on_cursor f x =
     obind (f (ctx_cursor (x_context x), x_lib x)) (\<lambda>(r, c, L).
     Ok (r, x\<lparr>x_context := (x_context x)\<lparr>ctx_cursor := c\<rparr>, x_lib := L\<rparr>))"

text \<open>\<open>_Unwind_InitContext\<close>: whether it succeeded.\<close>

definition Unwind_InitContext :: "client \<Rightarrow> addr \<Rightarrow> exc_state \<Rightarrow> bool \<times> exc_state" where
  "Unwind_InitContext cl uc x =
     (let M = cl_getcontext cl uc (l_machine (x_lib x));
          x = x\<lparr>x_context := (x_context x)\<lparr>ctx_end_of_stack := False\<rparr>, x_lib := (x_lib x)\<lparr>l_machine := M\<rparr>\<rparr> in
      case unw_init_local M (ctx_cursor (x_context x)) uc of
        Ok (c, M) \<Rightarrow> (True, x\<lparr>x_context := (x_context x)\<lparr>ctx_cursor := c\<rparr>, x_lib := (x_lib x)\<lparr>l_machine := M\<rparr>\<rparr>)
      | _ \<Rightarrow> (False, x))"

section \<open>Phase 2\<close>

text \<open>
  What a personality routine's answer leads to. The \<open>panic\<close> behind the test for the handler frame is not
  part of that test (the braces are missing), so it is reached whenever the routine says to go on.
\<close>

definition phase2_answer ::
  "nat \<Rightarrow> Unwind_Reason_Code \<Rightarrow> exc_state \<Rightarrow> (unwind_end \<times> exc_state) outcome" where
  "phase2_answer fuel reason x =
     (if reason = URC_CONTINUE_UNWIND then Panic
      else if reason = URC_INSTALL_CONTEXT then
        obind (unw_resume fuel (ctx_cursor (x_context x), x_lib x)) (\<lambda>(c, L).
        Ok (Resumed, x\<lparr>x_context := (x_context x)\<lparr>ctx_cursor := c\<rparr>, x_lib := L\<rparr>))
      else Ok (Returned URC_FATAL_PHASE2_ERROR, x))"

text \<open>The frame the cursor has reached: \<open>None\<close> to go on with the next one.\<close>

definition phase2_frame ::
  "client \<Rightarrow> nat \<Rightarrow> u64 \<Rightarrow> u64 \<Rightarrow> Unwind_Action \<Rightarrow> exc_state \<Rightarrow> (unwind_end option \<times> exc_state) outcome" where
  "phase2_frame cl fuel stop stop_parameter actions x =
     obind (on_cursor (unw_get_proc_info fuel) x) (\<lambda>(r, x).
     case r of
       Err _ \<Rightarrow> Ok (Some (Returned URC_FATAL_PHASE2_ERROR), x)
     | Ret pi \<Rightarrow>
         if pi_handler pi = 0 then Ok (None, x)
         else
           (let actions = (if stop = 0 \<and> stop_parameter = c_ip (ctx_cursor (x_context x))
                           then actions OR UA_HANDLER_FRAME else actions) in
            obind (cl_personality cl (pi_handler pi) actions x) (\<lambda>(reason, x).
            obind (phase2_answer fuel reason x) (\<lambda>(e, x). Ok (Some e, x)))))"

text \<open>The stop routine, if there is one: whether to go on.\<close>

definition phase2_stop ::
  "client \<Rightarrow> u64 \<Rightarrow> u64 \<Rightarrow> Unwind_Action \<Rightarrow> exc_state \<Rightarrow> (bool \<times> exc_state) outcome" where
  "phase2_stop cl stop stop_parameter actions x =
     (if stop = 0 then Ok (True, x)
      else obind (cl_stop cl stop stop_parameter actions x) (\<lambda>(reason, x). Ok (reason = URC_NO_REASON, x)))"

primrec phase2_loop ::
  "nat \<Rightarrow> client \<Rightarrow> nat \<Rightarrow> u64 \<Rightarrow> u64 \<Rightarrow> Unwind_Action \<Rightarrow> exc_state \<Rightarrow> (unwind_end \<times> exc_state) outcome" where
  "phase2_loop 0 cl fuel stop stop_parameter actions x = Diverge"
| "phase2_loop (Suc steps) cl fuel stop stop_parameter actions x =
     obind (on_cursor (unw_step fuel) x) (\<lambda>(r, x).
     case r of
       Err _ \<Rightarrow> Ok (Returned URC_FATAL_PHASE2_ERROR, x)
     | Ret n \<Rightarrow>
         (let actions = (if n = 0 then actions OR UA_END_OF_STACK else actions);
              x = (if n = 0 then x\<lparr>x_context := (x_context x)\<lparr>ctx_end_of_stack := True\<rparr>\<rparr> else x) in
          obind (phase2_stop cl stop stop_parameter actions x) (\<lambda>(go_on, x).
          if \<not> go_on then Ok (Returned URC_FATAL_PHASE2_ERROR, x)
          else if ctx_end_of_stack (x_context x) then Ok (Returned URC_FATAL_PHASE2_ERROR, x)
          else
            obind (phase2_frame cl fuel stop stop_parameter actions x) (\<lambda>(e, x).
            case e of Some e \<Rightarrow> Ok (e, x) | None \<Rightarrow> phase2_loop steps cl fuel stop stop_parameter actions x))))"

text \<open>\<open>UA_HANDLER_FRAME\<close> is set in a variable of the loop, but a frame that sets it is the last one.\<close>

definition Unwind_Phase2 :: "client \<Rightarrow> nat \<Rightarrow> nat \<Rightarrow> exc_state \<Rightarrow> (unwind_end \<times> exc_state) outcome" where
  "Unwind_Phase2 cl steps fuel x =
     (let stop = private_1 (x_exception x) in
      phase2_loop steps cl fuel stop (private_2 (x_exception x))
        (if stop \<noteq> 0 then UA_CLEANUP_PHASE OR UA_FORCE_UNWIND else UA_CLEANUP_PHASE) x)"

section \<open>Raising\<close>

text \<open>The search phase: \<open>None\<close> when a handler was found at the frame of the cursor.\<close>

primrec phase1_loop ::
  "nat \<Rightarrow> client \<Rightarrow> nat \<Rightarrow> exc_state \<Rightarrow> (Unwind_Reason_Code option \<times> exc_state) outcome" where
  "phase1_loop 0 cl fuel x = Diverge"
| "phase1_loop (Suc steps) cl fuel x =
     obind (on_cursor (unw_step fuel) x) (\<lambda>(r, x).
     case r of
       Err _ \<Rightarrow> Ok (Some URC_FATAL_PHASE1_ERROR, x)
     | Ret n \<Rightarrow>
         if n = 0 then Ok (Some URC_END_OF_STACK, x)
         else
           obind (on_cursor (unw_get_proc_info fuel) x) (\<lambda>(r, x).
           case r of
             Err _ \<Rightarrow> Ok (Some URC_FATAL_PHASE1_ERROR, x)
           | Ret pi \<Rightarrow>
               if pi_handler pi = 0 then phase1_loop steps cl fuel x
               else
                 obind (cl_personality cl (pi_handler pi) UA_SEARCH_PHASE x) (\<lambda>(reason, x).
                 if reason = URC_CONTINUE_UNWIND then phase1_loop steps cl fuel x
                 else if reason = URC_HANDLER_FOUND then Ok (None, x)
                 else Ok (Some URC_FATAL_PHASE1_ERROR, x))))"

definition Unwind_RaiseException ::
  "client \<Rightarrow> nat \<Rightarrow> nat \<Rightarrow> addr \<Rightarrow> exc_state \<Rightarrow> (unwind_end \<times> exc_state) outcome" where
  "Unwind_RaiseException cl steps fuel uc x =
     (let (ok, x) = Unwind_InitContext cl uc x in
      if \<not> ok then Ok (Returned URC_FATAL_PHASE1_ERROR, x)
      else
        obind (phase1_loop steps cl fuel x) (\<lambda>(r, x).
        case r of
          Some reason \<Rightarrow> Ok (Returned reason, x)
        | None \<Rightarrow>
            (let ip = c_ip (ctx_cursor (x_context x));
                 x = x\<lparr>x_exception := (x_exception x)\<lparr>private_1 := 0, private_2 := ip\<rparr>\<rparr> in
             case unw_init_local (l_machine (x_lib x)) (ctx_cursor (x_context x)) uc of
               Ok (c, M) \<Rightarrow>
                 Unwind_Phase2 cl steps fuel
                   (x\<lparr>x_context := (x_context x)\<lparr>ctx_cursor := c\<rparr>, x_lib := (x_lib x)\<lparr>l_machine := M\<rparr>\<rparr>)
             | _ \<Rightarrow> Ok (Returned URC_FATAL_PHASE1_ERROR, x))))"

definition Unwind_ForcedUnwind ::
  "client \<Rightarrow> nat \<Rightarrow> nat \<Rightarrow> addr \<Rightarrow> u64 \<Rightarrow> u64 \<Rightarrow> exc_state \<Rightarrow> (unwind_end \<times> exc_state) outcome" where
  "Unwind_ForcedUnwind cl steps fuel uc stop stop_parameter x =
     (if stop = 0 then Ok (Returned URC_FATAL_PHASE2_ERROR, x)
      else
        (let (ok, x) = Unwind_InitContext cl uc x in
         if \<not> ok then Ok (Returned URC_FATAL_PHASE2_ERROR, x)
         else
           Unwind_Phase2 cl steps fuel
             (x\<lparr>x_exception := (x_exception x)\<lparr>private_1 := stop, private_2 := stop_parameter\<rparr>\<rparr>)))"

definition Unwind_Resume_or_Rethrow ::
  "client \<Rightarrow> nat \<Rightarrow> nat \<Rightarrow> addr \<Rightarrow> exc_state \<Rightarrow> (unwind_end \<times> exc_state) outcome" where
  "Unwind_Resume_or_Rethrow cl steps fuel uc x =
     (if private_1 (x_exception x) \<noteq> 0 then
        (let (ok, x) = Unwind_InitContext cl uc x in
         if \<not> ok then Ok (Returned URC_FATAL_PHASE2_ERROR, x) else Unwind_Phase2 cl steps fuel x)
      else Unwind_RaiseException cl steps fuel uc x)"

text \<open>\<open>_Unwind_Resume\<close> aborts when phase 2 returns.\<close>

definition Unwind_Resume :: "client \<Rightarrow> nat \<Rightarrow> nat \<Rightarrow> addr \<Rightarrow> exc_state \<Rightarrow> exc_state outcome" where
  "Unwind_Resume cl steps fuel uc x =
     (let (ok, x) = Unwind_InitContext cl uc x in
      if \<not> ok then Panic
      else obind (Unwind_Phase2 cl steps fuel x) (\<lambda>(e, x). case e of Resumed \<Rightarrow> Ok x | Returned _ \<Rightarrow> Panic))"

primrec unwind_trace_loop ::
  "nat \<Rightarrow> client \<Rightarrow> nat \<Rightarrow> u64 \<Rightarrow> u64 \<Rightarrow> exc_state \<Rightarrow> (Unwind_Reason_Code \<times> exc_state) outcome" where
  "unwind_trace_loop 0 cl fuel trace trace_parameter x = Diverge"
| "unwind_trace_loop (Suc steps) cl fuel trace trace_parameter x =
     obind (on_cursor (unw_step fuel) x) (\<lambda>(r, x).
     case r of
       Err _ \<Rightarrow> Ok (URC_FATAL_PHASE1_ERROR, x)
     | Ret n \<Rightarrow>
         if n = 0 then Ok (URC_END_OF_STACK, x)
         else
           obind (cl_trace cl trace trace_parameter x) (\<lambda>(reason, x).
           if reason \<noteq> URC_NO_REASON then Ok (URC_FATAL_PHASE1_ERROR, x)
           else unwind_trace_loop steps cl fuel trace trace_parameter x))"

definition Unwind_Backtrace ::
  "client \<Rightarrow> nat \<Rightarrow> nat \<Rightarrow> addr \<Rightarrow> u64 \<Rightarrow> u64 \<Rightarrow> exc_state \<Rightarrow> (Unwind_Reason_Code \<times> exc_state) outcome" where
  "Unwind_Backtrace cl steps fuel uc trace trace_parameter x =
     (let (ok, x) = Unwind_InitContext cl uc x in
      if \<not> ok then Ok (URC_FATAL_PHASE1_ERROR, x) else unwind_trace_loop steps cl fuel trace trace_parameter x)"

section \<open>Accessors\<close>

definition Unwind_DeleteException :: "client \<Rightarrow> exc_state \<Rightarrow> exc_state outcome" where
  "Unwind_DeleteException cl x =
     (let cleanup = exception_cleanup (x_exception x) in
      if cleanup = 0 then Ok x else cl_cleanup cl cleanup URC_FOREIGN_EXCEPTION_CAUGHT x)"

text \<open>The start of the procedure, or \<open>NULL\<close>; the procedure information is a local variable.\<close>

definition Unwind_FindEnclosingFunction ::
  "nat \<Rightarrow> u64 \<Rightarrow> unw_proc_info_t \<Rightarrow> unw_lib \<Rightarrow> (u64 \<times> unw_lib) outcome" where
  "Unwind_FindEnclosingFunction fuel ip pi L =
     obind (unw_get_proc_info_by_ip fuel (l_linker L) (l_dyn L) (m_mem (l_machine L)) ip (pi, l_env L, l_cie_pool L))
       (\<lambda>(r, pi, e, pool).
     Ok (case r of Err _ \<Rightarrow> 0 | Ret _ \<Rightarrow> start_ip pi, L\<lparr>l_env := e, l_cie_pool := pool\<rparr>))"

definition Unwind_GetBSP :: "exc_state \<Rightarrow> u64" where "Unwind_GetBSP x = 0"
definition Unwind_GetTextRelBase :: "exc_state \<Rightarrow> u64" where "Unwind_GetTextRelBase x = 0"

text \<open>A register of the context; a read that fails returns a variable that was never set.\<close>

definition get_context_reg :: "int \<Rightarrow> exc_state \<Rightarrow> (u64 \<times> exc_state) outcome" where
  "get_context_reg r x =
     (case unw_get_reg (l_machine (x_lib x)) (ctx_cursor (x_context x)) r of
        Ok (v, M) \<Rightarrow> Ok (v, x\<lparr>x_lib := (x_lib x)\<lparr>l_machine := M\<rparr>\<rparr>)
      | _ \<Rightarrow> UB)"

definition Unwind_GetCFA :: "exc_state \<Rightarrow> (u64 \<times> exc_state) outcome" where
  "Unwind_GetCFA x = get_context_reg (int RSP) x"

definition Unwind_GetIP :: "exc_state \<Rightarrow> (u64 \<times> exc_state) outcome" where
  "Unwind_GetIP x = get_context_reg (int RIP) x"

definition Unwind_GetGR :: "int \<Rightarrow> exc_state \<Rightarrow> (u64 \<times> exc_state) outcome" where
  "Unwind_GetGR index x =
     (if index = int RSP \<and> ctx_end_of_stack (x_context x) then Ok (0, x) else get_context_reg index x)"

definition Unwind_GetIPInfo :: "exc_state \<Rightarrow> (u64 \<times> bool \<times> exc_state) outcome" where
  "Unwind_GetIPInfo x =
     obind (get_context_reg (int RIP) x) (\<lambda>(v, x).
     let (b, c, M) = unw_is_signal_frame (ctx_cursor (x_context x), l_machine (x_lib x)) in
     Ok (v, b, x\<lparr>x_context := (x_context x)\<lparr>ctx_cursor := c\<rparr>, x_lib := (x_lib x)\<lparr>l_machine := M\<rparr>\<rparr>))"

text \<open>\<open>unw_get_proc_info\<close> never fails.\<close>

definition context_proc_info :: "(unw_proc_info_t \<Rightarrow> 'a) \<Rightarrow> 'a \<Rightarrow> nat \<Rightarrow> exc_state \<Rightarrow> ('a \<times> exc_state) outcome" where
  "context_proc_info sel dflt fuel x =
     obind (on_cursor (unw_get_proc_info fuel) x) (\<lambda>(r, x). Ok (case r of Ret pi \<Rightarrow> sel pi | Err _ \<Rightarrow> dflt, x))"

definition Unwind_GetDataRelBase :: "nat \<Rightarrow> exc_state \<Rightarrow> (u64 \<times> exc_state) outcome" where
  "Unwind_GetDataRelBase = context_proc_info pi_gp 0"

definition Unwind_GetLanguageSpecificData :: "nat \<Rightarrow> exc_state \<Rightarrow> (u64 \<times> exc_state) outcome" where
  "Unwind_GetLanguageSpecificData = context_proc_info pi_lsda 0"

definition Unwind_GetRegionStart :: "nat \<Rightarrow> exc_state \<Rightarrow> (u64 \<times> exc_state) outcome" where
  "Unwind_GetRegionStart = context_proc_info start_ip 0"

text \<open>The result of \<open>unw_set_reg\<close> is ignored.\<close>

definition Unwind_SetGR :: "int \<Rightarrow> u64 \<Rightarrow> exc_state \<Rightarrow> exc_state" where
  "Unwind_SetGR index v x =
     (let (r, c) = unw_set_reg (l_machine (x_lib x)) (ctx_cursor (x_context x)) index v;
          M = (case r of Ok M \<Rightarrow> M | _ \<Rightarrow> l_machine (x_lib x)) in
      x\<lparr>x_context := (x_context x)\<lparr>ctx_cursor := c\<rparr>, x_lib := (x_lib x)\<lparr>l_machine := M\<rparr>\<rparr>)"

definition Unwind_SetIP :: "u64 \<Rightarrow> exc_state \<Rightarrow> exc_state" where
  "Unwind_SetIP v = Unwind_SetGR (int RIP) v"

section \<open>What is resumed\<close>

text \<open>The slot of a register in the context a cursor was initialised from, and the value the cursor has for it.\<close>

abbreviation uc_slot :: "cursor \<Rightarrow> nat \<Rightarrow> addr" where
  "uc_slot c r \<equiv> c_uc c + uc_mcontext_gregs ! r"

definition reg_in_cursor :: "cursor \<Rightarrow> nat \<Rightarrow> bool" where
  "reg_in_cursor c r = (r = RSP \<or> r < 2 \<and> bit (c_eh_valid_mask c) r)"

definition cursor_value :: "memory \<Rightarrow> cursor \<Rightarrow> nat \<Rightarrow> u64" where
  "cursor_value m c r =
     (if r = RSP then c_cfa c else if r < 2 \<and> bit (c_eh_valid_mask c) r then c_eh_args c ! r
      else read_word m (c_loc c ! r))"

text \<open>Every register that is in memory can be read there, and is in its own slot of the context or outside it.\<close>

definition resumable :: "cursor \<Rightarrow> bool" where
  "resumable c = (\<forall>r<17. uc_slot c r \<noteq> 0 \<and> (\<not> reg_in_cursor c r \<longrightarrow> readable_loc c (c_loc c ! r) \<and>
     (c_loc c ! r = uc_slot c r \<or> (\<forall>q<17. apart (uc_slot c q) (c_loc c ! r)))))"

lemma eh_mask_bits:
  "c_eh_valid_mask c AND 1 \<noteq> 0 \<longleftrightarrow> bit (c_eh_valid_mask c) 0"
  "c_eh_valid_mask c AND 2 \<noteq> 0 \<longleftrightarrow> bit (c_eh_valid_mask c) (Suc 0)"
  using and_exp_eq_0_iff_not_bit [of "c_eh_valid_mask c" 0] and_exp_eq_0_iff_not_bit [of "c_eh_valid_mask c" 1]
  by simp_all

lemma reg_cases17: "r < 17 \<Longrightarrow> r \<in> {0, 1, 7, 16} \<or> int r \<in> {2, 3, 4, 5, 6, 8, 9, 10, 11, 12, 13, 14, 15}"
  unfolding insert_iff empty_iff by presburger

lemma read_resumable:
  assumes "resumable c" "r < 17"
  shows "\<exists>M'. tdep_access_reg_read M c (int r) = Ok (cursor_value (m_mem M) c r, M') \<and> m_mem M' = m_mem M"
proof (cases "reg_in_cursor c r")
  case True
  then have "r = RSP \<or> r < 2 \<and> bit (c_eh_valid_mask c) r" by (simp add: reg_in_cursor_def)
  then show ?thesis
    by (elim disjE conjE, use eh_mask_bits [of c] in \<open>auto simp: tdep_access_reg_read_def cursor_value_def less_2_cases_iff\<close>)
next
  case False
  then have "readable_loc c (c_loc c ! r)" using assms by (auto simp: resumable_def)
  moreover have "tdep_access_reg_read M c (int r) = dwarf_get M c (c_loc c ! r)"
    using False reg_cases17 [OF assms(2)] eh_mask_bits [of c]
    by (auto simp: reg_in_cursor_def tdep_access_reg_read_def)
  moreover have "cursor_value (m_mem M) c r = read_word (m_mem M) (c_loc c ! r)"
    using False by (auto simp: reg_in_cursor_def cursor_value_def)
  ultimately show ?thesis using dwarf_get_readable by metis
qed

lemma establish_reg_resumable:
  assumes "resumable c" "r < 17"
  shows "\<exists>v M'. establish_reg c r (val, M) = Ok (v, M') \<and>
    m_mem M' = write_word (m_mem M) (uc_slot c r) (cursor_value (m_mem M) c r)"
proof -
  obtain M1 where M1: "tdep_access_reg_read M c (int r) = Ok (cursor_value (m_mem M) c r, M1)" "m_mem M1 = m_mem M"
    using read_resumable [OF assms] by blast
  have "access_reg_write M1 c (int r) v = Ok (M1\<lparr>m_mem := write_word (m_mem M1) (uc_slot c r) v\<rparr>)" for v
    using assms by (auto simp: resumable_def access_reg_write_def x86_64_r_uc_addr_def unw_is_fpreg_def Let_def)
  then show ?thesis using M1 by (simp add: establish_reg_def)
qed

lemma cursor_value_other_slot:
  assumes "resumable c" "r < 17" "q < 17" "q \<noteq> r"
  shows "cursor_value (write_word m (uc_slot c q) v) c r = cursor_value m c r"
proof (cases "reg_in_cursor c r")
  case False
  then have "apart (uc_slot c q) (c_loc c ! r)"
    using assms uc_regs_apart [of q r "c_uc c"] by (auto simp: resumable_def)
  then show ?thesis using False by (auto simp: cursor_value_def reg_in_cursor_def read_write_apart)
qed (auto simp: cursor_value_def reg_in_cursor_def)

lemma establish_regs_resumable:
  assumes "resumable c" "set rs \<subseteq> {..<17}" "distinct rs"
  shows "\<exists>v M'. establish_regs c rs (val, M) = Ok (v, M') \<and>
    (\<forall>r\<in>set rs. read_word (m_mem M') (uc_slot c r) = cursor_value (m_mem M) c r) \<and>
    (\<forall>a. (\<forall>r\<in>set rs. apart (uc_slot c r) a) \<longrightarrow> read_word (m_mem M') a = read_word (m_mem M) a)"
  using assms(2,3)
proof (induction rs arbitrary: val M)
  case (Cons r rs)
  obtain v M1 where M1: "establish_reg c r (val, M) = Ok (v, M1)"
    "m_mem M1 = write_word (m_mem M) (uc_slot c r) (cursor_value (m_mem M) c r)"
    using establish_reg_resumable [OF assms(1), of r val M] Cons.prems(1) by auto
  obtain w M' where M': "establish_regs c rs (v, M1) = Ok (w, M')"
    "\<forall>q\<in>set rs. read_word (m_mem M') (uc_slot c q) = cursor_value (m_mem M1) c q"
    "\<forall>a. (\<forall>q\<in>set rs. apart (uc_slot c q) a) \<longrightarrow> read_word (m_mem M') a = read_word (m_mem M1) a"
    using Cons.IH [of v M1] Cons.prems by auto
  have "read_word (m_mem M') (uc_slot c r) = read_word (m_mem M1) (uc_slot c r)"
    by (rule M'(3) [rule_format], rule uc_regs_apart) (use Cons.prems in auto)
  moreover have "cursor_value (m_mem M1) c q = cursor_value (m_mem M) c q" if "q \<in> set rs" for q
    unfolding M1(2) by (rule cursor_value_other_slot [OF assms(1)]) (use that Cons.prems in auto)
  ultimately show ?case using M1 M' by (auto simp: read_write_apart)
qed simp

lemma establish_resumable:
  assumes "resumable c"
  shows "\<exists>M'. establish_machine_state (c, M) = Ok M' \<and>
    (\<forall>r<17. read_word (m_mem M') (uc_slot c r) = cursor_value (m_mem M) c r) \<and>
    (\<forall>a. (\<forall>r<17. apart (uc_slot c r) a) \<longrightarrow> read_word (m_mem M') a = read_word (m_mem M) a)"
proof -
  have "set [0..<17] = {..<17::nat}" by auto
  then show ?thesis
    using establish_regs_resumable [OF assms, of "[0..<17]" None M] by (fastforce simp: establish_machine_state_def)
qed

text \<open>C3: resuming installs the registers of the cursor: if every register the cursor keeps in memory can be
  read and is either in its own slot of the saved context or outside the context, then
  \<open>establish_machine_state\<close> ends and stores in the slot of each of the seventeen registers the value that
  the cursor had for it before the loop began to overwrite the context (the CFA for RSP, the exception
  arguments for RAX and RDX when they are set), and it leaves every word outside the slots alone.\<close>

theorem establish_machine_state_correct:
  assumes "resumable c"
  shows "\<exists>M'. establish_machine_state (c, M) = Ok M' \<and>
    (\<forall>r<17. read_word (m_mem M') (uc_slot c r) = cursor_value (m_mem M) c r) \<and>
    (\<forall>a. (\<forall>r<17. apart (uc_slot c r) a) \<longrightarrow> read_word (m_mem M') a = read_word (m_mem M) a)"
  by (rule establish_resumable [OF assms])

text \<open>A cursor fresh from \<open>unw_init_local\<close> with the context at 0x6000 is resumable.\<close>

definition resume_cursor :: cursor where
  "resume_cursor = cursor0\<lparr>c_uc := 0x6000, c_loc := map (\<lambda>off. 0x6000 + off) uc_mcontext_gregs, c_cfa := 0x8000\<rparr>"

lemma resume_cursor_resumable: "resumable resume_cursor"
proof -
  have "\<forall>r\<in>set [0..<17]. (0x6000::u64) + uc_mcontext_gregs ! r \<noteq> 0"
    by (simp add: upt_rec uc_mcontext_gregs_def)
  then have "(0x6000::u64) + uc_mcontext_gregs ! r \<noteq> 0" if "r < 17" for r using that by simp
  moreover have "length uc_mcontext_gregs = 17" by (simp add: uc_mcontext_gregs_def)
  ultimately show ?thesis by (simp add: resumable_def resume_cursor_def readable_loc_def cursor0_def)
qed

theorem establish_machine_state_correct_witness:
  "\<exists>M'. establish_machine_state (resume_cursor, machine0\<lparr>m_mem := backtrace_mem\<rparr>) = Ok M' \<and>
     read_word (m_mem M') 0x60c8 = 0x8000 \<and> read_word (m_mem M') 0x60b0 = 0x4000"
proof -
  obtain M' where "establish_machine_state (resume_cursor, machine0\<lparr>m_mem := backtrace_mem\<rparr>) = Ok M'"
    "\<forall>r<17. read_word (m_mem M') (uc_slot resume_cursor r) = cursor_value backtrace_mem resume_cursor r"
    using establish_machine_state_correct [OF resume_cursor_resumable, of "machine0\<lparr>m_mem := backtrace_mem\<rparr>"] by auto
  moreover from this(2) [rule_format, of 7] this(2) [rule_format, of 16] show ?thesis
    using calculation(1) backtrace_mem_words
    by (simp add: resume_cursor_def cursor_value_def uc_mcontext_gregs_def cursor0_def)
qed

text \<open>
  A register that cannot be read does not keep its old value: the value of the register before it goes to
  its slot.
\<close>

lemma establish_reg_stale:
  assumes "\<not> returns (tdep_access_reg_read M c (int r)) \<or> tdep_access_reg_read M c (int r) = Fail e" "uc_slot c r \<noteq> 0" "r < 17"
  shows "establish_reg c r (Some v, M) = Ok (Some v, M\<lparr>m_mem := write_word (m_mem M) (uc_slot c r) v\<rparr>)"
  using assms by (auto simp: establish_reg_def access_reg_write_def x86_64_r_uc_addr_def unw_is_fpreg_def Let_def
      split: outcome.splits)

section \<open>Raising through code without handlers\<close>

lemma make_proc_info_none:
  assumes "no_unwind_info L (lookup_ip c)" "c_pi c = zero_proc_info"
  shows "dwarf_make_proc_info fuel (c, L) = Ok (if c_pi_valid c then Ret () else Err UNW_ENOINFO, c, L)"
proof -
  have c: "c\<lparr>c_pi := zero_proc_info\<rparr> = c" using assms(2) by (cases c) simp
  have "lookup_proc_info fuel (lookup_ip c) False (c, L) = Ok (Err UNW_ENOINFO, False, c, L)"
    using lookup_proc_info_none [OF assms(1), of fuel False c] c by simp
  then show ?thesis
    using c by (simp add: dwarf_make_proc_info_def fetch_proc_info_def accept_proc_info_def lookup_ip_def ret_def)
qed

lemma get_proc_info_none:
  assumes "no_unwind_info L (lookup_ip c)" "c_pi c = zero_proc_info"
  shows "\<exists>pi. unw_get_proc_info fuel (c, L) = ret pi (c, L) \<and> pi_handler pi = 0"
proof -
  have "unw_get_proc_info fuel (c, L) = ret (if c_pi_valid c then c_pi c
      else zero_proc_info\<lparr>start_ip := c_ip c, end_ip := c_ip c + 1\<rparr>) (c, L)"
    by (simp add: unw_get_proc_info_def make_proc_info_none [OF assms])
  moreover have "pi_handler zero_proc_info = 0" by (simp add: zero_proc_info_def)
  ultimately show ?thesis using assms(2) by auto
qed

text \<open>The context of the exception \<open>e\<close> on a chain.\<close>

definition exc_chain :: "memory \<Rightarrow> Unwind_Exception \<Rightarrow> u64 \<times> u64 \<Rightarrow> u64 list \<Rightarrow> exc_state \<Rightarrow> bool" where
  "exc_chain m e k ras x = (chain_state m k ras (ctx_cursor (x_context x), x_lib x) \<and> x_exception x = e)"

definition exc_entered :: "u64 \<Rightarrow> exc_state \<Rightarrow> bool" where
  "exc_entered ra x = chain_entered ra (ctx_cursor (x_context x), x_lib x)"

lemmas exc_chain_defs = exc_chain_def exc_entered_def

interpretation ew: stack_walk "on_cursor (unw_step fuel)" "exc_chain m e" "chain_up m" exc_entered for fuel m e
proof unfold_locales
  fix k a as x
  show "\<exists>x'. on_cursor (unw_step fuel) x = ret 1 x' \<and> exc_entered a x' \<and> exc_chain m e (chain_up m k) as x'"
    if "exc_chain m e k (a # as) x"
    using that cw.step_up [of m k a as _ fuel] by (fastforce simp: on_cursor_def ret_def exc_chain_defs)
  show "\<exists>x'. on_cursor (unw_step fuel) x = ret 0 x'" if "exc_chain m e k [] x"
    using that cw.step_end [of m k _ fuel] by (fastforce simp: on_cursor_def ret_def exc_chain_def)
qed

lemma exc_chain_proc_info:
  assumes "exc_chain m e k ras x" "exc_entered ra x"
  shows "\<exists>pi. on_cursor (unw_get_proc_info fuel) x = Ok (Ret pi, x) \<and> pi_handler pi = 0"
proof -
  have "on_chain ras (ctx_cursor (x_context x)) (x_lib x)"
    using assms(1) by (cases k) (auto simp: exc_chain_def chain_state_def on_chain_def)
  from get_proc_info_none [OF on_chain_code(2) [OF this], of fuel] show ?thesis
    using assms(2) by (auto simp: on_cursor_def ret_def exc_entered_def chain_entered_def)
qed

lemma phase1_chain:
  assumes "exc_chain m e k ras x" "length ras < steps"
  shows "\<exists>x'. phase1_loop steps cl fuel x = Ok (Some URC_END_OF_STACK, x') \<and> x_exception x' = e"
  using assms
proof (induction rule: ew.walk_induct [where fuel = fuel])
  case (outermost n k x x')
  then show ?case by (auto simp: exc_chain_def on_cursor_def)
next
  case (frame n k ra ras x x')
  obtain pi where "on_cursor (unw_get_proc_info fuel) x' = Ok (Ret pi, x')" "pi_handler pi = 0"
    using exc_chain_proc_info [OF frame.hyps(4,3)] by blast
  then show ?case using frame.hyps(2) frame.IH by simp
qed

lemma init_context_chain:
  assumes "context_chain ras uc ((x_lib x)\<lparr>l_machine := cl_getcontext cl uc (l_machine (x_lib x))\<rparr>)"
    "length (c_eh_args (ctx_cursor (x_context x))) = 2" "m = m_mem (cl_getcontext cl uc (l_machine (x_lib x)))"
  shows "\<exists>x' k. Unwind_InitContext cl uc x = (True, x') \<and> exc_chain m (x_exception x) k ras x' \<and> \<not> ctx_end_of_stack (x_context x')"
  using init_chain_state [OF assms(1,2), of m] assms(3) by (auto simp: Unwind_InitContext_def exc_chain_def) blast

text \<open>C5: an exception that nothing can handle is reported, not lost: raised in code whose frame pointers
  form a chain and for which there is no unwind information, hence no personality routine,
  \<open>_Unwind_RaiseException\<close> ends, whatever the routines of the client are, and returns
  \<open>_URC_END_OF_STACK\<close> without having touched the exception.\<close>

theorem raise_reaches_end:
  assumes "context_chain ras uc ((x_lib x)\<lparr>l_machine := cl_getcontext cl uc (l_machine (x_lib x))\<rparr>)"
    "length (c_eh_args (ctx_cursor (x_context x))) = 2" "length ras < steps"
  shows "\<exists>x'. Unwind_RaiseException cl steps fuel uc x = Ok (Returned URC_END_OF_STACK, x') \<and>
    x_exception x' = x_exception x"
proof -
  obtain x1 m k where x1: "Unwind_InitContext cl uc x = (True, x1)" "exc_chain m (x_exception x) k ras x1"
    using init_context_chain [OF assms(1,2) refl] by blast
  then show ?thesis
    using phase1_chain [OF x1(2) assms(3), of cl fuel] by (auto simp: Unwind_RaiseException_def)
qed

text \<open>A client without routines, whose context is already saved.\<close>

definition client0 :: client where
  "client0 = \<lparr>cl_personality = (\<lambda>_ _ _. UB), cl_stop = (\<lambda>_ _ _ _. UB), cl_trace = (\<lambda>_ _ _. UB),
     cl_cleanup = (\<lambda>_ _ _. UB), cl_getcontext = (\<lambda>_ M. M)\<rparr>"

definition exc_state0 :: exc_state where
  "exc_state0 = \<lparr>x_exception = \<lparr>exception_class = 7, exception_cleanup = 0, private_1 = 0, private_2 = 0\<rparr>,
     x_context = \<lparr>ctx_cursor = cursor0, ctx_end_of_stack = False\<rparr>, x_lib = backtrace_lib\<rparr>"

theorem raise_reaches_end_witness:
  "\<exists>x'. Unwind_RaiseException client0 3 0 0x6000 exc_state0 = Ok (Returned URC_END_OF_STACK, x') \<and>
     x_exception x' = x_exception exc_state0"
  by (rule raise_reaches_end [of "[0x2100, 0x3100]"])
     (use backtrace_context in \<open>simp_all add: client0_def exc_state0_def cursor0_def\<close>)

section \<open>Personality routines that go on\<close>



end
