(* ===== verification/Unw_Context.thy ===== *)
theory Unw_Context
  imports Unw_Regs
begin

text \<open>
  Saving and restoring the registers: the assembly of \<^verbatim>\<open>getcontext.S\<close>, \<^verbatim>\<open>setcontext.S\<close>, \<^verbatim>\<open>longjmp.S\<close> and \<^verbatim>\<open>siglongjmp.S\<close>. The routines are
  straight-line code of eight forms of instructions, so a routine is a list of instructions and
  running it is a fold. Registers are numbered as in the API, with RIP the address of the next
  instruction after a return. Floating-point state is not saved by the code.
\<close>

section \<open>Instructions\<close>

record cpu =
  gpr :: "nat \<Rightarrow> u64"
  cpu_mem :: memory

text \<open>
  \<open>Load off r\<close> is \<open>movq off(%rdi), r\<close>; \<open>Store r off\<close> is \<open>movq r, off(%rdi)\<close>; \<open>Load_sp\<close> and \<open>Lea_sp\<close> are \<open>movq\<close> and \<open>leaq\<close> from
  \<open>off(%rsp)\<close>; \<open>Mov s r\<close> is \<open>mov s, r\<close>; \<open>Zero r\<close> is \<open>xorq r, r\<close>.
\<close>

datatype instr =
    Load u64 nat
  | Store nat u64
  | Load_sp u64 nat
  | Lea_sp u64 nat
  | Mov nat nat
  | Push nat
  | Zero nat
  | Ret_q

fun exec_instr :: "instr \<Rightarrow> cpu \<Rightarrow> cpu" where
  "exec_instr (Load off r) s = s\<lparr>gpr := (gpr s)(r := read_word (cpu_mem s) (gpr s RDI + off))\<rparr>"
| "exec_instr (Store r off) s = s\<lparr>cpu_mem := write_word (cpu_mem s) (gpr s RDI + off) (gpr s r)\<rparr>"
| "exec_instr (Load_sp off r) s = s\<lparr>gpr := (gpr s)(r := read_word (cpu_mem s) (gpr s RSP + off))\<rparr>"
| "exec_instr (Lea_sp off r) s = s\<lparr>gpr := (gpr s)(r := gpr s RSP + off)\<rparr>"
| "exec_instr (Mov q r) s = s\<lparr>gpr := (gpr s)(r := gpr s q)\<rparr>"
| "exec_instr (Push r) s =
     s\<lparr>gpr := (gpr s)(RSP := gpr s RSP - 8), cpu_mem := write_word (cpu_mem s) (gpr s RSP - 8) (gpr s r)\<rparr>"
| "exec_instr (Zero r) s = s\<lparr>gpr := (gpr s)(r := 0)\<rparr>"
| "exec_instr Ret_q s = s\<lparr>gpr := (gpr s)(RIP := read_word (cpu_mem s) (gpr s RSP), RSP := gpr s RSP + 8)\<rparr>"

definition run_code :: "instr list \<Rightarrow> cpu \<Rightarrow> cpu" where
  "run_code is s = fold exec_instr is s"

lemma run_code_simps [simp]:
  "run_code [] s = s" "run_code (i # is) s = run_code is (exec_instr i s)"
  by (simp_all add: run_code_def)

lemma run_code_append: "run_code (is @ js) s = run_code js (run_code is s)"
  by (simp add: run_code_def)

section \<open>The routines\<close>

abbreviation UC :: "nat \<Rightarrow> u64" where "UC r \<equiv> uc_mcontext_gregs ! r"

definition x86_64_getcontext :: "instr list" where
  "x86_64_getcontext =
     [Store R12 (UC R12), Store R13 (UC R13), Store R14 (UC R14), Store R15 (UC R15), Store RBP (UC RBP), Store RBX (UC RBX),
      Store R8 (UC R8), Store R9 (UC R9), Store RDI (UC RDI), Store RSI (UC RSI), Store RDX (UC RDX), Store RAX (UC RAX),
      Store RCX (UC RCX),
      Lea_sp 8 RAX, Store RAX (UC RSP),
      Load_sp 0 RAX, Store RAX (UC RIP),
      Zero RAX, Ret_q]"

definition x86_64_getcontext_trace :: "instr list" where
  "x86_64_getcontext_trace =
     [Store RBP (UC RBP), Store RBX (UC RBX),
      Lea_sp 8 RAX, Store RAX (UC RSP),
      Load_sp 0 RAX, Store RAX (UC RIP),
      Zero RAX, Ret_q]"

definition x86_64_setcontext :: "instr list" where
  "x86_64_setcontext =
     [Load (UC R8) R8, Load (UC R9) R9, Load (UC RBX) RBX, Load (UC RBP) RBP, Load (UC R12) R12, Load (UC R13) R13,
      Load (UC R14) R14, Load (UC R15) R15, Load (UC RSI) RSI, Load (UC RDX) RDX, Load (UC RAX) RAX, Load (UC RCX) RCX,
      Load (UC RSP) RSP,
      Load (UC RIP) RCX, Push RCX,
      Load (UC RCX) RCX, Load (UC RDI) RDI, Ret_q]"

definition UI_longjmp_cont :: "instr list" where
  "UI_longjmp_cont = [Push RAX, Mov RDX RAX, Ret_q]"

definition UI_siglongjmp_cont :: "instr list" where
  "UI_siglongjmp_cont = [Ret_q]"

section \<open>What the routines do\<close>

text \<open>Storing and loading several registers.\<close>

abbreviation stores :: "nat list \<Rightarrow> instr list" where "stores rs \<equiv> map (\<lambda>r. Store r (UC r)) rs"
abbreviation loads :: "nat list \<Rightarrow> instr list" where "loads rs \<equiv> map (\<lambda>r. Load (UC r) r) rs"

lemma run_stores_gpr [simp]: "gpr (run_code (stores rs) s) = gpr s"
  by (induction rs arbitrary: s) simp_all

lemma run_stores_apart:
  "(\<And>r. r \<in> set rs \<Longrightarrow> apart (gpr s RDI + UC r) a) \<Longrightarrow>
   read_word (cpu_mem (run_code (stores rs) s)) a = read_word (cpu_mem s) a"
proof (induction rs arbitrary: s)
  case (Cons q rs)
  have "read_word (write_word (cpu_mem s) (gpr s RDI + UC q) (gpr s q)) a = read_word (cpu_mem s) a"
    by (rule read_write_apart) (simp add: Cons.prems)
  then show ?case using Cons.IH [of "exec_instr (Store q (UC q)) s"] Cons.prems by simp
qed simp

lemma run_stores_slot:
  assumes "set rs \<subseteq> {..<17}" "distinct rs" "r \<in> set rs"
  shows "read_word (cpu_mem (run_code (stores rs) s)) (gpr s RDI + UC r) = gpr s r"
  using assms
proof (induction rs arbitrary: s)
  case (Cons q rs)
  let ?t = "exec_instr (Store q (UC q)) s"
  have t: "gpr ?t = gpr s" "run_code (stores (q # rs)) s = run_code (stores rs) ?t" by simp_all
  show ?case
  proof (cases "r = q")
    case True
    have "apart (gpr ?t RDI + UC p) (gpr s RDI + UC q)" if "p \<in> set rs" for p
      unfolding t using Cons.prems(1,2) that by (intro uc_regs_apart) auto
    then have "read_word (cpu_mem (run_code (stores rs) ?t)) (gpr s RDI + UC q) = read_word (cpu_mem ?t) (gpr s RDI + UC q)"
      by (rule run_stores_apart)
    then show ?thesis unfolding True t by simp
  next
    case False
    then show ?thesis using Cons.IH [of ?t] Cons.prems unfolding t by simp
  qed
qed simp

lemma run_loads:
  assumes "RDI \<notin> set rs"
  shows "run_code (loads rs) s =
    s\<lparr>gpr := (\<lambda>r. if r \<in> set rs then read_word (cpu_mem s) (gpr s RDI + UC r) else gpr s r)\<rparr>"
  using assms
proof (induction rs arbitrary: s)
  case (Cons q rs)
  then show ?case by (auto simp: fun_eq_iff)
qed simp

definition saved_regs :: "nat list" where
  "saved_regs = [R12, R13, R14, R15, RBP, RBX, R8, R9, RDI, RSI, RDX, RAX, RCX]"

lemma getcontext_stores:
  "x86_64_getcontext = stores saved_regs @
     [Lea_sp 8 RAX, Store RAX (UC RSP), Load_sp 0 RAX, Store RAX (UC RIP), Zero RAX, Ret_q]"
  by (simp add: x86_64_getcontext_def saved_regs_def)

text \<open>The stack word with the return address is outside the context.\<close>

definition context_apart :: "addr \<Rightarrow> addr \<Rightarrow> bool" where
  "context_apart uc a = (\<forall>r<17. apart (uc + UC r) a)"

lemma run_getcontext:
  assumes "context_apart (gpr s RDI) (gpr s RSP)" "t = run_code x86_64_getcontext s"
  shows "r \<in> set saved_regs \<Longrightarrow> read_word (cpu_mem t) (gpr s RDI + UC r) = gpr s r"
    "read_word (cpu_mem t) (gpr s RDI + UC RSP) = gpr s RSP + 8"
    "read_word (cpu_mem t) (gpr s RDI + UC RIP) = read_word (cpu_mem s) (gpr s RSP)"
    "context_apart (gpr s RDI) a \<Longrightarrow> read_word (cpu_mem t) a = read_word (cpu_mem s) a"
    "gpr t = (gpr s)(RAX := 0, RIP := read_word (cpu_mem s) (gpr s RSP), RSP := gpr s RSP + 8)"
proof -
  let ?uc = "gpr s RDI"
  define u where "u = run_code (stores saved_regs) s"
  have rs: "set saved_regs \<subseteq> {..<17}" "distinct saved_regs" by (simp_all add: saved_regs_def)
  have u: "gpr u = gpr s" "\<And>r. r \<in> set saved_regs \<Longrightarrow> read_word (cpu_mem u) (?uc + UC r) = gpr s r"
    "\<And>a. context_apart ?uc a \<Longrightarrow> read_word (cpu_mem u) a = read_word (cpu_mem s) a"
    unfolding u_def by (simp, rule run_stores_slot [OF rs], assumption, rule run_stores_apart)
      (use rs(1) in \<open>auto simp: context_apart_def\<close>)
  have sp: "read_word (write_word (cpu_mem u) (?uc + UC RSP) v) (gpr s RSP) = read_word (cpu_mem s) (gpr s RSP)" for v
    using assms(1) u(3) by (simp add: context_apart_def read_write_apart)
  have t: "cpu_mem t = write_word (write_word (cpu_mem u) (?uc + UC RSP) (gpr s RSP + 8)) (?uc + UC RIP) (read_word (cpu_mem s) (gpr s RSP))"
    "gpr t = (gpr s)(RAX := 0, RIP := read_word (cpu_mem t) (gpr s RSP), RSP := gpr s RSP + 8)"
    using u(1) sp by (simp_all add: assms(2) getcontext_stores run_code_append u_def [symmetric] fun_eq_iff)
  show "read_word (cpu_mem t) (?uc + UC RSP) = gpr s RSP + 8" "read_word (cpu_mem t) (?uc + UC RIP) = read_word (cpu_mem s) (gpr s RSP)"
    using uc_regs_apart [of RIP RSP ?uc] by (simp_all add: t(1) read_write_apart)
  show a: "read_word (cpu_mem t) a = read_word (cpu_mem s) a" if "context_apart ?uc a" for a
    using that u(3) [OF that] by (simp add: t(1) read_write_apart context_apart_def)
  show "gpr t = (gpr s)(RAX := 0, RIP := read_word (cpu_mem s) (gpr s RSP), RSP := gpr s RSP + 8)"
    using t(2) a [OF assms(1)] by simp
  show "read_word (cpu_mem t) (?uc + UC r) = gpr s r" if "r \<in> set saved_regs" for r
  proof -
    have "apart (?uc + UC RSP) (?uc + UC r)" "apart (?uc + UC RIP) (?uc + UC r)"
      using that rs(1) by (auto intro!: uc_regs_apart simp: saved_regs_def)
    then show ?thesis using u(2) [OF that] by (simp add: t(1) read_write_apart)
  qed
qed

text \<open>\<open>setcontext\<close> restores every register except R10 and R11.\<close>

lemma setcontext_loads:
  "x86_64_setcontext = loads [R8, R9, RBX, RBP, R12, R13, R14, R15, RSI, RDX, RAX, RCX, RSP] @
     [Load (UC RIP) RCX, Push RCX, Load (UC RCX) RCX, Load (UC RDI) RDI, Ret_q]"
  by (simp add: x86_64_setcontext_def)

lemma run_setcontext:
  assumes "uc = gpr t RDI" "slot = (\<lambda>r. read_word (cpu_mem t) (uc + UC r))" "context_apart uc (slot RSP - 8)"
  shows "cpu_mem (run_code x86_64_setcontext t) = write_word (cpu_mem t) (slot RSP - 8) (slot RIP)"
    "r < 17 \<Longrightarrow> gpr (run_code x86_64_setcontext t) r = (if r = R10 \<or> r = R11 then gpr t r else slot r)"
proof -
  let ?m = "write_word (cpu_mem t) (slot RSP - 8) (slot RIP)"
  have s: "read_word ?m (uc + UC r) = slot r" if "r < 17" for r
    using assms(3) that apart_sym by (simp add: context_apart_def read_write_apart assms(2))
  let ?u = "run_code (loads [R8, R9, RBX, RBP, R12, R13, R14, R15, RSI, RDX, RAX, RCX, RSP]) t"
  have u: "?u = t\<lparr>gpr := (\<lambda>r. if r \<in> set [R8, R9, RBX, RBP, R12, R13, R14, R15, RSI, RDX, RAX, RCX, RSP] then slot r else gpr t r)\<rparr>"
    unfolding assms(2) assms(1) by (rule run_loads) simp
  have "run_code x86_64_setcontext t = run_code [Load (UC RIP) RCX, Push RCX, Load (UC RCX) RCX, Load (UC RDI) RDI, Ret_q] ?u"
    by (simp only: setcontext_loads run_code_append)
  also have "\<dots> = ?u\<lparr>gpr := (gpr ?u)(RCX := slot RCX, RDI := slot RDI, RIP := slot RIP, RSP := slot RSP), cpu_mem := ?m\<rparr>"
    unfolding u using s [of RCX] s [of RDI] by (simp add: assms(1,2) fun_eq_iff)
  finally have r: "run_code x86_64_setcontext t =
    ?u\<lparr>gpr := (gpr ?u)(RCX := slot RCX, RDI := slot RDI, RIP := slot RIP, RSP := slot RSP), cpu_mem := ?m\<rparr>" .
  show "cpu_mem (run_code x86_64_setcontext t) = ?m" by (simp add: r)
  show "gpr (run_code x86_64_setcontext t) r = (if r = R10 \<or> r = R11 then gpr t r else slot r)" if "r < 17"
  proof -
    have "r = R10 \<or> r = R11 \<or> r \<in> set [R8, R9, RBX, RBP, R12, R13, R14, R15, RSI, RDX, RAX, RCX, RSP] \<or> r = RDI \<or> r = RIP"
      using that by simp presburger
    then show ?thesis unfolding r u by auto
  qed
qed

lemma run_longjmp_cont:
  "gpr (run_code UI_longjmp_cont s) = (gpr s)(RAX := gpr s RDX, RIP := gpr s RAX)"
  "cpu_mem (run_code UI_longjmp_cont s) = write_word (cpu_mem s) (gpr s RSP - 8) (gpr s RAX)"
  by (simp_all add: UI_longjmp_cont_def fun_eq_iff)

section \<open>Property\<close>

text \<open>C12: a context that \<open>getcontext\<close> saved is restored by \<open>setcontext\<close>: run from any state whose memory still has the seventeen
  slots of the context, \<open>setcontext\<close> continues at the return address of the call of \<open>getcontext\<close>, with the stack pointer as it is
  after that call and every other register as it was before it, RAX included; only R10 and R11, which are
  neither saved nor restored, are those of the state it was run from. Besides the context no word of memory has
  changed but the stack word with the return address, which is rewritten with the same value.\<close>

theorem context_roundtrip:
  assumes "context_apart (gpr s RDI) (gpr s RSP)" "saved = run_code x86_64_getcontext s" "gpr t RDI = gpr s RDI"
    "\<forall>r<17. read_word (cpu_mem t) (gpr s RDI + UC r) = read_word (cpu_mem saved) (gpr s RDI + UC r)"
    "r < 17" "r \<noteq> R10" "r \<noteq> R11"
  shows "gpr (run_code x86_64_setcontext t) r =
      (if r = RIP then read_word (cpu_mem s) (gpr s RSP) else if r = RSP then gpr s RSP + 8 else gpr s r) \<and>
    cpu_mem (run_code x86_64_setcontext t) = write_word (cpu_mem t) (gpr s RSP) (read_word (cpu_mem s) (gpr s RSP)) \<and>
    (\<forall>a. context_apart (gpr s RDI) a \<longrightarrow> read_word (cpu_mem saved) a = read_word (cpu_mem s) a)"
proof -
  note g = run_getcontext [OF assms(1,2)]
  let ?slot = "\<lambda>r. read_word (cpu_mem t) (gpr s RDI + UC r)"
  have s: "?slot RSP = gpr s RSP + 8" "?slot RIP = read_word (cpu_mem s) (gpr s RSP)" using assms(4) g(2,3) by simp_all
  have "?slot r = (if r = RIP then read_word (cpu_mem s) (gpr s RSP) else if r = RSP then gpr s RSP + 8 else gpr s r)"
  proof (cases "r = RIP \<or> r = RSP")
    case False
    then have "r \<in> set saved_regs" using assms(5-7) by (simp add: saved_regs_def) presburger
    then show ?thesis using g(1) assms(4,5) False by simp
  qed (use s in auto)
  moreover have "context_apart (gpr s RDI) (?slot RSP - 8)" using assms(1) s by simp
  ultimately show ?thesis
    using run_setcontext [of "gpr s RDI" t ?slot] assms(3,5-7) g(4) s by simp
qed

text \<open>A CPU with the context at 0x6000 and the stack at 0x8000.\<close>

definition cpu0 :: cpu where
  "cpu0 = \<lparr>gpr = (\<lambda>r. if r = RDI then 0x6000 else if r = RSP then 0x8000 else of_nat r), cpu_mem = (\<lambda>a. if a = 0x8001 then 0x40 else 0)\<rparr>"

lemma uc_slots_below:
  assumes "r < 17" "unat uc + 256 < 2 ^ 64" "unat uc + 256 \<le> unat a" "unat a + 8 \<le> 2 ^ 64"
  shows "apart (uc + UC r) a"
proof -
  have "\<forall>r\<in>set [0..<17]. unat (UC r) + 8 \<le> 256" by (simp add: uc_mcontext_gregs_def upt_rec)
  then have u: "unat (UC r) + 8 \<le> 256" using assms(1) by force
  have "uc + UC r + word_of_nat i \<noteq> a + word_of_nat j" if "i < 8" "j < 8" for i j
  proof -
    have "unat (uc + UC r) = unat uc + unat (UC r)" using u assms(2) by (intro unat_add_no_wrap) simp
    moreover have "unat (uc + UC r + word_of_nat i) = unat (uc + UC r) + i"
      using that u assms(2) calculation by (intro unat_add_numeral_u64) simp
    moreover have "unat (a + word_of_nat j) = unat a + j" using that assms(4) by (intro unat_add_numeral_u64) simp
    ultimately have "unat (uc + UC r + word_of_nat i) \<noteq> unat (a + word_of_nat j)" using that u assms(3) by linarith
    then show ?thesis by metis
  qed
  then show ?thesis by (simp add: apart_def)
qed

theorem context_roundtrip_witness:
  "gpr (run_code x86_64_setcontext ((run_code x86_64_getcontext cpu0)\<lparr>gpr := (\<lambda>_. 0x6000)\<rparr>)) RIP = 0x4000 \<and>
   gpr (run_code x86_64_setcontext ((run_code x86_64_getcontext cpu0)\<lparr>gpr := (\<lambda>_. 0x6000)\<rparr>)) RBX = 3"
proof -
  let ?t = "(run_code x86_64_getcontext cpu0)\<lparr>gpr := (\<lambda>_. 0x6000)\<rparr>"
  have a: "context_apart (gpr cpu0 RDI) (gpr cpu0 RSP)"
    by (auto simp: context_apart_def cpu0_def intro!: uc_slots_below)
  have "read_word (cpu_mem cpu0) (gpr cpu0 RSP) = 0x4000" by code_simp
  moreover have "gpr cpu0 RBX = 3" by (simp add: cpu0_def)
  moreover have t: "gpr ?t RDI = gpr cpu0 RDI" by (simp add: cpu0_def)
  have h: "\<forall>r<17. read_word (cpu_mem ?t) (gpr cpu0 RDI + UC r) =
      read_word (cpu_mem (run_code x86_64_getcontext cpu0)) (gpr cpu0 RDI + UC r)" by simp
  have "gpr (run_code x86_64_setcontext ?t) r =
      (if r = RIP then read_word (cpu_mem cpu0) (gpr cpu0 RSP) else if r = RSP then gpr cpu0 RSP + 8 else gpr cpu0 r)"
    if "r \<in> {RIP, RBX}" for r
    by (rule conjunct1, rule context_roundtrip [OF a refl t h]) (use that in auto)
  ultimately show ?thesis by simp
qed

end
