(* ===== verification/Unw_Jump.thy ===== *)
theory Unw_Jump
  imports Unw_Exception Unw_Context
begin

text \<open>
  Non-local jumps (\<^verbatim>\<open>setjmp/\<close>): \<open>longjmp\<close> and \<open>siglongjmp\<close> walk up the stack to the frame the buffer was filled in and resume there, at a
  piece of assembly that makes the jump (theory \<^verbatim>\<open>Unw_Context\<close>). A \<open>jmp_buf\<close> is an array of words in memory. \<open>abort\<close> is a panic. The
  frame and return address that \<open>setjmp\<close> stores come from the compiler and are arguments; so are the addresses of the
  continuations, \<open>getcontext\<close>, and \<open>sigprocmask\<close>. The loops over frames are bounded by \<open>steps\<close>.
\<close>

section \<open>Buffers\<close>

definition JB_SP :: nat where "JB_SP = 2"
definition JB_RP :: nat where "JB_RP = 0"
definition JB_MASK_SAVED :: nat where "JB_MASK_SAVED = 0"
definition JB_MASK :: nat where "JB_MASK = 9"

lemmas jb_defs = JB_SP_def JB_RP_def JB_MASK_SAVED_def JB_MASK_def

definition jb_addr :: "addr \<Rightarrow> nat \<Rightarrow> addr" where "jb_addr env i = env + 8 * of_nat i"

abbreviation jb_word :: "memory \<Rightarrow> addr \<Rightarrow> nat \<Rightarrow> u64" where "jb_word m env i \<equiv> read_word m (jb_addr env i)"

definition setjmp :: "u64 \<Rightarrow> u64 \<Rightarrow> addr \<Rightarrow> memory \<Rightarrow> memory" where
  "setjmp frame_address return_address env m =
     write_word (write_word m (jb_addr env JB_SP) frame_address) (jb_addr env JB_RP) return_address"

text \<open>\<open>sigprocmask\<close> stores the mask at an address or fails.\<close>

definition sigsetjmp ::
  "(addr \<Rightarrow> memory \<Rightarrow> memory option) \<Rightarrow> u64 \<Rightarrow> u64 \<Rightarrow> addr \<Rightarrow> u32 \<Rightarrow> memory \<Rightarrow> memory outcome" where
  "sigsetjmp sigprocmask frame_address return_address env savemask m =
     (let m = setjmp frame_address return_address env m;
          m = write_word m (jb_addr env JB_MASK_SAVED) (scast savemask) in
      if savemask = 0 then Ok m
      else case sigprocmask (jb_addr env JB_MASK) m of None \<Rightarrow> Panic | Some m \<Rightarrow> Ok m)"

section \<open>Jumping\<close>

text \<open>A call of \<open>unw_set_reg\<close> whose failure aborts.\<close>

definition set_or_abort :: "nat \<Rightarrow> u64 \<Rightarrow> lib_state \<Rightarrow> lib_state outcome" where
  "set_or_abort r v = (\<lambda>(c, L).
     let (M, c) = unw_set_reg (l_machine L) c (int r) v in
     case M of Ok M \<Rightarrow> Ok (c, L\<lparr>l_machine := M\<rparr>) | Fail _ \<Rightarrow> Panic | Panic \<Rightarrow> Panic | UB \<Rightarrow> UB | Diverge \<Rightarrow> Diverge)"

abbreviation lib_mem :: "lib_state \<Rightarrow> memory" where "lib_mem s \<equiv> m_mem (l_machine (snd s))"

text \<open>The right frame was found: \<open>UNW_REG_EH + n\<close> is the register \<open>n\<close>, so the first two are RAX and RDX.\<close>

definition jump_to :: "nat \<Rightarrow> u64 \<Rightarrow> addr \<Rightarrow> u32 \<Rightarrow> lib_state \<Rightarrow> lib_state outcome" where
  "jump_to fuel cont env v s =
     obind (set_or_abort RAX (jb_word (lib_mem s) env JB_RP) s) (\<lambda>s.
     obind (set_or_abort RDX (scast v) s) (\<lambda>s.
     obind (set_or_abort RIP cont s) (unw_resume fuel)))"

definition bsp_match :: "cursor \<Rightarrow> addr \<Rightarrow> bool" where "bsp_match c env = True"

definition resume_restores_sigmask :: "cursor \<Rightarrow> addr \<Rightarrow> bool" where "resume_restores_sigmask c env = False"

text \<open>The stack pointer of the frame that is looked for; the code for FreeBSD adds a word.\<close>

definition jump_sp :: "addr \<Rightarrow> lib_state \<Rightarrow> u64" where
  "jump_sp env s = jb_word (lib_mem s) env JB_SP + 8"

primrec jump_loop :: "nat \<Rightarrow> nat \<Rightarrow> addr \<Rightarrow> (lib_state \<Rightarrow> lib_state outcome) \<Rightarrow> lib_state \<Rightarrow> lib_state outcome" where
  "jump_loop 0 fuel env found s = Diverge"
| "jump_loop (Suc steps) fuel env found s =
     (case s of (c, L) \<Rightarrow>
      case unw_get_reg (l_machine L) c (int RSP) of
        Ok (sp, M) \<Rightarrow>
          (let s = (c, L\<lparr>l_machine := M\<rparr>) in
           if sp = jump_sp env s \<and> bsp_match c env then found s
           else
             obind (unw_step fuel s) (\<lambda>(r, s).
             case r of Err _ \<Rightarrow> Panic | Ret n \<Rightarrow> if n > 0 then jump_loop steps fuel env found s else Panic))
      | _ \<Rightarrow> Panic)"

definition jump_init :: "(addr \<Rightarrow> machine \<Rightarrow> machine) \<Rightarrow> addr \<Rightarrow> lib_state \<Rightarrow> lib_state outcome" where
  "jump_init getcontext uc = (\<lambda>(c, L).
     case unw_init_local (getcontext uc (l_machine L)) c uc of
       Ok (c, M) \<Rightarrow> Ok (c, L\<lparr>l_machine := M\<rparr>)
     | _ \<Rightarrow> Panic)"

definition longjmp ::
  "(addr \<Rightarrow> machine \<Rightarrow> machine) \<Rightarrow> u64 \<Rightarrow> nat \<Rightarrow> nat \<Rightarrow> addr \<Rightarrow> addr \<Rightarrow> u32 \<Rightarrow> lib_state \<Rightarrow> lib_state outcome" where
  "longjmp getcontext longjmp_cont steps fuel uc env v s =
     obind (jump_init getcontext uc s) (jump_loop steps fuel env (jump_to fuel longjmp_cont env v))"

text \<open>With a saved mask the address of the mask goes to RCX, which is \<open>UNW_REG_EH + 2\<close>.\<close>

definition sigjump_to :: "nat \<Rightarrow> u64 \<Rightarrow> u64 \<Rightarrow> addr \<Rightarrow> u32 \<Rightarrow> lib_state \<Rightarrow> lib_state outcome" where
  "sigjump_to fuel longjmp_cont siglongjmp_cont env v s =
     (if \<not> resume_restores_sigmask (fst s) env \<and> jb_word (lib_mem s) env JB_MASK_SAVED \<noteq> 0
      then obind (set_or_abort RCX (jb_addr env JB_MASK) s) (jump_to fuel siglongjmp_cont env v)
      else jump_to fuel longjmp_cont env v s)"

definition siglongjmp ::
  "(addr \<Rightarrow> machine \<Rightarrow> machine) \<Rightarrow> u64 \<Rightarrow> u64 \<Rightarrow> nat \<Rightarrow> nat \<Rightarrow> addr \<Rightarrow> addr \<Rightarrow> u32 \<Rightarrow> lib_state \<Rightarrow> lib_state outcome" where
  "siglongjmp getcontext longjmp_cont siglongjmp_cont steps fuel uc env v s =
     obind (jump_init getcontext uc s) (jump_loop steps fuel env (sigjump_to fuel longjmp_cont siglongjmp_cont env v))"

section \<open>The walk to the frame\<close>

text \<open>\<open>frame_walk fuel s ss t\<close>: steps of the unwinder lead from \<open>s\<close> through the frames \<open>ss\<close> to \<open>t\<close>.\<close>

inductive frame_walk :: "nat \<Rightarrow> lib_state \<Rightarrow> lib_state list \<Rightarrow> lib_state \<Rightarrow> bool" where
  here: "frame_walk fuel s [] s"
| up: "unw_step fuel s = ret n s1 \<Longrightarrow> 0 < n \<Longrightarrow> frame_walk fuel s1 ss t \<Longrightarrow> frame_walk fuel s (s # ss) t"

inductive_cases frame_walk_NilE: "frame_walk fuel s [] t"
inductive_cases frame_walk_ConsE: "frame_walk fuel s (u # ss) t"

lemma get_sp [simp]: "unw_get_reg M c 7 = Ok (c_cfa c, M)"
  by (simp add: unw_get_reg_def tdep_access_reg_read_def)

lemma lib_machine_same [simp]: "L\<lparr>l_machine := l_machine L\<rparr> = L"
  by (cases L) simp

lemma jump_loop_Suc:
  "jump_loop (Suc steps) fuel env found s =
     (if c_cfa (fst s) = jump_sp env s then found s
      else obind (unw_step fuel s) (\<lambda>(r, s).
        case r of Err _ \<Rightarrow> Panic | Ret n \<Rightarrow> if n > 0 then jump_loop steps fuel env found s else Panic))"
  by (cases s) (simp add: bsp_match_def)

declare jump_loop.simps(2) [simp del]

lemma jump_loop_walk:
  assumes "frame_walk fuel s ss t" "\<forall>u\<in>set ss. c_cfa (fst u) \<noteq> jump_sp env u"
  shows "jump_loop (length ss + steps) fuel env found s = jump_loop steps fuel env found t"
  using assms by (induction rule: frame_walk.induct) (simp_all add: jump_loop_Suc ret_def)

section \<open>Landing\<close>

text \<open>
  A frame that can be jumped to: its registers can be installed, the slot of its return address does not overlap
  those of the other registers, and it is not a signal frame.
\<close>

definition jumpable :: "cursor \<Rightarrow> bool" where
  "jumpable c = (resumable c \<and> length (c_eh_args c) = 2 \<and> c_loc c ! RIP \<noteq> 0 \<and> c_sigcontext_format c = X86_64_SCF_NONE \<and>
     c_pi c = zero_proc_info \<and> (\<forall>r<17. r \<notin> {RAX, RDX, RSP, RIP} \<longrightarrow> apart (c_loc c ! RIP) (c_loc c ! r)))"

definition jump_cursor :: "u64 \<Rightarrow> u64 \<Rightarrow> u64 \<Rightarrow> cursor \<Rightarrow> cursor" where
  "jump_cursor rp v cont c = c\<lparr>c_eh_args := (c_eh_args c)[0 := rp, 1 := v],
     c_eh_valid_mask := (c_eh_valid_mask c OR 1) OR 2, c_ip := cont\<rparr>"

lemma jump_regs_set:
  assumes "c_loc c ! RIP \<noteq> 0"
  shows "obind (set_or_abort RAX rp (c, L)) (\<lambda>s. obind (set_or_abort RDX v s) (\<lambda>s. obind (set_or_abort RIP cont s) k)) =
    k (jump_cursor rp v cont c, L\<lparr>l_machine := access_mem_write (l_machine L) (c_loc c ! RIP) cont\<rparr>)"
  using assms by (simp add: set_or_abort_def unw_set_reg_def tdep_access_reg_write_def dwarf_put_def DWARF_IS_NULL_LOC_def
      jump_cursor_def access_mem_write_def)

lemma jump_cursor_simps [simp]:
  "c_loc (jump_cursor rp v cont c) = c_loc c" "c_cfa (jump_cursor rp v cont c) = c_cfa c" "c_uc (jump_cursor rp v cont c) = c_uc c"
  "c_validate (jump_cursor rp v cont c) = c_validate c" "c_pi (jump_cursor rp v cont c) = c_pi c" "c_ip (jump_cursor rp v cont c) = cont"
  "c_use_prev_instr (jump_cursor rp v cont c) = c_use_prev_instr c" "c_sigcontext_format (jump_cursor rp v cont c) = c_sigcontext_format c"
  by (simp_all add: jump_cursor_def)

lemma jump_cursor_mask [simp]:
  "bit (c_eh_valid_mask (jump_cursor rp v cont c)) 0" "bit (c_eh_valid_mask (jump_cursor rp v cont c)) (Suc 0)"
  by (simp_all add: jump_cursor_def bit_or_iff bit_1_iff bit_simps)

lemma jump_cursor_value:
  assumes "length (c_eh_args c) = 2" "\<forall>r<17. r \<notin> {RAX, RDX, RSP, RIP} \<longrightarrow> apart (c_loc c ! RIP) (c_loc c ! r)"
    "m' = write_word m (c_loc c ! RIP) cont" "r < 17"
  shows "cursor_value m' (jump_cursor rp v cont c) r =
    (if r = RAX then rp else if r = RDX then v else if r = RIP then cont else cursor_value m c r)"
proof -
  have "r = RAX \<or> r = RDX \<or> r = RIP \<or> r = RSP \<or> r \<notin> {RAX, RDX, RSP, RIP}" by auto
  then show ?thesis
  proof (elim disjE)
    assume r: "r \<notin> {RAX, RDX, RSP, RIP}"
    then have "apart (c_loc c ! RIP) (c_loc c ! r)" using assms(2,4) by simp
    then show ?thesis using r by (auto simp: cursor_value_def assms(3) read_write_apart less_2_cases_iff)
  qed (use assms(1) in \<open>simp_all add: cursor_value_def assms(3) jump_cursor_def [of rp v cont c] bit_simps\<close>)
qed

lemma jump_cursor_resumable: "resumable c \<Longrightarrow> resumable (jump_cursor rp v cont c)"
proof -
  have "reg_in_cursor (jump_cursor rp v cont c) r" if "reg_in_cursor c r" for r
    using that by (auto simp: reg_in_cursor_def less_2_cases_iff)
  moreover assume "resumable c"
  ultimately show ?thesis unfolding resumable_def readable_loc_def jump_cursor_simps by blast
qed

lemma jump_to_jumpable:
  assumes "jumpable c" "no_unwind_info L (if c_use_prev_instr c then cont - 1 else cont)" "m = m_mem (l_machine L)"
    "rp = jb_word m env JB_RP"
  shows "\<exists>L'. jump_to fuel cont env v (c, L) = Ok (jump_cursor rp (scast v) cont c, L') \<and>
    (\<forall>r<17. read_word (m_mem (l_machine L')) (uc_slot c r) =
       (if r = RAX then rp else if r = RDX then scast v else if r = RIP then cont else cursor_value m c r))"
proof -
  let ?c = "jump_cursor rp (scast v) cont c" and ?M = "access_mem_write (l_machine L) (c_loc c ! RIP) cont"
  have j: "resumable c" "c_loc c ! RIP \<noteq> 0" "c_sigcontext_format c = X86_64_SCF_NONE" "c_pi c = zero_proc_info"
    using assms(1) by (simp_all add: jumpable_def)
  obtain M' where M': "establish_machine_state (?c, ?M) = Ok M'"
    "\<forall>r<17. read_word (m_mem M') (uc_slot ?c r) = cursor_value (m_mem ?M) ?c r"
    using establish_resumable [OF jump_cursor_resumable [OF j(1)], of rp "scast v" cont ?M] by blast
  have m: "m_mem ?M = write_word m (c_loc c ! RIP) cont" by (simp add: access_mem_write_def assms(3))
  let ?L = "L\<lparr>l_machine := M'\<rparr>"
  have "dwarf_make_proc_info fuel (?c, ?L) = Ok (if c_pi_valid ?c then Ret () else Err UNW_ENOINFO, ?c, ?L)"
    using assms(2) j(4) by (intro make_proc_info_none) (simp_all add: lookup_ip_def split: if_splits)
  then have "unw_resume fuel (?c, L\<lparr>l_machine := ?M\<rparr>) = Ok (?c, ?L)"
    using M'(1) j(3) by (simp add: unw_resume_def x86_64_local_resume_def)
  then have "jump_to fuel cont env v (c, L) = Ok (?c, ?L)"
    using jump_regs_set [OF j(2), of rp L "scast v" cont "unw_resume fuel"] assms(3,4) by (simp add: jump_to_def)
  moreover have "cursor_value (m_mem ?M) ?c r = (if r = RAX then rp else if r = RDX then scast v else if r = RIP then cont else cursor_value m c r)"
    if "r < 17" for r by (rule jump_cursor_value [OF _ _ m that]) (use assms(1) in \<open>simp_all add: jumpable_def\<close>)
  ultimately show ?thesis using M'(2) by auto
qed

text \<open>The registers after \<open>setcontext\<close> and the continuation have run on the context that \<open>longjmp\<close> leaves.\<close>

definition landed :: "cpu \<Rightarrow> nat \<Rightarrow> u64" where
  "landed t = gpr (run_code UI_longjmp_cont (run_code x86_64_setcontext t))"

lemma landed_regs:
  assumes "gpr t RDI = uc" "context_apart uc (slot RSP - 8)" "slot = (\<lambda>r. read_word (cpu_mem t) (uc + UC r))" "r < 17"
  shows "landed t r = (if r = RIP then slot RAX else if r = RAX then slot RDX else if r = R10 \<or> r = R11 then gpr t r else slot r)"
proof -
  note s = run_setcontext(2) [OF assms(1) [symmetric] assms(3,2)]
  show ?thesis unfolding landed_def run_longjmp_cont(1) using assms(4) s by (simp add: fun_upd_apply)
qed


text \<open>A buffer at 0x7000 for the frame of the context at 0x6000: return address 0x5000, stack pointer 0x7ff8.\<close>

definition jump_mem :: memory where
  "jump_mem a = (if a = 0x7001 then 0x50 else if a = 0x7010 then 0xf8 else if a = 0x7011 then 0x7f else backtrace_mem a)"

definition jump_lib :: unw_lib where
  "jump_lib = lib0\<lparr>l_machine := machine0\<lparr>m_mem := jump_mem\<rparr>\<rparr>"

definition jump_frame :: cursor where
  "jump_frame = resume_cursor\<lparr>c_ip := 0x4000, c_ret_addr_column := 16, c_use_prev_instr := True\<rparr>"

lemma jump_mem_words:
  "read_word jump_mem 0x7000 = 0x5000" "read_word jump_mem 0x7010 = 0x7ff8"
  "read_word jump_mem 0x60b0 = 0x4000" "read_word jump_mem 0x60c8 = 0x8000" "read_word jump_mem 0x6050 = 0"
  by (simp_all add: read_word_bytes jump_mem_def backtrace_mem_def stack_mem_def)

lemma jump_frame_init: "jump_init (\<lambda>_ M. M) 0x6000 (cursor0, jump_lib) = Ok (jump_frame, jump_lib)"
proof -
  have "uc_mcontext_gregs ! 16 = 0xb0" "uc_mcontext_gregs ! 7 = 0xc8" "length uc_mcontext_gregs = 17" by (simp_all add: uc_mcontext_gregs_def)
  moreover have "m_mem (l_machine jump_lib) = jump_mem" by (simp add: jump_lib_def)
  ultimately show ?thesis
    by (simp add: jump_init_def unw_init_local_def common_init_def dwarf_get_def DWARF_IS_NULL_LOC_def access_mem_read_def
        DWARF_REG_LOC_def x86_64_r_uc_addr_def jump_mem_words jump_frame_def resume_cursor_def cursor0_def)
qed

lemma jump_frame_jumpable: "jumpable jump_frame"
proof -
  have l: "length uc_mcontext_gregs = 17" by (simp add: uc_mcontext_gregs_def)
  have "resumable jump_frame = resumable resume_cursor"
    by (simp add: resumable_def reg_in_cursor_def readable_loc_def jump_frame_def)
  moreover have "apart (c_loc jump_frame ! RIP) (c_loc jump_frame ! r)" if "r < 17" "r \<noteq> RIP" for r
    using that l uc_regs_apart [of RIP r "0x6000"] by (simp add: jump_frame_def resume_cursor_def)
  ultimately show ?thesis using resume_cursor_resumable l
    by (simp add: jumpable_def) (simp add: jump_frame_def resume_cursor_def cursor0_def uc_mcontext_gregs_def)
qed


section \<open>Buffers of frames that are gone\<close>

primrec frame_pointers :: "memory \<Rightarrow> u64 \<Rightarrow> u64 list \<Rightarrow> u64 list" where
  "frame_pointers m rbp [] = [rbp]"
| "frame_pointers m rbp (ra # ras) = rbp # frame_pointers m (read_word m rbp) ras"

lemma jump_loop_chain:
  assumes "chain_state m k ras s" "length ras < steps"
    "\<forall>f\<in>set (frame_pointers m (fst k) ras). snd k + (f - fst k) \<noteq> jb_word m env JB_SP + 8"
  shows "jump_loop steps fuel env found s = Panic"
  using assms
proof (induction rule: cw.walk_induct [where fuel = fuel])
  case (outermost n k s s')
  then show ?case using chain_stateD [OF outermost.hyps(1)] by (simp add: jump_loop_Suc jump_sp_def)
next
  case (frame n k ra ras s s')
  have up: "fst (chain_up m k) = read_word m (fst k)" "snd (chain_up m k) + (f - read_word m (fst k)) = snd k + (f - fst k)" for f
    by (simp_all add: chain_up_def split_beta)
  have "jump_loop n fuel env found s' = Panic"
    by (rule frame.IH) (use frame.prems in \<open>simp add: up\<close>)
  moreover have "c_cfa (fst s) \<noteq> jump_sp env s"
    using frame.prems chain_stateD [OF frame.hyps(1)] by (simp add: jump_sp_def)
  ultimately show ?case using frame.hyps(2) by (simp add: jump_loop_Suc)
qed

text \<open>C25: jumping to a frame that is gone is caught: when the frame pointers form a chain through code without unwind
  information and no frame of the chain has the stack pointer the buffer asks for, both \<open>longjmp\<close> and \<open>siglongjmp\<close> end in a panic
  after the outermost frame; they neither loop nor resume anywhere.\<close>

theorem longjmp_dead_frame_panics:
  assumes "M = getcontext uc (l_machine L)" "m = m_mem M" "context_chain ras uc (L\<lparr>l_machine := M\<rparr>)" "length (c_eh_args c) = 2"
    "length ras < steps" "rbp = read_word m (uc + 0x58)" "sp = read_word m (uc + 0xc8)"
    "\<forall>f\<in>set (frame_pointers m rbp ras). sp + (f - rbp) \<noteq> jb_word m env JB_SP + 8"
  shows "longjmp getcontext cont steps fuel uc env v (c, L) = Panic \<and>
    siglongjmp getcontext cont sigcont steps fuel uc env v (c, L) = Panic"
proof -
  let ?L = "L\<lparr>l_machine := M\<rparr>"
  have m: "m = m_mem (l_machine ?L)" using assms(2) by simp
  obtain c' where c': "unw_init_local (l_machine ?L) c uc = Ok (c', l_machine ?L)" "chain_state m (rbp, sp) ras (c', ?L)"
    using init_chain_state [OF assms(3,4) m] assms(6,7) by blast
  then have "jump_init getcontext uc (c, L) = Ok (c', ?L)" using assms(1) by (simp add: jump_init_def)
  moreover have "jump_loop steps fuel env found (c', ?L) = Panic" for found
    using jump_loop_chain [OF c'(2) assms(5)] assms(8) by simp
  ultimately show ?thesis by (simp add: longjmp_def siglongjmp_def)
qed

theorem longjmp_dead_frame_panics_witness:
  "longjmp (\<lambda>_ M. M) 0x5800 3 0 0x6000 0xa000 7 (cursor0, backtrace_lib) = Panic"
proof -
  have m: "m_mem (l_machine backtrace_lib) = backtrace_mem" by (simp add: backtrace_lib_def)
  have c: "context_chain [0x2100, 0x3100] 0x6000 (backtrace_lib\<lparr>l_machine := l_machine backtrace_lib\<rparr>)"
    using backtrace_context by simp
  have "read_word backtrace_mem 0xa010 = 0" by (simp add: read_word_bytes backtrace_mem_def stack_mem_def)
  then have "\<forall>f\<in>set (frame_pointers backtrace_mem (read_word backtrace_mem (0x6000 + 0x58)) [0x2100, 0x3100]).
      read_word backtrace_mem (0x6000 + 0xc8) + (f - read_word backtrace_mem (0x6000 + 0x58)) \<noteq> jb_word backtrace_mem 0xa000 JB_SP + 8"
    by (simp add: jb_addr_def JB_SP_def backtrace_mem_words)
  then show ?thesis
    using longjmp_dead_frame_panics [of "l_machine backtrace_lib" "\<lambda>_ M. M" "0x6000" backtrace_lib backtrace_mem "[0x2100, 0x3100]" cursor0 3]
      c m by (simp add: cursor0_def)
qed

section \<open>The buffers of the library\<close>

text \<open>
  On x86-64 the word that says whether a mask was saved is the word of the return address, so \<open>sigsetjmp\<close> overwrites
  the return address it has just stored.
\<close>

lemma sigsetjmp_loses_return_address:
  "\<exists>m'. sigsetjmp sigprocmask frame_address return_address env 0 m = Ok m' \<and> jb_word m' env JB_RP = 0"
  by (simp add: sigsetjmp_def jb_defs)

text \<open>
  The frame address of \<open>setjmp\<close> is two words below the stack pointer of its caller, but \<open>longjmp\<close> looks one word above it.
\<close>

lemma setjmp_misses_caller:
  assumes "m_mem (l_machine L) = setjmp (caller_sp - 16) return_address env m"
  shows "jump_sp env (c, L) = caller_sp - 8"
proof -
  have "apart (jb_addr env JB_RP) (jb_addr env JB_SP)"
  proof -
    have "env + word_of_nat i \<noteq> env + 16 + word_of_nat j" if "i < 8" "j < 8" for i j
    proof
      assume "env + word_of_nat i = env + 16 + word_of_nat j"
      then have "word_of_nat i = (word_of_nat (16 + j) :: u64)" by (simp add: add.assoc)
      then have "unat (word_of_nat i :: u64) = unat (word_of_nat (16 + j) :: u64)" by simp
      then show False using that by (simp only: unat_of_nat) (simp add: take_bit_nat_eq_self)
    qed
    then show ?thesis by (simp add: apart_def jb_addr_def jb_defs)
  qed
  then show ?thesis by (simp add: jump_sp_def assms setjmp_def read_write_apart)
qed

end
