(* ===== verification/Dwarf_Cache.thy ===== *)
theory Dwarf_Cache
  imports Unw_Step
begin

text \<open>
  The cache of register states (\<^verbatim>\<open>Gparser.c\<close>), the address space that owns it (\<^verbatim>\<open>include/tdep-x86_64/libunwind_i.h\<close>),
  flushing (\<^verbatim>\<open>flush_cache.c\<close>), and the part of \<open>dwarf_find_save_locs\<close> that uses
  the cache. That part stands behind a \<open>return\<close> and is not reached; it is modelled here as the function
  it would be.

  The cache is an array of 128 register states, a hash table of 256 chains that are linked through the array
  by indices, and a chain of all entries in the order in which they are replaced. Loops over a chain have
  \<open>fuel\<close>, since a chain of indices may be cyclic; an index outside the array is undefined behaviour.
  The locale \<open>fifo_cache\<close> states what a client relies on.
\<close>

section \<open>The cache\<close>

definition DWARF_UNW_CACHE_SIZE :: nat where "DWARF_UNW_CACHE_SIZE = 128"
definition DWARF_UNW_HASH_SIZE :: nat where "DWARF_UNW_HASH_SIZE = 256"

record dwarf_rs_cache =
  lru_head :: u16
  lru_tail :: u16
  rc_hash :: "u16 list"
  rc_generation :: u32
  rc_buckets :: "dwarf_reg_state_t list"

datatype unw_caching_policy_t = UNW_CACHE_NONE | UNW_CACHE_GLOBAL | UNW_CACHE_PER_THREAD

text \<open>
  The address space without the table of accessors, which are the operations of the model. The list of
  debug frames holds for each descriptor whether it has an index; it is always empty, since nothing adds to it.
\<close>

record unw_addr_space =
  caching_policy :: unw_caching_policy_t
  cache_generation :: u32
  dyn_generation :: u64
  dyn_info_list_addr :: u64
  global_cache :: dwarf_rs_cache
  debug_frames :: "bool list"

abbreviation upd_bucket :: "nat \<Rightarrow> (dwarf_reg_state_t \<Rightarrow> dwarf_reg_state_t) \<Rightarrow> dwarf_rs_cache \<Rightarrow> dwarf_rs_cache" where
  "upd_bucket i f C \<equiv> C\<lparr>rc_buckets := (rc_buckets C)[i := f (rc_buckets C ! i)]\<rparr>"

definition flush_rs_cache :: "dwarf_rs_cache \<Rightarrow> dwarf_rs_cache" where
  "flush_rs_cache C = C\<lparr>
     lru_head := of_nat (DWARF_UNW_CACHE_SIZE - 1), lru_tail := 0,
     rc_buckets := map (\<lambda>i. (rc_buckets C ! i)\<lparr>
       rs_lru_chain := (if i > 0 then of_nat (i - 1) else rs_lru_chain (rc_buckets C ! i)),
       rs_coll_chain := - 1, rs_ip := 0, rs_valid := False\<rparr>) [0..<DWARF_UNW_CACHE_SIZE],
     rc_hash := replicate DWARF_UNW_HASH_SIZE (- 1)\<rparr>"

text \<open>\<open>NULL\<close> (here \<open>None\<close>) without caching; the lock is not modelled.\<close>

definition get_rs_cache :: "unw_addr_space \<Rightarrow> dwarf_rs_cache option \<times> unw_addr_space" where
  "get_rs_cache as =
     (if caching_policy as = UNW_CACHE_NONE then (None, as)
      else
        (let C = global_cache as;
             C = (if cache_generation as \<noteq> rc_generation C
                  then (flush_rs_cache C)\<lparr>rc_generation := cache_generation as\<rparr> else C) in
         (Some C, as\<lparr>global_cache := C\<rparr>)))"

definition rs_hash :: "u64 \<Rightarrow> nat" where
  "rs_hash ip = unat (drop_bit 56 (ip * 0x9e3779b97f4a7c16))"

definition cache_match :: "dwarf_reg_state_t \<Rightarrow> u64 \<Rightarrow> bool" where
  "cache_match rs ip = (rs_valid rs \<and> ip = rs_ip rs)"

primrec rs_find :: "nat \<Rightarrow> dwarf_rs_cache \<Rightarrow> u64 \<Rightarrow> nat \<Rightarrow> nat option outcome" where
  "rs_find 0 C ip i = Diverge"
| "rs_find (Suc fuel) C ip i =
     (if i \<ge> DWARF_UNW_CACHE_SIZE then UB
      else if cache_match (rc_buckets C ! i) ip then Ok (Some i)
      else
        (let j = unat (rs_coll_chain (rc_buckets C ! i)) in
         if j \<ge> DWARF_UNW_HASH_SIZE then Ok None else rs_find fuel C ip j))"

text \<open>The index of the entry for the instruction pointer of the cursor. The index is stored as a hint.\<close>

definition rs_lookup :: "nat \<Rightarrow> dwarf_rs_cache \<times> cursor \<Rightarrow> (nat option \<times> dwarf_rs_cache \<times> cursor) outcome" where
  "rs_lookup fuel = (\<lambda>(C, c).
     let hint = unat (c_hint c); index = unat (rc_hash C ! rs_hash (c_ip c)) in
     if hint \<ge> DWARF_UNW_CACHE_SIZE then UB
     else if cache_match (rc_buckets C ! hint) (c_ip c) then Ok (Some hint, C, c)
     else if index \<ge> DWARF_UNW_CACHE_SIZE then Ok (None, C, c)
     else
       obind (rs_find fuel C (c_ip c) index) (\<lambda>r.
       case r of
         None \<Rightarrow> Ok (None, C, c)
       | Some i \<Rightarrow>
           defined (unat (c_prev_rs c) < DWARF_UNW_CACHE_SIZE)
             (Ok (Some i, upd_bucket (unat (c_prev_rs c)) (\<lambda>b. b\<lparr>rs_hint := of_nat i\<rparr>) C, c\<lparr>c_hint := of_nat i\<rparr>))))"

text \<open>Taking an entry out of a chain of the hash table.\<close>

primrec rs_unlink :: "nat \<Rightarrow> nat \<Rightarrow> nat \<Rightarrow> nat option \<Rightarrow> nat \<Rightarrow> dwarf_rs_cache \<Rightarrow> dwarf_rs_cache outcome" where
  "rs_unlink 0 rs index prev tmp C = Diverge"
| "rs_unlink (Suc fuel) rs index prev tmp C =
     (if tmp \<ge> DWARF_UNW_CACHE_SIZE then UB
      else
        (let coll = rs_coll_chain (rc_buckets C ! tmp) in
         if tmp = rs then
           Ok (case prev of
                 Some p \<Rightarrow> upd_bucket p (\<lambda>b. b\<lparr>rs_coll_chain := coll\<rparr>) C
               | None \<Rightarrow> C\<lparr>rc_hash := (rc_hash C)[index := coll]\<rparr>)
         else if unat coll \<ge> DWARF_UNW_CACHE_SIZE then Ok C
         else rs_unlink fuel rs index (Some tmp) (unat coll) C))"

definition rs_rotate :: "dwarf_rs_cache \<Rightarrow> (nat \<times> dwarf_rs_cache) outcome" where
  "rs_rotate C =
     (let head = lru_head C in
      defined (unat head < DWARF_UNW_CACHE_SIZE \<and> unat (lru_tail C) < DWARF_UNW_CACHE_SIZE)
        (let C = C\<lparr>lru_head := rs_lru_chain (rc_buckets C ! unat head)\<rparr>;
             C = upd_bucket (unat (lru_tail C)) (\<lambda>b. b\<lparr>rs_lru_chain := head\<rparr>) C in
         Ok (unat head, C\<lparr>lru_tail := head\<rparr>)))"

definition rs_enter :: "nat \<Rightarrow> cursor \<Rightarrow> dwarf_rs_cache \<Rightarrow> dwarf_rs_cache" where
  "rs_enter rs c C =
     (let index = rs_hash (c_ip c);
          C = upd_bucket rs (\<lambda>b. b\<lparr>rs_coll_chain := rc_hash C ! index\<rparr>) C;
          C = C\<lparr>rc_hash := (rc_hash C)[index := of_nat rs]\<rparr> in
      upd_bucket rs (\<lambda>b. b\<lparr>rs_hint := 0, rs_ip := c_ip c, rs_valid := True,
        rs_ret_addr_column := c_ret_addr_column c, rs_signal_frame := False\<rparr>) C)"

definition rs_new :: "nat \<Rightarrow> dwarf_rs_cache \<times> cursor \<Rightarrow> (nat \<times> dwarf_rs_cache) outcome" where
  "rs_new fuel = (\<lambda>(C, c).
     obind (rs_rotate C) (\<lambda>(rs, C).
     let ip = rs_ip (rc_buckets C ! rs) in
     obind (if ip \<noteq> 0 then rs_unlink fuel rs (rs_hash ip) None (unat (rc_hash C ! rs_hash ip)) C else Ok C) (\<lambda>C.
     Ok (rs, rs_enter rs c C))))"

section \<open>Flushing\<close>

text \<open>Freeing the descriptors has no effect on the modelled state.\<close>

definition unw_flush_cache :: "unw_addr_space \<Rightarrow> u64 \<Rightarrow> u64 \<Rightarrow> unw_addr_space" where
  "unw_flush_cache as lo hi =
     as\<lparr>dyn_info_list_addr := 0, debug_frames := [], cache_generation := cache_generation as + 1\<rparr>"

section \<open>Finding the saved registers through the cache\<close>

text \<open>The state after the entry was made: \<open>memcpy\<close> copies the members before \<open>ip\<close>, which are the rules.\<close>

definition cache_store :: "nat \<Rightarrow> dwarf_state_record_t \<Rightarrow> dwarf_rs_cache \<times> cursor \<Rightarrow> (nat \<times> dwarf_rs_cache \<times> cursor) outcome" where
  "cache_store fuel sr = (\<lambda>(C, c).
     obind (rs_new fuel (C, c)) (\<lambda>(rs, C).
     let C = upd_bucket rs (\<lambda>b. b\<lparr>rs_reg := rs_reg (rs_current sr)\<rparr>) C in
     defined (unat (c_prev_rs c) < DWARF_UNW_CACHE_SIZE)
       (let C = upd_bucket (unat (c_prev_rs c)) (\<lambda>b. b\<lparr>rs_hint := of_nat rs\<rparr>) C in
        Ok (rs, C, c\<lparr>c_hint := rs_hint (rc_buckets C ! rs), c_prev_rs := of_nat rs\<rparr>))))"

text \<open>The register state for the cursor, from the cache or parsed and entered.\<close>

definition cached_reg_state ::
  "nat \<Rightarrow> dwarf_rs_cache \<times> lib_state \<Rightarrow> (dwarf_rs_cache \<times> lib_state, dwarf_reg_state_t) call" where
  "cached_reg_state fuel = (\<lambda>(C, c, L).
     obind (rs_lookup fuel (C, c)) (\<lambda>(r, C, c).
     case r of
       Some i \<Rightarrow>
         (let rs = rc_buckets C ! i in
          ret rs (C, c\<lparr>c_ret_addr_column := rs_ret_addr_column rs, c_use_prev_instr := \<not> rs_signal_frame rs\<rparr>, L))
     | None \<Rightarrow>
         obind (cbind (fetch_proc_info fuel (c_ip c) True (c, L)) (\<lambda>_ s. lib_state_record fuel s)) (\<lambda>(r, c, L).
         case r of
           Err e \<Rightarrow> throw e (C, c, L)
         | Ret sr \<Rightarrow>
             obind (cache_store fuel sr (C, c)) (\<lambda>(i, C, c).
             obind (put_unwind_info (c, L)) (\<lambda>s.
             ret (rc_buckets C ! i) (C, s))))))"

definition cached_dwarf_find_save_locs ::
  "nat \<Rightarrow> unw_addr_space \<times> lib_state \<Rightarrow> (unw_addr_space \<times> lib_state, unit) call" where
  "cached_dwarf_find_save_locs fuel = (\<lambda>(as, s).
     case get_rs_cache as of
       (None, as) \<Rightarrow> obind (uncached_dwarf_find_save_locs fuel s) (\<lambda>(r, s). Ok (r, as, s))
     | (Some C, as) \<Rightarrow>
         obind (cached_reg_state fuel (C, s)) (\<lambda>(r, C, s).
         let as = as\<lparr>global_cache := C\<rparr> in
         case r of
           Err e \<Rightarrow> throw e (as, s)
         | Ret rs \<Rightarrow> obind (on_machine (apply_reg_state fuel rs) s) (\<lambda>(r, s). Ok (r, as, s))))"

section \<open>Chains of indices\<close>

fun coll_path :: "dwarf_reg_state_t list \<Rightarrow> u16 \<Rightarrow> nat list \<Rightarrow> bool" where
  "coll_path bs i [] = (unat i \<ge> DWARF_UNW_HASH_SIZE)"
| "coll_path bs i (k # ks) = (unat i = k \<and> k < DWARF_UNW_CACHE_SIZE \<and> coll_path bs (rs_coll_chain (bs ! k)) ks)"

lemma coll_path_cong:
  "(\<And>k. k \<in> set ks \<Longrightarrow> rs_coll_chain (bs ! k) = rs_coll_chain (bs' ! k)) \<Longrightarrow> coll_path bs i ks = coll_path bs' i ks"
  by (induction ks arbitrary: i) auto

lemma coll_path_other [simp]: "k \<notin> set ks \<Longrightarrow> coll_path (bs[k := b]) i ks = coll_path bs i ks"
  by (rule coll_path_cong) (metis nth_list_update_neq)

lemma coll_path_range: "coll_path bs i ks \<Longrightarrow> k \<in> set ks \<Longrightarrow> k < DWARF_UNW_CACHE_SIZE"
  by (induction ks arbitrary: i) auto

lemma coll_path_start:
  "coll_path bs i ks \<Longrightarrow> unat i < DWARF_UNW_HASH_SIZE \<Longrightarrow> ks \<noteq> [] \<and> unat i < DWARF_UNW_CACHE_SIZE"
  by (cases ks) auto

lemma rs_find_path:
  assumes "coll_path (rc_buckets C) i ks" "unat i < DWARF_UNW_HASH_SIZE" "length ks \<le> fuel"
  shows "rs_find fuel C ip (unat i) = Ok (List.find (\<lambda>k. cache_match (rc_buckets C ! k) ip) ks)"
  using assms
proof (induction ks arbitrary: i fuel)
  case (Cons k ks)
  obtain n where n: "fuel = Suc n" "length ks \<le> n" using Cons.prems(3) by (cases fuel) auto
  let ?j = "rs_coll_chain (rc_buckets C ! k)"
  have "rs_find n C ip (unat ?j) = Ok (List.find (\<lambda>k. cache_match (rc_buckets C ! k) ip) ks)"
    if "unat ?j < DWARF_UNW_HASH_SIZE" using Cons.IH [OF _ that n(2)] Cons.prems(1) by simp
  moreover have "ks = []" if "\<not> unat ?j < DWARF_UNW_HASH_SIZE"
    using Cons.prems(1) that by (cases ks) (auto simp: DWARF_UNW_CACHE_SIZE_def DWARF_UNW_HASH_SIZE_def)
  ultimately show ?case using Cons.prems(1) n(1) by (auto simp: Let_def not_le)
qed simp

lemma rs_unlink_path:
  assumes "coll_path (rc_buckets C) i (xs @ rs # ys)" "rs \<notin> set xs" "length xs < fuel"
  shows "rs_unlink fuel rs index prev (unat i) C =
    Ok (case (if xs = [] then prev else Some (last xs)) of
          Some p \<Rightarrow> upd_bucket p (\<lambda>b. b\<lparr>rs_coll_chain := rs_coll_chain (rc_buckets C ! rs)\<rparr>) C
        | None \<Rightarrow> C\<lparr>rc_hash := (rc_hash C)[index := rs_coll_chain (rc_buckets C ! rs)]\<rparr>)"
  using assms
proof (induction xs arbitrary: i prev fuel)
  case Nil
  then show ?case by (cases fuel) (auto simp: Let_def)
next
  case (Cons x xs)
  obtain n where n: "fuel = Suc n" "length xs < n" using Cons.prems(3) by (cases fuel) auto
  let ?j = "rs_coll_chain (rc_buckets C ! x)"
  have p: "unat i = x" "x < DWARF_UNW_CACHE_SIZE" "coll_path (rc_buckets C) ?j (xs @ rs # ys)" "x \<noteq> rs" "rs \<notin> set xs"
    using Cons.prems(1,2) by auto
  have "unat ?j < DWARF_UNW_CACHE_SIZE" using p(3) by (cases xs) auto
  then show ?case using Cons.IH [OF p(3,5) n(2), of "Some x"] p n(1) by (auto simp: Let_def)
qed

lemma coll_path_remove:
  assumes "coll_path bs i (xs @ rs # ys)" "distinct (xs @ rs # ys)" "xs \<noteq> []" "\<forall>k\<in>set xs. k < length bs"
  shows "coll_path (bs[last xs := (bs ! last xs)\<lparr>rs_coll_chain := rs_coll_chain (bs ! rs)\<rparr>]) i (xs @ ys)"
  using assms
proof (induction xs arbitrary: i)
  case (Cons x xs)
  show ?case
  proof (cases "xs = []")
    case True
    then have "coll_path bs (rs_coll_chain (bs ! rs)) ys" "x \<notin> set ys" "x < length bs" using Cons.prems by auto
    then show ?thesis using True Cons.prems(1) by simp
  next
    case False
    then have "last xs \<noteq> x" using Cons.prems(2) by auto
    then show ?thesis using Cons False by simp
  qed
qed simp

section \<open>The invariant\<close>

text \<open>The entries in the order of their replacement.\<close>

definition lru_order :: "dwarf_rs_cache \<Rightarrow> nat list \<Rightarrow> bool" where
  "lru_order C ks = (length (rc_buckets C) = DWARF_UNW_CACHE_SIZE \<and> length (rc_hash C) = DWARF_UNW_HASH_SIZE \<and>
     distinct ks \<and> set ks = {..<DWARF_UNW_CACHE_SIZE} \<and> unat (lru_head C) = hd ks \<and> unat (lru_tail C) = last ks \<and>
     (\<forall>j. Suc j < length ks \<longrightarrow> unat (rs_lru_chain (rc_buckets C ! (ks ! j))) = ks ! Suc j))"

text \<open>The entries \<open>vs\<close> are in use, and every chain of the hash table holds those whose address hashes to it.\<close>

definition hash_chains :: "dwarf_rs_cache \<Rightarrow> nat list \<Rightarrow> bool" where
  "hash_chains C vs = (distinct (map (\<lambda>v. rs_ip (rc_buckets C ! v)) vs) \<and>
     (\<forall>v\<in>set vs. v < DWARF_UNW_CACHE_SIZE \<and> rs_valid (rc_buckets C ! v) \<and> rs_ip (rc_buckets C ! v) \<noteq> 0 \<and>
        \<not> rs_signal_frame (rc_buckets C ! v)) \<and>
     (\<forall>h<DWARF_UNW_HASH_SIZE. \<exists>xs. coll_path (rc_buckets C) (rc_hash C ! h) xs \<and> distinct xs \<and>
        set xs = {v \<in> set vs. rs_hash (rs_ip (rc_buckets C ! v)) = h}))"

text \<open>What an entry holds: the rules and the column of the return address.\<close>

type_synonym cached_rules = "dwarf_save_loc_t list \<times> u64"

definition cached_entry :: "dwarf_rs_cache \<Rightarrow> nat \<Rightarrow> u64 \<times> cached_rules" where
  "cached_entry C v = (let b = rc_buckets C ! v in (rs_ip b, rs_reg b, rs_ret_addr_column b))"

text \<open>The cache as a queue of addresses and rules, the oldest first.\<close>

definition represents :: "dwarf_rs_cache \<Rightarrow> (u64 \<times> cached_rules) list \<Rightarrow> bool" where
  "represents C q = (\<exists>us vs. lru_order C (us @ vs) \<and> hash_chains C vs \<and>
     (\<forall>u\<in>set us. rs_ip (rc_buckets C ! u) = 0 \<and> \<not> rs_valid (rc_buckets C ! u)) \<and> q = map (cached_entry C) vs)"

lemma rs_hash_range [simp]: "rs_hash ip < DWARF_UNW_HASH_SIZE"
proof -
  have "unat (drop_bit 56 (x :: u64)) < 256" for x
    using unat_u64_less [of x] by (simp add: drop_bit_eq_div unat_div div_less_iff_less_mult)
  then show ?thesis by (simp add: rs_hash_def DWARF_UNW_HASH_SIZE_def)
qed

lemma cache_sizes [simp]: "0 < DWARF_UNW_CACHE_SIZE" "unat (- 1 :: u16) \<ge> DWARF_UNW_HASH_SIZE"
  by (simp_all add: DWARF_UNW_CACHE_SIZE_def DWARF_UNW_HASH_SIZE_def unsigned_minus_1_eq_mask mask_eq_exp_minus_1)

lemma unat_index [simp]: "k < DWARF_UNW_CACHE_SIZE \<Longrightarrow> unat (of_nat k :: u16) = k"
  by (simp add: DWARF_UNW_CACHE_SIZE_def unat_of_nat)

lemma lru_order_length: "lru_order C ks \<Longrightarrow> length ks = DWARF_UNW_CACHE_SIZE"
  unfolding lru_order_def by (metis card_lessThan distinct_card)

text \<open>A flushed cache is empty, whatever it was.\<close>

lemma flush_represents: "represents (flush_rs_cache C) []"
proof -
  let ?F = "flush_rs_cache C" and ?n = DWARF_UNW_CACHE_SIZE and ?ks = "rev [0..<DWARF_UNW_CACHE_SIZE]"
  have b: "rc_buckets ?F ! i = (rc_buckets C ! i)\<lparr>rs_lru_chain := (if i > 0 then of_nat (i - 1) else rs_lru_chain (rc_buckets C ! i)),
       rs_coll_chain := - 1, rs_ip := 0, rs_valid := False\<rparr>" if "i < ?n" for i
    using that by (simp add: flush_rs_cache_def)
  have chain: "unat (rs_lru_chain (rc_buckets ?F ! (?ks ! j))) = ?ks ! Suc j" if "Suc j < ?n" for j
  proof -
    have "?ks ! j = ?n - Suc j" "?ks ! Suc j = ?n - Suc j - 1" using that by (simp_all add: rev_nth)
    moreover have "0 < ?n - Suc j" "?n - Suc j < ?n" using that by simp_all
    ultimately show ?thesis by (simp add: b del: of_nat_diff)
  qed
  have l: "lru_order ?F ?ks" unfolding lru_order_def
  proof (intro conjI allI impI)
    show "unat (lru_head ?F) = hd ?ks" by (simp add: flush_rs_cache_def DWARF_UNW_CACHE_SIZE_def hd_rev)
    show "unat (lru_tail ?F) = last ?ks" by (simp add: flush_rs_cache_def last_rev DWARF_UNW_CACHE_SIZE_def)
    fix j assume "Suc j < length ?ks"
    then show "unat (rs_lru_chain (rc_buckets ?F ! (?ks ! j))) = ?ks ! Suc j" by (intro chain) simp
  qed (auto simp: flush_rs_cache_def)
  moreover have "hash_chains ?F []" by (auto simp: hash_chains_def flush_rs_cache_def intro!: exI [of _ "[]"])
  moreover have "\<forall>u\<in>set ?ks. rs_ip (rc_buckets ?F ! u) = 0 \<and> \<not> rs_valid (rc_buckets ?F ! u)" by (simp add: b)
  ultimately show ?thesis unfolding represents_def by (intro exI [of _ ?ks] exI [of _ "[]"]) simp
qed

text \<open>Changing members of an entry that the invariant does not mention.\<close>

lemma upd_bucket_same:
  "(\<And>b. f (g b) = f b) \<Longrightarrow> f (rc_buckets (upd_bucket i g C) ! v) = f (rc_buckets C ! v)"
  by (cases "i < length (rc_buckets C)"; cases "i = v") (auto simp: not_less list_update_beyond)

lemma represents_hint: "represents (upd_bucket i (\<lambda>b. b\<lparr>rs_hint := h\<rparr>) C) q = represents C q"
proof -
  define D where "D = upd_bucket i (\<lambda>b. b\<lparr>rs_hint := h\<rparr>) C"
  have sel: "rs_ip (rc_buckets D ! v) = rs_ip (rc_buckets C ! v)" "rs_valid (rc_buckets D ! v) = rs_valid (rc_buckets C ! v)"
    "rs_signal_frame (rc_buckets D ! v) = rs_signal_frame (rc_buckets C ! v)" "rs_reg (rc_buckets D ! v) = rs_reg (rc_buckets C ! v)"
    "rs_lru_chain (rc_buckets D ! v) = rs_lru_chain (rc_buckets C ! v)"
    "rs_coll_chain (rc_buckets D ! v) = rs_coll_chain (rc_buckets C ! v)"
    "rs_ret_addr_column (rc_buckets D ! v) = rs_ret_addr_column (rc_buckets C ! v)" for v
    unfolding D_def by (rule upd_bucket_same, simp)+
  have rest: "length (rc_buckets D) = length (rc_buckets C)" "rc_hash D = rc_hash C" "lru_head D = lru_head C"
    "lru_tail D = lru_tail C" by (simp_all add: D_def)
  have "coll_path (rc_buckets D) j xs = coll_path (rc_buckets C) j xs" for j xs by (rule coll_path_cong) (rule sel)
  moreover have "cached_entry D = cached_entry C" by (rule ext) (simp add: cached_entry_def Let_def sel)
  moreover have "lru_order D ks = lru_order C ks" for ks by (simp add: lru_order_def sel rest)
  ultimately show ?thesis unfolding D_def [symmetric] represents_def hash_chains_def by (simp add: sel rest)
qed

section \<open>Lookups\<close>

lemma cache_match_iff:
  assumes "lru_order C (us @ vs)" "hash_chains C vs" "\<forall>u\<in>set us. \<not> rs_valid (rc_buckets C ! u)" "k < DWARF_UNW_CACHE_SIZE"
  shows "cache_match (rc_buckets C ! k) ip \<longleftrightarrow> k \<in> set vs \<and> rs_ip (rc_buckets C ! k) = ip"
proof -
  have "k \<in> set us \<or> k \<in> set vs" using assms(1,4) by (auto simp: lru_order_def)
  then show ?thesis using assms(2,3) by (auto simp: cache_match_def hash_chains_def)
qed

lemma map_of_entries:
  assumes "hash_chains C vs" "q = map (cached_entry C) vs"
  shows "k \<in> set vs \<Longrightarrow> map_of q (rs_ip (rc_buckets C ! k)) = Some (snd (cached_entry C k))"
    "map_of q ip = None \<longleftrightarrow> (\<forall>k\<in>set vs. rs_ip (rc_buckets C ! k) \<noteq> ip)"
proof -
  have f: "map fst q = map (\<lambda>v. rs_ip (rc_buckets C ! v)) vs" by (simp add: assms(2) cached_entry_def Let_def)
  then have d: "distinct (map fst q)" using assms(1) by (simp only: hash_chains_def)
  show "map_of q (rs_ip (rc_buckets C ! k)) = Some (snd (cached_entry C k))" if "k \<in> set vs"
    using d that assms(2) by (intro map_of_is_SomeI) (auto simp: cached_entry_def Let_def image_iff)
  have "fst ` set q = (\<lambda>v. rs_ip (rc_buckets C ! v)) ` set vs" using f by (metis list.set_map)
  then show "map_of q ip = None \<longleftrightarrow> (\<forall>k\<in>set vs. rs_ip (rc_buckets C ! k) \<noteq> ip)"
    by (auto simp: map_of_eq_None_iff)
qed

text \<open>The chain of an address finds the entry.\<close>

lemma rs_find_chain:
  assumes "lru_order C (us @ vs)" "hash_chains C vs" "\<forall>u\<in>set us. \<not> rs_valid (rc_buckets C ! u)"
    "unat (rc_hash C ! rs_hash ip) < DWARF_UNW_HASH_SIZE" "DWARF_UNW_CACHE_SIZE \<le> fuel"
  shows "\<exists>r. rs_find fuel C ip (unat (rc_hash C ! rs_hash ip)) = Ok r \<and>
    (case r of Some k \<Rightarrow> k \<in> set vs \<and> rs_ip (rc_buckets C ! k) = ip
             | None \<Rightarrow> \<forall>k\<in>set vs. rs_ip (rc_buckets C ! k) \<noteq> ip)"
proof -
  obtain xs where xs: "coll_path (rc_buckets C) (rc_hash C ! rs_hash ip) xs" "distinct xs"
    "set xs = {v \<in> set vs. rs_hash (rs_ip (rc_buckets C ! v)) = rs_hash ip}"
    using assms(2) unfolding hash_chains_def by (meson rs_hash_range)
  have r: "set xs \<subseteq> {..<DWARF_UNW_CACHE_SIZE}" using coll_path_range [OF xs(1)] by auto
  then have "length xs \<le> fuel" using card_mono [OF _ r] assms(5) by (simp add: distinct_card [OF xs(2)])
  note f = rs_find_path [OF xs(1) assms(4) this, of ip]
  have m: "cache_match (rc_buckets C ! k) ip \<longleftrightarrow> rs_ip (rc_buckets C ! k) = ip" if "k \<in> set xs" for k
    using cache_match_iff [OF assms(1-3)] r xs(3) that by auto
  show ?thesis
  proof (cases "List.find (\<lambda>k. cache_match (rc_buckets C ! k) ip) xs")
    case None
    then have "\<forall>k\<in>set xs. rs_ip (rc_buckets C ! k) \<noteq> ip" using m by (auto simp: find_None_iff)
    then show ?thesis using f None xs(3) by auto
  next
    case (Some k)
    then have "k \<in> set xs" "cache_match (rc_buckets C ! k) ip" by (auto simp: find_Some_iff)
    then show ?thesis using f Some xs(3) m by auto
  qed
qed

lemma rs_lookup_represents:
  assumes "represents C q" "unat (c_hint c) < DWARF_UNW_CACHE_SIZE" "unat (c_prev_rs c) < DWARF_UNW_CACHE_SIZE"
    "DWARF_UNW_CACHE_SIZE \<le> fuel"
  shows "\<exists>r C' c'. rs_lookup fuel (C, c) = Ok (r, C', c') \<and> represents C' q \<and>
    unat (c_hint c') < DWARF_UNW_CACHE_SIZE \<and> c'\<lparr>c_hint := c_hint c\<rparr> = c \<and>
    (case r of None \<Rightarrow> map_of q (c_ip c) = None
             | Some i \<Rightarrow> i < DWARF_UNW_CACHE_SIZE \<and> map_of q (c_ip c) = Some (snd (cached_entry C' i)) \<and>
                 \<not> rs_signal_frame (rc_buckets C' ! i))"
proof -
  let ?ip = "c_ip c" and ?index = "rc_hash C ! rs_hash (c_ip c)"
  obtain us vs where v: "lru_order C (us @ vs)" "hash_chains C vs" "\<forall>u\<in>set us. \<not> rs_valid (rc_buckets C ! u)"
    "q = map (cached_entry C) vs" using assms(1) by (auto simp: represents_def)
  note mo = map_of_entries [OF v(2,4)]
  have c: "c\<lparr>c_hint := c_hint c\<rparr> = c" by (cases c) simp
  have vs: "k < DWARF_UNW_CACHE_SIZE" "\<not> rs_signal_frame (rc_buckets C ! k)" if "k \<in> set vs" for k
    using v(2) that by (auto simp: hash_chains_def)
  consider (hint) "cache_match (rc_buckets C ! unat (c_hint c)) ?ip"
    | (none) "\<not> cache_match (rc_buckets C ! unat (c_hint c)) ?ip" "unat ?index \<ge> DWARF_UNW_CACHE_SIZE"
    | (chain) "\<not> cache_match (rc_buckets C ! unat (c_hint c)) ?ip" "unat ?index < DWARF_UNW_CACHE_SIZE" by force
  then show ?thesis
  proof cases
    case hint
    then have "unat (c_hint c) \<in> set vs" "rs_ip (rc_buckets C ! unat (c_hint c)) = ?ip"
      using cache_match_iff [OF v(1-3) assms(2)] by auto
    moreover have "rs_lookup fuel (C, c) = Ok (Some (unat (c_hint c)), C, c)"
      using hint assms(2) by (simp add: rs_lookup_def Let_def)
    ultimately show ?thesis using mo(1) [of "unat (c_hint c)"] vs assms(1,2) c by simp
  next
    case none
    obtain xs where xs: "coll_path (rc_buckets C) ?index xs"
      "set xs = {v \<in> set vs. rs_hash (rs_ip (rc_buckets C ! v)) = rs_hash ?ip}"
      using v(2) unfolding hash_chains_def by (meson rs_hash_range)
    have "xs = []" using xs(1) none(2) by (cases xs) auto
    then have "map_of q ?ip = None" using xs(2) mo(2) by auto
    moreover have "rs_lookup fuel (C, c) = Ok (None, C, c)" using none assms(2) by (simp add: rs_lookup_def Let_def)
    ultimately show ?thesis using assms(1,2) c by simp
  next
    case chain
    then have "unat ?index < DWARF_UNW_HASH_SIZE" by (simp add: DWARF_UNW_CACHE_SIZE_def DWARF_UNW_HASH_SIZE_def)
    then obtain r where r: "rs_find fuel C ?ip (unat ?index) = Ok r"
      "case r of Some k \<Rightarrow> k \<in> set vs \<and> rs_ip (rc_buckets C ! k) = ?ip | None \<Rightarrow> \<forall>k\<in>set vs. rs_ip (rc_buckets C ! k) \<noteq> ?ip"
      using rs_find_chain [OF v(1-3) _ assms(4)] by blast
    show ?thesis
    proof (cases r)
      case None
      then have "rs_lookup fuel (C, c) = Ok (None, C, c)" using chain r(1) assms(2) by (simp add: rs_lookup_def Let_def)
      then show ?thesis using None r(2) mo(2) assms(1,2) c by simp
    next
      case (Some k)
      define D where "D = upd_bucket (unat (c_prev_rs c)) (\<lambda>b. b\<lparr>rs_hint := of_nat k\<rparr>) C"
      have k: "k \<in> set vs" "rs_ip (rc_buckets C ! k) = ?ip" using r(2) Some by auto
      have "rs_lookup fuel (C, c) = Ok (Some k, D, c\<lparr>c_hint := of_nat k\<rparr>)"
        using chain r(1) Some assms(2,3) by (simp add: rs_lookup_def D_def Let_def)
      moreover have "represents D q" using assms(1) unfolding D_def represents_hint .
      moreover have "cached_entry D k = cached_entry C k" "rs_signal_frame (rc_buckets D ! k) = rs_signal_frame (rc_buckets C ! k)"
        unfolding D_def cached_entry_def Let_def
        by (rule upd_bucket_same [where f = "\<lambda>b. (rs_ip b, rs_reg b, rs_ret_addr_column b)"], simp)
           (rule upd_bucket_same, simp)
      ultimately show ?thesis using mo(1) [OF k(1)] k vs [OF k(1)] c by simp
    qed
  qed
qed

section \<open>Replacement\<close>

definition key_fields :: "dwarf_reg_state_t \<Rightarrow> u64 \<times> bool \<times> bool" where
  "key_fields b = (rs_ip b, rs_valid b, rs_signal_frame b)"

lemma hash_chains_cong:
  assumes "rc_hash D = rc_hash C" "\<And>v. key_fields (rc_buckets D ! v) = key_fields (rc_buckets C ! v)"
    "\<And>v. rs_coll_chain (rc_buckets D ! v) = rs_coll_chain (rc_buckets C ! v)"
  shows "hash_chains D vs = hash_chains C vs"
proof -
  have "coll_path (rc_buckets D) i xs = coll_path (rc_buckets C) i xs" for i xs by (rule coll_path_cong) (rule assms)
  moreover have "rs_ip (rc_buckets D ! v) = rs_ip (rc_buckets C ! v)" "rs_valid (rc_buckets D ! v) = rs_valid (rc_buckets C ! v)"
    "rs_signal_frame (rc_buckets D ! v) = rs_signal_frame (rc_buckets C ! v)" for v
    using assms(2) [of v] by (simp_all add: key_fields_def)
  ultimately show ?thesis by (simp add: hash_chains_def assms(1))
qed

lemma lru_order_cong:
  assumes "length (rc_buckets D) = length (rc_buckets C)" "length (rc_hash D) = length (rc_hash C)"
    "lru_head D = lru_head C" "lru_tail D = lru_tail C" "\<And>v. rs_lru_chain (rc_buckets D ! v) = rs_lru_chain (rc_buckets C ! v)"
  shows "lru_order D ks = lru_order C ks"
  using assms by (simp add: lru_order_def)

lemma rs_rotate_order:
  assumes "lru_order C (k # ks)" "ks \<noteq> []"
  shows "\<exists>D. rs_rotate C = Ok (k, D) \<and> lru_order D (ks @ [k]) \<and> rc_hash D = rc_hash C \<and>
    (\<forall>v. key_fields (rc_buckets D ! v) = key_fields (rc_buckets C ! v) \<and> cached_entry D v = cached_entry C v \<and>
         rs_coll_chain (rc_buckets D ! v) = rs_coll_chain (rc_buckets C ! v))"
proof -
  let ?b = "rc_buckets C"
  have o: "length ?b = DWARF_UNW_CACHE_SIZE" "distinct (k # ks)" "set (k # ks) = {..<DWARF_UNW_CACHE_SIZE}"
    "unat (lru_head C) = k" "unat (lru_tail C) = last ks"
    "\<And>j. Suc j < length (k # ks) \<Longrightarrow> unat (rs_lru_chain (?b ! ((k # ks) ! j))) = (k # ks) ! Suc j"
    using assms(1) [unfolded lru_order_def] assms(2) by (blast, blast, blast, simp, simp, blast)
  have "k \<in> set (k # ks)" "last ks \<in> set (k # ks)" using assms(2) by simp_all
  then have r: "k < DWARF_UNW_CACHE_SIZE" "last ks < DWARF_UNW_CACHE_SIZE" unfolding o(3) by simp_all
  define D where "D = upd_bucket (last ks) (\<lambda>b. b\<lparr>rs_lru_chain := lru_head C\<rparr>)
    (C\<lparr>lru_head := rs_lru_chain (?b ! k), lru_tail := lru_head C\<rparr>)"
  have e: "rs_rotate C = Ok (k, D)" using o(4,5) r by (simp add: rs_rotate_def D_def Let_def)
  have "unat (rs_lru_chain (rc_buckets D ! ((ks @ [k]) ! j))) = (ks @ [k]) ! Suc j" if j: "Suc j < length (ks @ [k])" for j
  proof (cases "Suc j < length ks")
    case True
    then have "ks ! j \<noteq> last ks"
      using o(2) assms(2) nth_eq_iff_index_eq [of ks j "length ks - 1"] by (simp add: last_conv_nth)
    then show ?thesis using True o(6) [of "Suc j"] by (simp add: D_def nth_append)
  next
    case False
    then have "length ks = Suc j" using j by simp
    then have "ks ! j = last ks" "(ks @ [k]) ! Suc j = k" using assms(2) by (simp_all add: last_conv_nth nth_append)
    then show ?thesis using \<open>length ks = Suc j\<close> o(1,4) r(2) by (simp add: D_def nth_append)
  qed
  moreover have "unat (lru_head D) = hd ks" using o(6) [of 0] assms(2) by (simp add: D_def hd_conv_nth)
  moreover have "length (rc_hash C) = DWARF_UNW_HASH_SIZE" using assms(1) by (simp add: lru_order_def)
  ultimately have "lru_order D (ks @ [k])"
    using o(1,2,4) o(3) [symmetric] assms(2) unfolding lru_order_def by (simp add: D_def)
  moreover have "key_fields (rc_buckets D ! v) = key_fields (?b ! v)" "cached_entry D v = cached_entry C v"
    "rs_coll_chain (rc_buckets D ! v) = rs_coll_chain (?b ! v)" for v
    unfolding cached_entry_def Let_def D_def
    using upd_bucket_same [of key_fields "\<lambda>b. b\<lparr>rs_lru_chain := lru_head C\<rparr>" C "last ks" v]
      upd_bucket_same [of "\<lambda>b. (rs_ip b, rs_reg b, rs_ret_addr_column b)" "\<lambda>b. b\<lparr>rs_lru_chain := lru_head C\<rparr>" C "last ks" v]
      upd_bucket_same [of rs_coll_chain "\<lambda>b. b\<lparr>rs_lru_chain := lru_head C\<rparr>" C "last ks" v]
    by (simp_all add: key_fields_def)
  ultimately show ?thesis using e by (auto simp: D_def)
qed

text \<open>Taking the oldest entry out of its chain.\<close>

lemma rs_unlink_chains:
  assumes "lru_order C ks" "hash_chains C (k # vs)" "ip = rs_ip (rc_buckets C ! k)" "DWARF_UNW_CACHE_SIZE \<le> fuel"
  shows "\<exists>D. rs_unlink fuel k (rs_hash ip) None (unat (rc_hash C ! rs_hash ip)) C = Ok D \<and>
    lru_order D ks \<and> hash_chains D vs \<and>
    (\<forall>v. key_fields (rc_buckets D ! v) = key_fields (rc_buckets C ! v) \<and> cached_entry D v = cached_entry C v)"
proof -
  let ?h = "rs_hash ip" and ?b = "rc_buckets C"
  have len: "length ?b = DWARF_UNW_CACHE_SIZE" "length (rc_hash C) = DWARF_UNW_HASH_SIZE"
    using assms(1) by (simp_all add: lru_order_def)
  have hc: "distinct (map (\<lambda>v. rs_ip (?b ! v)) (k # vs))"
    "\<And>h. h < DWARF_UNW_HASH_SIZE \<Longrightarrow> \<exists>xs. coll_path ?b (rc_hash C ! h) xs \<and> distinct xs \<and>
        set xs = {v \<in> set (k # vs). rs_hash (rs_ip (?b ! v)) = h}"
    using assms(2) unfolding hash_chains_def by blast+
  obtain zs where zs: "coll_path ?b (rc_hash C ! ?h) zs" "distinct zs"
    "set zs = {v \<in> set (k # vs). rs_hash (rs_ip (?b ! v)) = ?h}" using hc(2) [OF rs_hash_range] by blast
  then have "k \<in> set zs" using assms(3) by simp
  then obtain xs ys where xy: "zs = xs @ k # ys" by (meson split_list)
  have rng: "set zs \<subseteq> {..<DWARF_UNW_CACHE_SIZE}" using coll_path_range [OF zs(1)] by auto
  then have "length zs \<le> fuel" using card_mono [OF _ rng] assms(4) by (simp add: distinct_card [OF zs(2)])
  then have f: "length xs < fuel" "k \<notin> set xs" using xy zs(2) by auto
  define D where "D = (if xs = [] then C\<lparr>rc_hash := (rc_hash C)[?h := rs_coll_chain (?b ! k)]\<rparr>
    else upd_bucket (last xs) (\<lambda>b. b\<lparr>rs_coll_chain := rs_coll_chain (?b ! k)\<rparr>) C)"
  have e: "rs_unlink fuel k ?h None (unat (rc_hash C ! ?h)) C = Ok D"
    using rs_unlink_path [OF zs(1) [unfolded xy] f(2,1), of ?h None] by (simp add: D_def)
  have same: "key_fields (rc_buckets D ! v) = key_fields (?b ! v)" "cached_entry D v = cached_entry C v"
    "rs_lru_chain (rc_buckets D ! v) = rs_lru_chain (?b ! v)" for v
    unfolding cached_entry_def Let_def D_def if_distrib [of rc_buckets]
    using upd_bucket_same [of key_fields "\<lambda>b. b\<lparr>rs_coll_chain := rs_coll_chain (?b ! k)\<rparr>" C "last xs" v]
      upd_bucket_same [of "\<lambda>b. (rs_ip b, rs_reg b, rs_ret_addr_column b)" "\<lambda>b. b\<lparr>rs_coll_chain := rs_coll_chain (?b ! k)\<rparr>" C "last xs" v]
      upd_bucket_same [of rs_lru_chain "\<lambda>b. b\<lparr>rs_coll_chain := rs_coll_chain (?b ! k)\<rparr>" C "last xs" v]
    by (simp_all add: key_fields_def)
  have keys: "rs_ip (rc_buckets D ! v) = rs_ip (?b ! v)" "rs_valid (rc_buckets D ! v) = rs_valid (?b ! v)"
    "rs_signal_frame (rc_buckets D ! v) = rs_signal_frame (?b ! v)" for v using same(1) [of v] by (simp_all add: key_fields_def)
  have path: "\<exists>ws. coll_path (rc_buckets D) (rc_hash D ! h) ws \<and> distinct ws \<and>
      set ws = {v \<in> set vs. rs_hash (rs_ip (?b ! v)) = h}" if h: "h < DWARF_UNW_HASH_SIZE" for h
  proof (cases "h = ?h")
    case True
    have "coll_path (rc_buckets D) (rc_hash D ! ?h) (xs @ ys)"
    proof (cases "xs = []")
      case True
      then show ?thesis using zs(1) xy len(2) by (simp add: D_def)
    next
      case False
      then show ?thesis
        using coll_path_remove [OF zs(1) [unfolded xy] zs(2) [unfolded xy] False] rng xy len(1) by (auto simp: D_def)
    qed
    moreover have "k \<notin> set vs" using hc(1) by auto
    then have "set (xs @ ys) = {v \<in> set vs. rs_hash (rs_ip (?b ! v)) = ?h}" using zs(2,3) xy by auto
    moreover have "distinct (xs @ ys)" using zs(2) xy by auto
    ultimately show ?thesis using True by blast
  next
    case False
    obtain ws where ws: "coll_path ?b (rc_hash C ! h) ws" "distinct ws"
      "set ws = {v \<in> set (k # vs). rs_hash (rs_ip (?b ! v)) = h}" using hc(2) [OF h] by blast
    have "last xs \<notin> set ws" if "xs \<noteq> []"
    proof -
      have "last xs \<in> set zs" using that xy by simp
      then show ?thesis using zs(3) ws(3) False by auto
    qed
    then have "coll_path (rc_buckets D) (rc_hash D ! h) ws" using ws(1) False by (simp add: D_def)
    moreover have "set ws = {v \<in> set vs. rs_hash (rs_ip (?b ! v)) = h}" using ws(3) False assms(3) by auto
    ultimately show ?thesis using ws(2) by blast
  qed
  have "hash_chains D vs"
    using hc(1) assms(2) path unfolding hash_chains_def keys by simp
  moreover have "lru_order D ks = lru_order C ks" by (rule lru_order_cong) (simp_all add: same(3), simp_all add: D_def)
  ultimately show ?thesis using e same(1,2) assms(1) by blast
qed

text \<open>Entering an address into a free entry.\<close>

lemma rs_enter_simps:
  assumes "k < length (rc_buckets C)"
  shows "rc_buckets (rs_enter k c C) = (rc_buckets C)[k := (rc_buckets C ! k)\<lparr>rs_coll_chain := rc_hash C ! rs_hash (c_ip c),
      rs_hint := 0, rs_ip := c_ip c, rs_valid := True, rs_ret_addr_column := c_ret_addr_column c, rs_signal_frame := False\<rparr>]"
    "rc_hash (rs_enter k c C) = (rc_hash C)[rs_hash (c_ip c) := of_nat k]"
    "lru_head (rs_enter k c C) = lru_head C" "lru_tail (rs_enter k c C) = lru_tail C"
  using assms by (simp_all add: rs_enter_def Let_def)

lemma rs_enter_chains:
  assumes "lru_order C ks" "hash_chains C vs" "k < DWARF_UNW_CACHE_SIZE" "k \<notin> set vs" "c_ip c \<noteq> 0"
    "\<forall>v\<in>set vs. rs_ip (rc_buckets C ! v) \<noteq> c_ip c"
  shows "lru_order (rs_enter k c C) ks" "hash_chains (rs_enter k c C) (vs @ [k])"
proof -
  let ?D = "rs_enter k c C" and ?b = "rc_buckets C" and ?h = "rs_hash (c_ip c)"
  have len: "length ?b = DWARF_UNW_CACHE_SIZE" "length (rc_hash C) = DWARF_UNW_HASH_SIZE"
    using assms(1) by (simp_all add: lru_order_def)
  note D = rs_enter_simps [of k C c, unfolded len(1), OF assms(3)]
  have k: "rs_ip (rc_buckets ?D ! k) = c_ip c" "rs_valid (rc_buckets ?D ! k)" "\<not> rs_signal_frame (rc_buckets ?D ! k)"
    "rs_coll_chain (rc_buckets ?D ! k) = rc_hash C ! ?h" "rs_lru_chain (rc_buckets ?D ! k) = rs_lru_chain (?b ! k)"
    using assms(3) len(1) by (simp_all add: D)
  have other: "rc_buckets ?D ! v = ?b ! v" if "v \<noteq> k" for v using that by (simp add: D)
  have vs: "rc_buckets ?D ! v = ?b ! v" if "v \<in> set vs" for v by (rule other) (use that assms(4) in blast)
  have "rs_lru_chain (rc_buckets ?D ! v) = rs_lru_chain (?b ! v)" for v using k(5) other [of v] by (cases "v = k") simp_all
  then have "lru_order ?D ks = lru_order C ks"
    by (intro lru_order_cong) (simp_all only: D(2-4) length_list_update, simp only: D(1) length_list_update)
  then show "lru_order ?D ks" using assms(1) by simp
  have path: "\<exists>xs. coll_path (rc_buckets ?D) (rc_hash ?D ! h) xs \<and> distinct xs \<and>
      set xs = {v \<in> set (vs @ [k]). rs_hash (rs_ip (rc_buckets ?D ! v)) = h}" if h: "h < DWARF_UNW_HASH_SIZE" for h
  proof -
    obtain xs where xs: "coll_path ?b (rc_hash C ! h) xs" "distinct xs" "set xs = {v \<in> set vs. rs_hash (rs_ip (?b ! v)) = h}"
      using assms(2) h unfolding hash_chains_def by blast
    then have n: "k \<notin> set xs" using assms(4) by auto
    then have p: "coll_path (rc_buckets ?D) (rc_hash C ! h) xs" using xs(1) by (simp add: D)
    have s: "{v \<in> set vs. rs_hash (rs_ip (rc_buckets ?D ! v)) = h} = set xs" using xs(3) vs by auto
    have u: "{v \<in> set (vs @ [k]). P v} = (if P k then insert k {v \<in> set vs. P v} else {v \<in> set vs. P v})" for P by auto
    show ?thesis
    proof (cases "h = ?h")
      case True
      then have "coll_path (rc_buckets ?D) (rc_hash ?D ! h) (k # xs)" using p k(4) len(2) assms(3) by (simp add: D(2))
      moreover have "set (k # xs) = {v \<in> set (vs @ [k]). rs_hash (rs_ip (rc_buckets ?D ! v)) = h}"
        unfolding u s using True k(1) by simp
      ultimately show ?thesis using xs(2) n by (intro exI [of _ "k # xs"]) simp
    next
      case False
      then have "coll_path (rc_buckets ?D) (rc_hash ?D ! h) xs" using p by (simp add: D(2))
      moreover have "set xs = {v \<in> set (vs @ [k]). rs_hash (rs_ip (rc_buckets ?D ! v)) = h}"
        unfolding u s using False k(1) by simp
      ultimately show ?thesis using xs(2) by blast
    qed
  qed
  have ips: "map (\<lambda>v. rs_ip (rc_buckets ?D ! v)) (vs @ [k]) = map (\<lambda>v. rs_ip (?b ! v)) vs @ [c_ip c]"
    using vs k(1) by simp
  have d: "distinct (map (\<lambda>v. rs_ip (rc_buckets ?D ! v)) (vs @ [k]))"
    using assms(2,6) unfolding ips hash_chains_def by auto
  have "\<forall>v\<in>set (vs @ [k]). v < DWARF_UNW_CACHE_SIZE \<and> rs_valid (rc_buckets ?D ! v) \<and> rs_ip (rc_buckets ?D ! v) \<noteq> 0 \<and>
      \<not> rs_signal_frame (rc_buckets ?D ! v)"
  proof
    fix v assume "v \<in> set (vs @ [k])"
    then show "v < DWARF_UNW_CACHE_SIZE \<and> rs_valid (rc_buckets ?D ! v) \<and> rs_ip (rc_buckets ?D ! v) \<noteq> 0 \<and>
        \<not> rs_signal_frame (rc_buckets ?D ! v)"
      using assms(2,3,5) k(1-3) other [of v] by (cases "v = k") (simp_all add: hash_chains_def)
  qed
  then show "hash_chains ?D (vs @ [k])" using d path unfolding hash_chains_def by blast
qed

text \<open>The queue after an insertion: the oldest entry makes room.\<close>

definition fifo_insert :: "nat \<Rightarrow> 'a list \<Rightarrow> 'a \<Rightarrow> 'a list" where
  "fifo_insert n q e = (if length q < n then q else tl q) @ [e]"


lemma rs_new_represents:
  assumes "represents C q" "map_of q (c_ip c) = None" "c_ip c \<noteq> 0" "DWARF_UNW_CACHE_SIZE \<le> fuel"
  shows "\<exists>k D us vs. rs_new fuel (C, c) = Ok (k, D) \<and> k < DWARF_UNW_CACHE_SIZE \<and> lru_order D (us @ vs @ [k]) \<and>
    hash_chains D (vs @ [k]) \<and> (\<forall>u\<in>set us. rs_ip (rc_buckets D ! u) = 0 \<and> \<not> rs_valid (rc_buckets D ! u)) \<and>
    map (cached_entry D) vs = (if length q < DWARF_UNW_CACHE_SIZE then q else tl q) \<and>
    rs_ret_addr_column (rc_buckets D ! k) = c_ret_addr_column c \<and> rs_ip (rc_buckets D ! k) = c_ip c"
proof -
  let ?n = DWARF_UNW_CACHE_SIZE
  obtain us vs where v: "lru_order C (us @ vs)" "hash_chains C vs"
    "\<forall>u\<in>set us. rs_ip (rc_buckets C ! u) = 0 \<and> \<not> rs_valid (rc_buckets C ! u)" "q = map (cached_entry C) vs"
    using assms(1) by (auto simp: represents_def)
  have len: "length (us @ vs) = ?n" by (rule lru_order_length [OF v(1)])
  then obtain k ks where ks: "us @ vs = k # ks" "ks \<noteq> []"
    by (metis DWARF_UNW_CACHE_SIZE_def length_Cons length_greater_0_conv list.exhaust list.size(3) numeral_eq_one_iff
        One_nat_def semiring_norm(85) zero_less_numeral)
  define us' where "us' = (if us = [] then [] else tl us)"
  define vs' where "vs' = (if us = [] then tl vs else vs)"
  have split: "ks = us' @ vs'" "us = [] \<Longrightarrow> vs = k # vs'" "us \<noteq> [] \<Longrightarrow> us = k # us' \<and> vs' = vs"
    using ks(1) by (cases us; auto simp: us'_def vs'_def)+
  have dis: "distinct (k # us' @ vs')" "set (k # us' @ vs') = {..<?n}"
    using v(1) ks(1) split(1) unfolding lru_order_def by auto
  have kn: "k < ?n" using dis(2) by auto
  obtain D where D: "rs_rotate C = Ok (k, D)" "lru_order D (ks @ [k])" "rc_hash D = rc_hash C"
    "\<And>v. key_fields (rc_buckets D ! v) = key_fields (rc_buckets C ! v)" "\<And>v. cached_entry D v = cached_entry C v"
    "\<And>v. rs_coll_chain (rc_buckets D ! v) = rs_coll_chain (rc_buckets C ! v)"
    using rs_rotate_order [of C k ks] v(1) ks by auto
  have hcD: "hash_chains D vs" using hash_chains_cong [OF D(3,4,6)] v(2) by blast
  have ipD: "rs_ip (rc_buckets D ! v) = rs_ip (rc_buckets C ! v)" for v using D(4) [of v] by (simp add: key_fields_def)
  let ?ip = "rs_ip (rc_buckets D ! k)"
  obtain E where E: "(if ?ip \<noteq> 0 then rs_unlink fuel k (rs_hash ?ip) None (unat (rc_hash D ! rs_hash ?ip)) D else Ok D) = Ok E"
    "lru_order E (ks @ [k])" "hash_chains E vs'" "\<And>v. key_fields (rc_buckets E ! v) = key_fields (rc_buckets C ! v)"
    "\<And>v. cached_entry E v = cached_entry C v"
  proof (cases "us = []")
    case True
    then have "?ip \<noteq> 0" using hcD split(2) by (simp add: hash_chains_def)
    then show ?thesis
      using rs_unlink_chains [OF D(2) _ refl assms(4), of k vs'] hcD split(2) [OF True] D(4,5) that by auto
  next
    case False
    then have "?ip = 0" using v(3) split(3) ipD by auto
    then show ?thesis using that [of D] D hcD split(3) [OF False] by simp
  qed
  let ?F = "rs_enter k c E"
  have lenE: "length (rc_buckets E) = ?n" using E(2) by (simp add: lru_order_def)
  note F = rs_enter_simps [of k E c, unfolded lenE, OF kn]
  have ipE: "rs_ip (rc_buckets E ! v) = rs_ip (rc_buckets C ! v)" "rs_valid (rc_buckets E ! v) = rs_valid (rc_buckets C ! v)" for v
    using E(4) [of v] by (simp_all add: key_fields_def)
  have "\<forall>v\<in>set vs. rs_ip (rc_buckets C ! v) \<noteq> c_ip c" using map_of_entries(2) [OF v(2,4)] assms(2) by simp
  then have "\<forall>v\<in>set vs'. rs_ip (rc_buckets E ! v) \<noteq> c_ip c"
    using split(2,3) ipE(1) by (cases "us = []") auto
  then have ent: "lru_order ?F (ks @ [k])" "hash_chains ?F (vs' @ [k])"
    using rs_enter_chains [OF E(2,3) kn _ assms(3)] dis(1) by auto
  have keep: "rc_buckets ?F ! v = rc_buckets E ! v" if "v \<in> set (us' @ vs')" for v
  proof -
    have "v \<noteq> k" using dis(1) that by auto
    then show ?thesis by (simp add: F(1))
  qed
  have "map (cached_entry ?F) vs' = map (cached_entry C) vs'" using keep E(5) by (auto simp: cached_entry_def)
  moreover have "map (cached_entry C) vs' = (if length q < ?n then q else tl q)"
    using split(2,3) len v(4) by (cases "us = []") auto
  moreover have "\<forall>u\<in>set us'. rs_ip (rc_buckets ?F ! u) = 0 \<and> \<not> rs_valid (rc_buckets ?F ! u)"
  proof
    fix u assume u: "u \<in> set us'"
    then have "u \<in> set us" unfolding us'_def by (metis empty_iff empty_set list.set_sel(2))
    then show "rs_ip (rc_buckets ?F ! u) = 0 \<and> \<not> rs_valid (rc_buckets ?F ! u)" using v(3) keep [of u] ipE u by simp
  qed
  moreover have "rs_new fuel (C, c) = Ok (k, ?F)" using D(1) E(1) by (auto simp: rs_new_def Let_def)
  moreover have "rs_ret_addr_column (rc_buckets ?F ! k) = c_ret_addr_column c" "rs_ip (rc_buckets ?F ! k) = c_ip c"
    using kn lenE by (simp_all add: F(1))
  ultimately show ?thesis using kn ent split(1) by (intro exI [of _ k] exI [of _ ?F] exI [of _ us'] exI [of _ vs']) simp
qed


lemma cache_store_represents:
  assumes "represents C q" "map_of q (c_ip c) = None" "c_ip c \<noteq> 0" "unat (c_prev_rs c) < DWARF_UNW_CACHE_SIZE"
    "DWARF_UNW_CACHE_SIZE \<le> fuel"
  shows "\<exists>i D h. cache_store fuel sr (C, c) = Ok (i, D, c\<lparr>c_hint := h, c_prev_rs := of_nat i\<rparr>) \<and>
    unat h < DWARF_UNW_CACHE_SIZE \<and> i < DWARF_UNW_CACHE_SIZE \<and>
    represents D (fifo_insert DWARF_UNW_CACHE_SIZE q (c_ip c, rs_reg (rs_current sr), c_ret_addr_column c)) \<and>
    cached_entry D i = (c_ip c, rs_reg (rs_current sr), c_ret_addr_column c)"
proof -
  let ?n = DWARF_UNW_CACHE_SIZE
  obtain k D us vs where D: "rs_new fuel (C, c) = Ok (k, D)" "k < ?n" "lru_order D (us @ vs @ [k])" "hash_chains D (vs @ [k])"
    "\<forall>u\<in>set us. rs_ip (rc_buckets D ! u) = 0 \<and> \<not> rs_valid (rc_buckets D ! u)"
    "map (cached_entry D) vs = (if length q < ?n then q else tl q)"
    "rs_ret_addr_column (rc_buckets D ! k) = c_ret_addr_column c" "rs_ip (rc_buckets D ! k) = c_ip c"
    using rs_new_represents [OF assms(1-3,5)] by blast
  define E where "E = upd_bucket k (\<lambda>b. b\<lparr>rs_reg := rs_reg (rs_current sr)\<rparr>) D"
  have lenD: "length (rc_buckets D) = ?n" "k \<notin> set vs" using D(3) by (auto simp: lru_order_def)
  have key: "key_fields (rc_buckets E ! v) = key_fields (rc_buckets D ! v)"
    "rs_coll_chain (rc_buckets E ! v) = rs_coll_chain (rc_buckets D ! v)"
    "rs_lru_chain (rc_buckets E ! v) = rs_lru_chain (rc_buckets D ! v)" for v
    unfolding E_def key_fields_def by (rule upd_bucket_same, simp)+
  have rest: "rc_hash E = rc_hash D" "length (rc_buckets E) = length (rc_buckets D)" "lru_head E = lru_head D" "lru_tail E = lru_tail D"
    by (simp_all add: E_def)
  have "hash_chains E (vs @ [k])" using D(4) hash_chains_cong [OF rest(1) key(1,2)] by simp
  moreover have "lru_order E (us @ vs @ [k])"
    using D(3) lru_order_cong [OF rest(2) arg_cong [OF rest(1), of length] rest(3,4) key(3)] by simp
  moreover have "\<forall>u\<in>set us. rs_ip (rc_buckets E ! u) = 0 \<and> \<not> rs_valid (rc_buckets E ! u)"
    using D(5) key(1) by (simp add: key_fields_def)
  moreover have k: "cached_entry E k = (c_ip c, rs_reg (rs_current sr), c_ret_addr_column c)"
    using D(2,7,8) lenD(1) by (simp add: cached_entry_def E_def Let_def)
  moreover have "map (cached_entry E) vs = map (cached_entry D) vs"
  proof (rule map_cong [OF refl])
    fix v assume "v \<in> set vs"
    then have "v \<noteq> k" using lenD(2) by blast
    then show "cached_entry E v = cached_entry D v" by (simp add: cached_entry_def E_def)
  qed
  ultimately have rE: "represents E (fifo_insert ?n q (c_ip c, rs_reg (rs_current sr), c_ret_addr_column c))"
    unfolding represents_def fifo_insert_def using D(6) by (intro exI [of _ us] exI [of _ "vs @ [k]"]) simp
  define F where "F = upd_bucket (unat (c_prev_rs c)) (\<lambda>b. b\<lparr>rs_hint := of_nat k\<rparr>) E"
  have lenE: "length (rc_buckets E) = ?n" using lenD(1) rest(2) by simp
  have "rs_hint (rc_buckets E ! k) = 0"
    using D(1) lenD(1) D(2) by (auto simp: E_def rs_new_def rs_enter_def Let_def)
  then have "unat (rs_hint (rc_buckets F ! k)) < ?n"
    using D(2) lenE assms(4) by (cases "unat (c_prev_rs c) = k") (simp_all add: F_def)
  moreover have "cache_store fuel sr (C, c) = Ok (k, F, c\<lparr>c_hint := rs_hint (rc_buckets F ! k), c_prev_rs := of_nat k\<rparr>)"
    using D(1) assms(4) by (simp add: cache_store_def Let_def F_def E_def)
  moreover have "represents F (fifo_insert ?n q (c_ip c, rs_reg (rs_current sr), c_ret_addr_column c))"
    using rE unfolding F_def represents_hint .
  moreover have "cached_entry F k = cached_entry E k"
    unfolding F_def cached_entry_def Let_def
    by (rule upd_bucket_same [where f = "\<lambda>b. (rs_ip b, rs_reg b, rs_ret_addr_column b)"]) simp
  ultimately show ?thesis using k D(2) by metis
qed

section \<open>The contract of the cache\<close>

text \<open>A request looks a key up and stores the computed value when it is missing.\<close>

definition request ::
  "('k \<Rightarrow> 's \<Rightarrow> 'v option \<times> 's) \<Rightarrow> ('k \<Rightarrow> 'v \<Rightarrow> 's \<Rightarrow> 's) \<Rightarrow> ('k \<Rightarrow> 'v) \<Rightarrow> 'k \<Rightarrow> 's \<Rightarrow> 'v \<times> 's" where
  "request look store f k s = (case look k s of (Some v, s) \<Rightarrow> (v, s) | (None, s) \<Rightarrow> (f k, store k (f k) s))"

primrec requests ::
  "('k \<Rightarrow> 's \<Rightarrow> 'v option \<times> 's) \<Rightarrow> ('k \<Rightarrow> 'v \<Rightarrow> 's \<Rightarrow> 's) \<Rightarrow> ('k \<Rightarrow> 'v) \<Rightarrow> 'k list \<Rightarrow> 's \<Rightarrow> 'v list \<times> 's" where
  "requests look store f [] s = ([], s)"
| "requests look store f (k # ks) s =
     (let (v, s) = request look store f k s; (vs, s) = requests look store f ks s in (v # vs, s))"

locale fifo_cache =
  fixes holds :: "'s \<Rightarrow> ('k \<times> 'v) list \<Rightarrow> bool"
    and look :: "'k \<Rightarrow> 's \<Rightarrow> 'v option \<times> 's"
    and store :: "'k \<Rightarrow> 'v \<Rightarrow> 's \<Rightarrow> 's"
    and ok :: "'k \<Rightarrow> bool"
    and n :: nat
  assumes look_holds: "holds s q \<Longrightarrow> \<exists>s'. look k s = (map_of q k, s') \<and> holds s' q"
    and store_holds: "holds s q \<Longrightarrow> ok k \<Longrightarrow> map_of q k = None \<Longrightarrow> holds (store k v s) (fifo_insert n q (k, v))"
    and holds_distinct: "holds s q \<Longrightarrow> distinct (map fst q)"
    and holds_length: "holds s q \<Longrightarrow> length q \<le> n"
begin

lemma request_holds:
  assumes "holds s q" "ok k" "\<forall>(k, v)\<in>set q. v = f k"
  shows "\<exists>s' q'. request look store f k s = (f k, s') \<and> holds s' q' \<and> (\<forall>(k, v)\<in>set q'. v = f k) \<and>
    q' = (if map_of q k = None then fifo_insert n q (k, f k) else q)"
proof -
  obtain s' where s': "look k s = (map_of q k, s')" "holds s' q" using look_holds [OF assms(1)] by blast
  show ?thesis
  proof (cases "map_of q k")
    case None
    have "set (tl q) \<subseteq> set q" by (cases q) auto
    then have "\<forall>(k, v)\<in>set (fifo_insert n q (k, f k)). v = f k" using assms(3) by (auto simp: fifo_insert_def)
    then show ?thesis using s' None store_holds [OF s'(2) assms(2) None, of "f k"] by (auto simp: request_def)
  next
    case (Some v)
    then have "v = f k" using assms(3) map_of_SomeD [OF Some] by auto
    then show ?thesis using s' Some assms(3) by (auto simp: request_def)
  qed
qed

text \<open>The answers are those of the computation, whatever is in the cache.\<close>

lemma requests_transparent:
  assumes "holds s q" "\<forall>k\<in>set ks. ok k" "\<forall>(k, v)\<in>set q. v = f k"
  shows "\<exists>s' q'. requests look store f ks s = (map f ks, s') \<and> holds s' q' \<and> (\<forall>(k, v)\<in>set q'. v = f k)"
  using assms
proof (induction ks arbitrary: s q)
  case (Cons k ks)
  obtain s1 q1 where "request look store f k s = (f k, s1)" "holds s1 q1" "\<forall>(k, v)\<in>set q1. v = f k"
    using request_holds [OF Cons.prems(1) _ Cons.prems(3), of k] Cons.prems(2) by auto
  then show ?case using Cons.IH [of s1 q1] Cons.prems(2) by auto
qed auto

text \<open>A stored key stays for as many further requests as the capacity allows, hit or miss.\<close>

lemma requests_keep:
  assumes "holds s (xs @ (k, v) # ys)" "\<forall>j\<in>set ks. ok j" "length ys + length ks < n" "\<forall>(k, v)\<in>set (xs @ (k, v) # ys). v = f k"
  shows "\<exists>xs' ys'. holds (snd (requests look store f ks s)) (xs' @ (k, v) # ys')"
  using assms
proof (induction ks arbitrary: s xs ys)
  case (Cons j ks)
  let ?q = "xs @ (k, v) # ys"
  obtain s1 q1 where s1: "request look store f j s = (f j, s1)" "holds s1 q1" "\<forall>(k, v)\<in>set q1. v = f k"
    "q1 = (if map_of ?q j = None then fifo_insert n ?q (j, f j) else ?q)"
    using request_holds [OF Cons.prems(1) _ Cons.prems(4), of j] Cons.prems(2) by auto
  obtain xs1 ys1 where q1: "q1 = xs1 @ (k, v) # ys1" "length ys1 \<le> Suc (length ys)"
  proof (cases "map_of ?q j = None")
    case True
    have "length ?q \<le> n" by (rule holds_length [OF Cons.prems(1)])
    then have "xs \<noteq> []" if "\<not> length ?q < n" using that Cons.prems(3) by auto
    then have "q1 = (if length ?q < n then xs else tl xs) @ (k, v) # ys @ [(j, f j)]"
      using s1(4) True by (simp add: fifo_insert_def del: length_append)
    then show ?thesis using that by fastforce
  next
    case False
    then have "q1 = ?q" using s1(4) by (simp only: if_False)
    then show ?thesis using that [of xs ys] by simp
  qed
  then have "\<exists>xs' ys'. holds (snd (requests look store f ks s1)) (xs' @ (k, v) # ys')"
    using s1(2,3) Cons.prems(2,3) by (intro Cons.IH [of s1 xs1 ys1]) auto
  then show ?case using s1(1) by (simp add: split_beta Let_def)
qed auto

lemma stored_key_found:
  assumes "holds s q" "ok k" "map_of q k = None" "\<forall>j\<in>set ks. ok j" "length ks < n" "\<forall>(k, v)\<in>set q. v = f k"
  shows "fst (look k (snd (requests look store f (k # ks) s))) = Some (f k)"
proof -
  let ?q = "if length q < n then q else tl q"
  obtain s1 where s1: "request look store f k s = (f k, s1)" "holds s1 (?q @ (k, f k) # [])" "\<forall>(k, v)\<in>set (?q @ (k, f k) # []). v = f k"
    using request_holds [OF assms(1,2,6)] assms(3) by (auto simp: fifo_insert_def)
  obtain xs ys where h: "holds (snd (requests look store f ks s1)) (xs @ (k, f k) # ys)"
    using requests_keep [OF s1(2) assms(4) _ s1(3)] assms(5) by auto
  obtain s2 where s2: "look k (snd (requests look store f ks s1)) = (map_of (xs @ (k, f k) # ys) k, s2)"
    using look_holds [OF h] by blast
  have "map_of (xs @ (k, f k) # ys) k = Some (f k)"
    by (rule map_of_is_SomeI) (use holds_distinct [OF h] in simp_all)
  then show ?thesis using s1(1) s2 by (simp add: split_beta Let_def)
qed

end

text \<open>The cache of the code, with the address of the cursor set for each operation.\<close>

definition rc_holds :: "dwarf_rs_cache \<times> cursor \<Rightarrow> (u64 \<times> cached_rules) list \<Rightarrow> bool" where
  "rc_holds = (\<lambda>(C, c) q. represents C q \<and> unat (c_hint c) < DWARF_UNW_CACHE_SIZE \<and>
     unat (c_prev_rs c) < DWARF_UNW_CACHE_SIZE)"

definition rc_look :: "u64 \<Rightarrow> dwarf_rs_cache \<times> cursor \<Rightarrow> cached_rules option \<times> dwarf_rs_cache \<times> cursor" where
  "rc_look ip = (\<lambda>(C, c).
     case rs_lookup DWARF_UNW_CACHE_SIZE (C, c\<lparr>c_ip := ip\<rparr>) of
       Ok (Some i, C, c) \<Rightarrow> (Some (snd (cached_entry C i)), C, c)
     | Ok (None, C, c) \<Rightarrow> (None, C, c)
     | _ \<Rightarrow> (None, C, c))"

definition rc_store :: "u64 \<Rightarrow> cached_rules \<Rightarrow> dwarf_rs_cache \<times> cursor \<Rightarrow> dwarf_rs_cache \<times> cursor" where
  "rc_store ip = (\<lambda>(regs, col) (C, c).
     case cache_store DWARF_UNW_CACHE_SIZE (init_state_record\<lparr>rs_current := zero_reg_state\<lparr>rs_reg := regs\<rparr>\<rparr>)
            (C, c\<lparr>c_ip := ip, c_ret_addr_column := col\<rparr>) of
       Ok (_, C, c) \<Rightarrow> (C, c)
     | _ \<Rightarrow> (C, c))"

lemma rc_look_holds:
  assumes "rc_holds s q"
  shows "\<exists>s'. rc_look ip s = (map_of q ip, s') \<and> rc_holds s' q"
proof -
  obtain C c where s: "s = (C, c)" by fastforce
  let ?c = "c\<lparr>c_ip := ip\<rparr>"
  have h: "represents C q" "unat (c_hint ?c) < DWARF_UNW_CACHE_SIZE" "unat (c_prev_rs ?c) < DWARF_UNW_CACHE_SIZE"
    using assms by (simp_all add: rc_holds_def s)
  obtain r C' c' where r: "rs_lookup DWARF_UNW_CACHE_SIZE (C, ?c) = Ok (r, C', c')" "represents C' q"
    "unat (c_hint c') < DWARF_UNW_CACHE_SIZE" "c'\<lparr>c_hint := c_hint ?c\<rparr> = ?c"
    "case r of None \<Rightarrow> map_of q (c_ip ?c) = None
             | Some i \<Rightarrow> i < DWARF_UNW_CACHE_SIZE \<and> map_of q (c_ip ?c) = Some (snd (cached_entry C' i)) \<and>
                 \<not> rs_signal_frame (rc_buckets C' ! i)"
    using rs_lookup_represents [OF h order_refl] by blast
  have "c_prev_rs (c'\<lparr>c_hint := c_hint ?c\<rparr>) = c_prev_rs ?c" by (simp only: r(4))
  then show ?thesis using r h(3) by (cases r) (auto simp: rc_look_def rc_holds_def s)
qed

lemma rc_store_holds:
  assumes "rc_holds s q" "ip \<noteq> 0" "map_of q ip = None"
  shows "rc_holds (rc_store ip v s) (fifo_insert DWARF_UNW_CACHE_SIZE q (ip, v))"
proof -
  obtain C c regs col where s: "s = (C, c)" "v = (regs, col)" by fastforce
  let ?c = "c\<lparr>c_ip := ip, c_ret_addr_column := col\<rparr>"
  have h: "represents C q" "map_of q (c_ip ?c) = None" "c_ip ?c \<noteq> 0" "unat (c_prev_rs ?c) < DWARF_UNW_CACHE_SIZE"
    using assms by (simp_all add: rc_holds_def s)
  then show ?thesis
    using cache_store_represents [OF h order_refl, of "init_state_record\<lparr>rs_current := zero_reg_state\<lparr>rs_reg := regs\<rparr>\<rparr>"]
    by (auto simp: rc_store_def rc_holds_def s)
qed

lemma rc_holds_queue:
  assumes "rc_holds s q"
  shows "distinct (map fst q)" "length q \<le> DWARF_UNW_CACHE_SIZE"
proof -
  obtain us vs where v: "lru_order (fst s) (us @ vs)" "hash_chains (fst s) vs" "q = map (cached_entry (fst s)) vs"
    using assms by (auto simp: rc_holds_def represents_def split_beta)
  show "distinct (map fst q)" using v(2,3) by (simp add: hash_chains_def cached_entry_def Let_def comp_def)
  show "length q \<le> DWARF_UNW_CACHE_SIZE" using lru_order_length [OF v(1)] v(3) by simp
qed

interpretation rc: fifo_cache rc_holds rc_look rc_store "\<lambda>ip. ip \<noteq> 0" DWARF_UNW_CACHE_SIZE
  by unfold_locales (use rc_look_holds rc_store_holds rc_holds_queue in blast)+

section \<open>Properties\<close>


lemma flushed_holds: "rc_holds (flush_rs_cache C, cursor0) []"
  by (simp add: rc_holds_def flush_represents cursor0_def)




text \<open>Flushing is lazy but complete: after \<open>unw_flush_cache\<close> the next use of the cache starts from an empty one,
  provided that the generation counters did not wrap around to the same value.\<close>

lemma flush_empties_cache:
  assumes "caching_policy as \<noteq> UNW_CACHE_NONE" "cache_generation as + 1 \<noteq> rc_generation (global_cache as)"
  shows "\<exists>C as'. get_rs_cache (unw_flush_cache as lo hi) = (Some C, as') \<and> represents C [] \<and>
    rc_generation C = cache_generation as + 1 \<and> global_cache as' = C"
proof -
  let ?C = "(flush_rs_cache (global_cache as))\<lparr>rc_generation := cache_generation as + 1\<rparr>"
  have "represents ?C [] = represents (flush_rs_cache (global_cache as)) []"
    by (simp add: represents_def hash_chains_def lru_order_def)
  then show ?thesis using assms flush_represents by (simp add: get_rs_cache_def unw_flush_cache_def Let_def)
qed

end
