(* ===== verification/Unw_Init.thy ===== *)
theory Unw_Init
  imports Dwarf_Cache
begin

text \<open>
  The initialisation of the library: \<open>tdep_init\<close> (\<^verbatim>\<open>Gglobal.c\<close>), \<open>dwarf_init\<close> (\<^verbatim>\<open>global.c\<close>), the local address space (\<^verbatim>\<open>Ginit.c\<close>),
  the caching policy (\<^verbatim>\<open>Gset_caching_policy.c\<close>), and \<open>unw_init_local\<close> with the test whether the library is
  initialised. The locks are not modelled. \<open>mi_init\<close> checks the size of a structure, and \<open>tdep_init_mem_validate\<close> selects
  \<open>msync_validate\<close>, which is the only way of validating memory in the model.
\<close>

section \<open>Initialisation\<close>

record unw_globals =
  tdep_init_done :: bool
  local_addr_space :: unw_addr_space
  g_lib :: unw_lib

text \<open>The sizes of \<open>dwarf_reg_state_t\<close> and \<open>struct dwarf_cie_info\<close> in the x86-64 ABI.\<close>

definition REG_STATE_SIZE :: nat where "REG_STATE_SIZE = 336"

definition dwarf_init :: "unw_lib \<Rightarrow> unw_lib outcome" where
  "dwarf_init L =
     obind (mempool_init (l_env L) (of_nat REG_STATE_SIZE) 0) (\<lambda>(e, rs_pool).
     obind (mempool_init e (of_nat CIE_INFO_SIZE) 0) (\<lambda>(e, cie_pool).
     Ok (L\<lparr>l_env := e, l_rs_pool := rs_pool, l_cie_pool := cie_pool\<rparr>)))"

text \<open>\<open>memset (&local_addr_space, 0, sizeof (local_addr_space))\<close>; policy 0 is \<open>UNW_CACHE_NONE\<close>.\<close>

definition zero_addr_space :: unw_addr_space where
  "zero_addr_space = \<lparr>caching_policy = UNW_CACHE_NONE, cache_generation = 0, dyn_generation = 0, dyn_info_list_addr = 0,
     global_cache = \<lparr>lru_head = 0, lru_tail = 0, rc_hash = replicate DWARF_UNW_HASH_SIZE 0, rc_generation = 0,
       rc_buckets = replicate DWARF_UNW_CACHE_SIZE zero_reg_state\<rparr>, debug_frames = []\<rparr>"

definition x86_64_local_addr_space_init :: "unw_globals \<Rightarrow> unw_globals" where
  "x86_64_local_addr_space_init g =
     (let as = unw_flush_cache (zero_addr_space\<lparr>caching_policy := UNW_CACHE_GLOBAL\<rparr>) 0 0;
          M = (l_machine (g_lib g))\<lparr>m_last_good_addr := replicate NLGA 0, m_lga_victim := 0\<rparr> in
      g\<lparr>local_addr_space := as, g_lib := (g_lib g)\<lparr>l_machine := M\<rparr>\<rparr>)"

definition tdep_init :: "unw_globals \<Rightarrow> unw_globals outcome" where
  "tdep_init g =
     (if tdep_init_done g then Ok g
      else
        obind (dwarf_init (g_lib g)) (\<lambda>L.
        Ok ((x86_64_local_addr_space_init (g\<lparr>g_lib := L\<rparr>))\<lparr>tdep_init_done := True\<rparr>)))"

text \<open>There is only the local address space: none can be made (the result is \<open>NULL\<close>), and destroying one does nothing.\<close>

definition unw_create_addr_space :: "addr \<Rightarrow> int \<Rightarrow> unw_addr_space option" where
  "unw_create_addr_space accessors byte_order = None"

definition unw_destroy_addr_space :: "unw_addr_space \<Rightarrow> unw_addr_space" where
  "unw_destroy_addr_space as = as"

text \<open>The table of accessors is returned; in the model it is fixed.\<close>

definition unw_get_accessors :: "unw_globals \<Rightarrow> unw_globals outcome" where
  "unw_get_accessors g = (if \<not> tdep_init_done g then tdep_init g else Ok g)"

text \<open>\<open>HAVE___THREAD\<close> is not defined.\<close>

definition unw_set_caching_policy :: "unw_globals \<Rightarrow> unw_caching_policy_t \<Rightarrow> unw_globals outcome" where
  "unw_set_caching_policy g policy =
     obind (if \<not> tdep_init_done g then tdep_init g else Ok g) (\<lambda>g.
     let policy = (if policy = UNW_CACHE_PER_THREAD then UNW_CACHE_GLOBAL else policy); as = local_addr_space g in
     Ok (if policy = caching_policy as then g
         else g\<lparr>local_addr_space := unw_flush_cache (as\<lparr>caching_policy := policy\<rparr>) 0 0\<rparr>))"

text \<open>\<open>unw_init_local\<close> with its test for the initialisation, which sets up the address space twice.\<close>

definition unw_init_local_first :: "cursor \<Rightarrow> addr \<Rightarrow> unw_globals \<Rightarrow> (cursor \<times> unw_globals) outcome" where
  "unw_init_local_first c uc g =
     obind (if \<not> tdep_init_done g then tdep_init (x86_64_local_addr_space_init g) else Ok g) (\<lambda>g.
     obind (unw_init_local (l_machine (g_lib g)) c uc) (\<lambda>(c, M).
     Ok (c, g\<lparr>g_lib := (g_lib g)\<lparr>l_machine := M\<rparr>\<rparr>)))"

section \<open>Pools do not interfere\<close>

lemma chain_cong: "(\<And>x. x \<in> set xs \<Longrightarrow> read_word m' x = read_word m x) \<Longrightarrow> chain m' h xs = chain m h xs"
  by (induction xs arbitrary: h) auto

lemma add_memory_loop_frame:
  assumes "add_memory_loop m pool obj lim os = Ok (m', pool')" "aligned16 obj" "unat os mod 16 = 0" "aligned16 x"
    "x < obj \<or> lim < x"
  shows "read_word m' x = read_word m x"
  using assms
proof (induction m pool obj lim os arbitrary: m' pool' rule: add_memory_loop.induct)
  case (1 m pool obj lim os)
  show ?case
  proof (cases "obj \<le> lim")
    case False
    then show ?thesis using "1.prems"(1) by (subst (asm) add_memory_loop.simps) simp
  next
    case True
    obtain m1 p1 where fo: "free_object m pool obj = (m1, p1)" by fastforce
    have nz: "os \<noteq> 0" "unat obj + unat os < 2 ^ 64"
      using "1.prems"(1) True fo by (subst (asm) add_memory_loop.simps; auto split: if_splits)+
    have eq: "add_memory_loop m1 p1 (obj + os) lim os = Ok (m', pool')"
      using "1.prems"(1) True fo nz by (subst (asm) add_memory_loop.simps) (auto split: if_splits)
    have u: "unat (obj + os) = unat obj + unat os" using nz(2) by (simp add: unat_add_no_wrap)
    then have "aligned16 (obj + os)" "obj \<le> obj + os"
      using "1.prems"(2,3) by (simp_all add: aligned16_def word_le_nat_alt) presburger
    moreover have "x < obj + os \<or> lim < x" using "1.prems"(5) \<open>obj \<le> obj + os\<close> by auto
    ultimately have "read_word m' x = read_word m1 x"
      using "1.IH" [OF True fo [symmetric] refl nz eq] "1.prems"(3,4) by blast
    also have "\<dots> = read_word m x"
      using fo read_write_other [OF "1.prems"(2,4)] "1.prems"(5) True by (auto simp: free_object_def)
    finally show ?thesis .
  qed
qed

lemma expand_frame:
  assumes "env_inv e" "pool_shape pool" "expand e pool = Ok (e', pool')" "owned e x"
  shows "read_word (ke_mem e') x = read_word (ke_mem e) x"
proof -
  obtain mem s e1 m where em: "expand_memory e pool = Ok (mem, s, e1)"
    and am: "add_memory (ke_mem e1) pool mem s (mp_obj_size pool) = Ok (m, pool')" and e': "e' = e1\<lparr>ke_mem := m\<rparr>"
    using assms(3) by (auto simp: expand_def)
  let ?os = "mp_obj_size pool" and ?lim = "mem + s - mp_obj_size pool"
  have f: "fresh_memory e e1 mem s" "?os \<le> s" using expand_memory_ok [OF assms(1,2) em] by auto
  have fr: "mem \<noteq> 0" "aligned16 mem" "unat mem + unat s < 2 ^ 64" "ke_mem e1 = ke_mem e"
    "\<And>y. in_chunk mem s y \<Longrightarrow> aligned16 y \<Longrightarrow> \<not> owned e y" using f(1) by (auto simp: fresh_memory_def)
  have us: "unat (s - ?os) = unat s - unat ?os" using f(2) by (rule unat_sub)
  have "unat (mem + (s - ?os)) = unat mem + unat (s - ?os)" using fr(3) us by (intro unat_add_no_wrap) simp
  then have lim: "unat ?lim = unat mem + (unat s - unat ?os)" using us by (simp add: add_diff_eq)
  have os: "0 < unat ?os" "unat ?os \<le> unat s" "unat ?os mod 16 = 0"
    using assms(2) f(2) by (auto simp: pool_shape_def unat_gt_0 word_le_nat_alt)
  have "x < mem \<or> ?lim < x"
  proof (rule ccontr)
    assume "\<not> (x < mem \<or> ?lim < x)"
    then have "in_chunk mem s x"
      using lim os fr(1) unfolding in_chunk_def word_less_nat_alt by linarith
    then show False using fr(5) [OF _ owned_aligned [OF assms(4)]] assms(4) by blast
  qed
  then show ?thesis
    using add_memory_loop_frame [OF am [unfolded add_memory_def] fr(2) os(3) owned_aligned [OF assms(4)]] fr(4) e' by simp
qed

lemma other_pool_inv:
  assumes "pool_inv (e, p)" "expand e pool = Ok (e', pool')" "pool_shape pool" "pool_list e pool ys"
  shows "pool_inv (e', p) \<and> avail (e', p) = avail (e, p)"
proof -
  obtain xs where x: "env_inv e" "pool_shape p" "pool_list e p xs" using assms(1) by (auto simp: pool_inv_def)
  have e': "env_inv e'" "\<And>x. owned e x \<Longrightarrow> owned e' x" using expand_ok [OF x(1) assms(3,4,2)] by auto
  have "chain (ke_mem e') (mp_free_list p) xs = chain (ke_mem e) (mp_free_list p) xs"
    by (rule chain_cong) (use expand_frame [OF x(1) assms(3,2)] x(3) in \<open>auto simp: pool_list_def\<close>)
  then have "pool_list e' p xs" using x(3) e'(2) by (simp add: pool_list_def)
  then show ?thesis using e'(1) x avail_eq by (auto simp: pool_inv_def)
qed

lemma expand_malloc:
  assumes "expand e pool = Ok (e', pool')" "ke_malloc e (ke_calls e) (mp_chunk_size pool) \<noteq> 0"
  shows "ke_malloc e' = ke_malloc e" "ke_calls e' = Suc (ke_calls e)"
  using assms by (auto simp: expand_def expand_memory_def get_memory_def Let_def)

text \<open>The two pools of the library: both valid, on different memory.\<close>

lemma dwarf_init_pools:
  assumes "env_inv (l_env L)"
    "\<And>i s. i < 2 \<Longrightarrow> s \<le> 2 ^ 40 \<Longrightarrow> ke_malloc (l_env L) (ke_calls (l_env L) + i) s \<noteq> 0"
  shows "\<exists>e p q. dwarf_init L = Ok (L\<lparr>l_env := e, l_rs_pool := p, l_cie_pool := q\<rparr>) \<and> pool_inv (e, p) \<and> pool_inv (e, q) \<and>
    avail (e, p) \<inter> avail (e, q) = {} \<and> 0 < card (avail (e, p)) \<and> 0 < card (avail (e, q)) \<and>
    of_nat REG_STATE_SIZE \<le> mp_obj_size p \<and> of_nat CIE_INFO_SIZE \<le> mp_obj_size q"
proof -
  let ?e = "l_env L"
  have n: "0 < unat (of_nat REG_STATE_SIZE :: u64)" "unat (of_nat REG_STATE_SIZE :: u64) \<le> 2 ^ 31"
    "0 < unat (of_nat CIE_INFO_SIZE :: u64)" "unat (of_nat CIE_INFO_SIZE :: u64) \<le> 2 ^ 31"
    by (simp_all add: REG_STATE_SIZE_def CIE_INFO_SIZE_def)
  have first: "\<exists>p e1 p1. mempool_init e k 0 = Ok (e1, p1) \<and> expand e p = Ok (e1, p1) \<and> pool_shape p \<and> pool_list e p [] \<and>
      pool_inv (e1, p1) \<and> 0 < card (avail (e1, p1)) \<and> k \<le> mp_obj_size p1 \<and>
      ke_malloc e1 = ke_malloc ?e \<and> ke_calls e1 = Suc (ke_calls e)"
    if e: "env_inv e" "ke_malloc e = ke_malloc ?e" "ke_calls e = ke_calls ?e + i" "i < 2" and k: "0 < unat k" "unat k \<le> 2 ^ 31" for e k i
  proof -
    obtain p where p: "mempool_init e k 0 = expand e p" "pool_shape p" "mp_free_list p = 0" "mp_num_free p = 0"
      "k \<le> mp_obj_size p" "mp_chunk_size p \<le> 2 ^ 40" using init_pool [OF e(1) k] by blast
    obtain e1 p1 where x: "expand e p = Ok (e1, p1)" "pool_inv (e1, p1)"
      "card (avail (e1, p1)) = unat (mp_chunk_size p) div unat (mp_obj_size p)" "mp_obj_size p1 = mp_obj_size p"
      using expand_empty [OF e(1) p(2-4)] assms(2) [OF e(4) p(6)] e(2,3) by auto
    have "ke_malloc e (ke_calls e) (mp_chunk_size p) \<noteq> 0" using assms(2) [OF e(4) p(6)] e(2,3) by simp
    note m = expand_malloc [OF x(1) this]
    have "0 < unat (mp_chunk_size p) div unat (mp_obj_size p)"
      using p(2) by (simp add: pool_shape_def div_greater_zero_iff word_le_nat_alt unat_gt_0)
    moreover have "pool_list e p []" using p(3,4) by (simp add: pool_list_def)
    ultimately show ?thesis using p x m e(2) by auto
  qed
  obtain p0 e1 p where P: "mempool_init ?e (of_nat REG_STATE_SIZE) 0 = Ok (e1, p)" "expand ?e p0 = Ok (e1, p)"
    "pool_inv (e1, p)" "0 < card (avail (e1, p))" "of_nat REG_STATE_SIZE \<le> mp_obj_size p"
    "ke_malloc e1 = ke_malloc ?e" "ke_calls e1 = Suc (ke_calls ?e)"
    using first [OF assms(1) refl _ _ n(1,2), of 0] by auto
  have e1: "env_inv e1" "ke_malloc e1 = ke_malloc ?e" "ke_calls e1 = ke_calls ?e + 1" using P(3,6,7) by (simp_all add: pool_inv_def)
  obtain q0 e2 q where Q: "mempool_init e1 (of_nat CIE_INFO_SIZE) 0 = Ok (e2, q)" "expand e1 q0 = Ok (e2, q)" "pool_shape q0"
    "pool_list e1 q0 []" "pool_inv (e2, q)" "0 < card (avail (e2, q))" "of_nat CIE_INFO_SIZE \<le> mp_obj_size q"
    using first [OF e1 _ n(3,4)] by auto
  have p2: "pool_inv (e2, p)" "avail (e2, p) = avail (e1, p)" using other_pool_inv [OF P(3) Q(2-4)] by auto
  obtain ys where ys: "pool_list e2 q ys" "\<forall>y\<in>set ys. \<not> owned e1 y" using expand_ok [OF e1(1) Q(3,4,2)] by auto
  have "\<forall>x\<in>avail (e1, p). owned e1 x" by (auto simp: avail_def pool_list_def)
  then have "avail (e2, p) \<inter> avail (e2, q) = {}" using ys avail_eq [OF ys(1)] p2(2) by auto
  moreover have "dwarf_init L = Ok (L\<lparr>l_env := e2, l_rs_pool := p, l_cie_pool := q\<rparr>)" using P(1) Q(1) by (simp add: dwarf_init_def)
  ultimately show ?thesis using P(4,5) Q(5-7) p2 by (intro exI [of _ e2] exI [of _ p] exI [of _ q]) simp
qed

section \<open>Properties\<close>


text \<open>A kernel that gives two chunks, and the library when the module is loaded.\<close>

definition env1 :: kernel_env where
  "env1 = env0\<lparr>ke_malloc := (\<lambda>i s. if i = 0 \<and> s \<le> 2 ^ 40 then 2 ^ 41 else if i = 1 \<and> s \<le> 2 ^ 40 then 2 ^ 42 else 0)\<rparr>"

definition globals0 :: unw_globals where
  "globals0 = \<lparr>tdep_init_done = False, local_addr_space = zero_addr_space, g_lib = lib0\<lparr>l_env := env1\<rparr>\<rparr>"

lemma env1_inv: "env_inv env1"
proof -
  have "malloc_ok env1"
    unfolding malloc_ok_def in_chunk_def aligned16_def
    by (auto simp: env1_def env0_def SOS_MEMORY_SIZE_def word_le_nat_alt)
  then show ?thesis by (simp add: env_inv_def env1_def env0_def aligned16_def SOS_MEMORY_SIZE_def)
qed


end
