(* ===== verification/Elf_Image.thy ===== *)
theory Elf_Image
  imports Proc_Search
begin

text \<open>
  ELF images (\<^verbatim>\<open>elfxx.h\<close>) and the search table of \<^verbatim>\<open>.eh_frame_hdr\<close> (\<^verbatim>\<open>Gfind_unwind_table.c\<close>), for 64-bit images. An image is
  a part of memory, given by its address and size; the structures of \<^verbatim>\<open>sys/elf.h\<close> are read at the offsets the
  ELF format fixes. The loop over the dynamic section, which a malformed image can make endless, has \<open>fuel\<close>. The table
  is proved to be found, and a function to be found through it.
\<close>

section \<open>Structures\<close>

record elf_image =
  ei_image :: addr
  ei_size :: u64

definition u16_at :: "memory \<Rightarrow> addr \<Rightarrow> u16" where "u16_at m a = ucast (mem_le m 2 a)"
definition u32_at :: "memory \<Rightarrow> addr \<Rightarrow> u32" where "u32_at m a = ucast (mem_le m 4 a)"

text \<open>The members of \<open>Elf64_Ehdr\<close> that are used.\<close>

definition e_phoff :: "memory \<Rightarrow> addr \<Rightarrow> u64" where "e_phoff m a = read_word m (a + 32)"
definition e_shoff :: "memory \<Rightarrow> addr \<Rightarrow> u64" where "e_shoff m a = read_word m (a + 40)"
definition e_phnum :: "memory \<Rightarrow> addr \<Rightarrow> u16" where "e_phnum m a = u16_at m (a + 56)"
definition e_shentsize :: "memory \<Rightarrow> addr \<Rightarrow> u16" where "e_shentsize m a = u16_at m (a + 58)"
definition e_shnum :: "memory \<Rightarrow> addr \<Rightarrow> u16" where "e_shnum m a = u16_at m (a + 60)"

record Elf64_Phdr =
  p_type :: u32
  p_offset :: u64
  p_vaddr :: u64
  p_memsz :: u64

definition Phdr_at :: "memory \<Rightarrow> addr \<Rightarrow> Elf64_Phdr" where
  "Phdr_at m a = \<lparr>p_type = u32_at m a, p_offset = read_word m (a + 8), p_vaddr = read_word m (a + 16),
     p_memsz = read_word m (a + 40)\<rparr>"

record Elf64_Shdr =
  sh_type :: u32
  sh_offset :: u64
  sh_size :: u64
  sh_link :: u32
  sh_entsize :: u64

definition Shdr_at :: "memory \<Rightarrow> addr \<Rightarrow> Elf64_Shdr" where
  "Shdr_at m a = \<lparr>sh_type = u32_at m (a + 4), sh_offset = read_word m (a + 24), sh_size = read_word m (a + 32),
     sh_link = u32_at m (a + 40), sh_entsize = read_word m (a + 56)\<rparr>"

record Elf64_Sym =
  st_name :: u32
  st_info :: u8
  st_shndx :: u16
  st_value :: u64

definition Sym_at :: "memory \<Rightarrow> addr \<Rightarrow> Elf64_Sym" where
  "Sym_at m a = \<lparr>st_name = u32_at m a, st_info = m (a + 4), st_shndx = u16_at m (a + 6), st_value = read_word m (a + 8)\<rparr>"

definition PT_LOAD :: u32 where "PT_LOAD = 1"
definition PT_DYNAMIC :: u32 where "PT_DYNAMIC = 2"
definition PT_GNU_EH_FRAME :: u32 where "PT_GNU_EH_FRAME = 0x6474e550"

text \<open>The \<open>n\<close> program headers from an address on.\<close>

definition phdrs :: "memory \<Rightarrow> elf_image \<Rightarrow> Elf64_Phdr list" where
  "phdrs m ei = map (\<lambda>i. Phdr_at m (ei_image ei + e_phoff m (ei_image ei) + 56 * of_nat i)) [0..<unat (e_phnum m (ei_image ei))]"

definition valid_object :: "memory \<Rightarrow> elf_image \<Rightarrow> bool" where
  "valid_object m ei =
     (let a = ei_image ei in
      \<not> ei_size ei \<le> 6 \<and> m a = 0x7f \<and> m (a + 1) = 0x45 \<and> m (a + 2) = 0x4c \<and> m (a + 3) = 0x46 \<and>
      m (a + 4) = 2 \<and> m (a + 6) \<noteq> 0 \<and> m (a + 6) \<le> 1)"

section \<open>The table of \<^verbatim>\<open>.eh_frame_hdr\<close>\<close>

record elf_dyn_info =
  edi_ei :: elf_image
  edi_di_cache :: unw_dyn_info_t
  edi_di_debug :: unw_dyn_info_t

text \<open>What the loop over the program headers collects; \<open>max_load_addr\<close> is not used by the code that is compiled.\<close>

record ph_scan =
  ps_start_ip :: u64
  ps_end_ip :: u64
  ps_txt :: "Elf64_Phdr option"
  ps_eh_hdr :: "Elf64_Phdr option"
  ps_dyn :: "Elf64_Phdr option"

definition scan_phdr :: "u64 \<Rightarrow> Elf64_Phdr \<Rightarrow> ph_scan \<Rightarrow> ph_scan" where
  "scan_phdr mapoff ph s =
     (if p_type ph = PT_LOAD then
        (let s = (if p_vaddr ph < ps_start_ip s then s\<lparr>ps_start_ip := p_vaddr ph\<rparr> else s);
             s = (if p_vaddr ph + p_memsz ph > ps_end_ip s then s\<lparr>ps_end_ip := p_vaddr ph + p_memsz ph\<rparr> else s) in
         if p_offset ph = mapoff then s\<lparr>ps_txt := Some ph\<rparr> else s)
      else if p_type ph = PT_GNU_EH_FRAME then s\<lparr>ps_eh_hdr := Some ph\<rparr>
      else if p_type ph = PT_DYNAMIC then s\<lparr>ps_dyn := Some ph\<rparr>
      else s)"

definition scan_phdrs :: "u64 \<Rightarrow> Elf64_Phdr list \<Rightarrow> ph_scan" where
  "scan_phdrs mapoff phs = fold (scan_phdr mapoff) phs
     \<lparr>ps_start_ip = - 1, ps_end_ip = 0, ps_txt = None, ps_eh_hdr = None, ps_dyn = None\<rparr>"

text \<open>The entry \<open>DT_PLTGOT\<close> of the dynamic section, or the old value.\<close>

primrec find_gp :: "nat \<Rightarrow> memory \<Rightarrow> addr \<Rightarrow> u64 \<Rightarrow> u64 outcome" where
  "find_gp 0 m dyn gp = Diverge"
| "find_gp (Suc fuel) m dyn gp =
     (if read_word m dyn = 0 then Ok gp
      else if read_word m dyn = 3 then Ok (read_word m (dyn + 8))
      else find_gp fuel m (dyn + 16) gp)"

text \<open>An error of a call that is returned as \<open>UNW_ENOINFO\<close>.\<close>

definition or_enoinfo :: "'a outcome \<Rightarrow> 's \<Rightarrow> ('a \<Rightarrow> ('s, 'b) call) \<Rightarrow> ('s, 'b) call" where
  "or_enoinfo r s k = (case r of Ok a \<Rightarrow> k a | Fail _ \<Rightarrow> throw UNW_ENOINFO s | Panic \<Rightarrow> Panic | UB \<Rightarrow> UB | Diverge \<Rightarrow> Diverge)"

text \<open>The header \<open>hdr\<close> of the table and the program header \<open>eh\<close> that points to it.\<close>

definition read_eh_frame_hdr ::
  "memory \<Rightarrow> u64 \<Rightarrow> u64 \<Rightarrow> u64 \<Rightarrow> Elf64_Phdr \<Rightarrow> elf_dyn_info \<Rightarrow> (elf_dyn_info, bool) call" where
  "read_eh_frame_hdr m load_base sip eip eh edi =
     (let image = ei_image (edi_ei edi); hdr = image + p_offset eh; pi = zero_proc_info\<lparr>pi_gp := di_gp (edi_di_cache edi)\<rparr> in
      if m hdr \<noteq> 1 then throw UNW_ENOINFO edi
      else
        or_enoinfo (dwarf_read_encoded_pointer m (hdr + 4) (m (hdr + 1)) pi) edi (\<lambda>(eh_frame_start, a).
        or_enoinfo (dwarf_read_encoded_pointer m a (m (hdr + 2)) pi) edi (\<lambda>(fde_count, a).
        if m (hdr + 3) \<noteq> 0x3b then Panic
        else
          ret True (edi\<lparr>edi_di_cache := (edi_di_cache edi)\<lparr>di_start_ip := sip, di_end_ip := eip,
            di_format := UNW_INFO_FORMAT_REMOTE_TABLE, di_name_ptr := 0, di_table_len := fde_count * 8 div 8,
            di_table_data := load_base + p_vaddr eh + (a - image - p_offset eh),
            di_segbase := load_base + p_vaddr eh + (hdr - image - p_offset eh)\<rparr>\<rparr>))))"

text \<open>Whether a table was found; the path and the instruction pointer are not used.\<close>

definition dwarf_find_unwind_table ::
  "nat \<Rightarrow> memory \<Rightarrow> u64 \<Rightarrow> u64 \<Rightarrow> elf_dyn_info \<Rightarrow> (elf_dyn_info, bool) call" where
  "dwarf_find_unwind_table fuel m segbase mapoff edi =
     (if \<not> valid_object m (edi_ei edi) then throw UNW_ENOINFO edi
      else
        (let s = scan_phdrs mapoff (phdrs m (edi_ei edi)) in
         case ps_txt s of
           None \<Rightarrow> ret False edi
         | Some txt \<Rightarrow>
             (let load_base = segbase - p_vaddr txt in
              case ps_eh_hdr s of
                None \<Rightarrow> ret False edi
              | Some eh \<Rightarrow>
                  obind (case ps_dyn s of
                           Some d \<Rightarrow> find_gp fuel m (p_offset d + ei_image (edi_ei edi)) (di_gp (edi_di_cache edi))
                         | None \<Rightarrow> Ok 0) (\<lambda>gp.
                  read_eh_frame_hdr m load_base (ps_start_ip s + load_base) (ps_end_ip s + load_base) eh
                    (edi\<lparr>edi_di_cache := (edi_di_cache edi)\<lparr>di_gp := gp\<rparr>\<rparr>)))))"

section \<open>Program headers\<close>

text \<open>What the loop over the program headers is for: the loaded segments and their bounds.\<close>

definition load_segments :: "Elf64_Phdr list \<Rightarrow> Elf64_Phdr set" where
  "load_segments phs = {ph \<in> set phs. p_type ph = PT_LOAD}"

definition lowest_vaddr :: "Elf64_Phdr list \<Rightarrow> u64" where
  "lowest_vaddr phs = Min (p_vaddr ` load_segments phs)"

definition highest_vaddr :: "Elf64_Phdr list \<Rightarrow> u64" where
  "highest_vaddr phs = Max ((\<lambda>ph. p_vaddr ph + p_memsz ph) ` load_segments phs)"

definition last_phdr :: "(Elf64_Phdr \<Rightarrow> bool) \<Rightarrow> Elf64_Phdr list \<Rightarrow> Elf64_Phdr option" where
  "last_phdr P phs = find P (rev phs)"

lemma p_types [simp]: "PT_LOAD \<noteq> PT_GNU_EH_FRAME" "PT_GNU_EH_FRAME \<noteq> PT_LOAD" "PT_LOAD \<noteq> PT_DYNAMIC" "PT_DYNAMIC \<noteq> PT_LOAD"
  "PT_DYNAMIC \<noteq> PT_GNU_EH_FRAME" "PT_GNU_EH_FRAME \<noteq> PT_DYNAMIC"
  by (simp_all add: PT_LOAD_def PT_GNU_EH_FRAME_def PT_DYNAMIC_def)

lemma last_phdr_snoc [simp]: "last_phdr P (phs @ [ph]) = (if P ph then Some ph else last_phdr P phs)"
  by (simp add: last_phdr_def)

lemma load_segments_snoc [simp]:
  "load_segments (phs @ [ph]) = (if p_type ph = PT_LOAD then insert ph (load_segments phs) else load_segments phs)"
  by (auto simp: load_segments_def)

lemma finite_load_segments [simp]: "finite (load_segments phs)"
  by (simp add: load_segments_def)

lemma scan_phdrs_last:
  "ps_txt (scan_phdrs mapoff phs) = last_phdr (\<lambda>ph. p_type ph = PT_LOAD \<and> p_offset ph = mapoff) phs"
  "ps_eh_hdr (scan_phdrs mapoff phs) = last_phdr (\<lambda>ph. p_type ph = PT_GNU_EH_FRAME) phs"
  "ps_dyn (scan_phdrs mapoff phs) = last_phdr (\<lambda>ph. p_type ph = PT_DYNAMIC) phs"
  by (induction phs rule: rev_induct) (simp_all add: scan_phdrs_def scan_phdr_def last_phdr_def Let_def)

lemma scan_phdr_bounds:
  "ps_start_ip (scan_phdr mapoff ph s) = (if p_type ph = PT_LOAD then min (p_vaddr ph) (ps_start_ip s) else ps_start_ip s)"
  "ps_end_ip (scan_phdr mapoff ph s) = (if p_type ph = PT_LOAD then max (p_vaddr ph + p_memsz ph) (ps_end_ip s) else ps_end_ip s)"
  by (auto simp: scan_phdr_def Let_def min_def max_def)

lemma scan_phdrs_bounds:
  "ps_start_ip (scan_phdrs mapoff phs) = Min (insert (- 1) (p_vaddr ` load_segments phs))"
  "ps_end_ip (scan_phdrs mapoff phs) = Max (insert 0 ((\<lambda>ph. p_vaddr ph + p_memsz ph) ` load_segments phs))"
proof (induction phs rule: rev_induct)
  case (snoc ph phs)
  have "scan_phdrs mapoff (phs @ [ph]) = scan_phdr mapoff ph (scan_phdrs mapoff phs)" by (simp add: scan_phdrs_def)
  then show "ps_start_ip (scan_phdrs mapoff (phs @ [ph])) = Min (insert (- 1) (p_vaddr ` load_segments (phs @ [ph])))"
    "ps_end_ip (scan_phdrs mapoff (phs @ [ph])) = Max (insert 0 ((\<lambda>ph. p_vaddr ph + p_memsz ph) ` load_segments (phs @ [ph])))"
    using snoc.IH by (simp_all add: scan_phdr_bounds insert_commute [of "- 1"] insert_commute [of 0] del: Min_insert Max_insert)
      (simp_all add: Min_insert [of "insert _ _"] Max_insert [of "insert _ _"] del: Min_insert Max_insert)
qed (simp_all add: scan_phdrs_def load_segments_def)

lemma last_phdr_SomeD: "last_phdr P phs = Some y \<Longrightarrow> y \<in> set phs \<and> P y"
  using find_Some_iff [of P "rev phs" y] nth_mem [of _ "rev phs"] by (auto simp: last_phdr_def)

lemma last_phdr_unique:
  assumes "x \<in> set phs" "P x" "\<And>y. y \<in> set phs \<Longrightarrow> P y \<Longrightarrow> y = x"
  shows "last_phdr P phs = Some x"
proof -
  obtain y where "last_phdr P phs = Some y"
    using assms(1,2) by (cases "last_phdr P phs") (auto simp: find_None_iff last_phdr_def)
  with last_phdr_SomeD [OF this] assms(3) show ?thesis by simp
qed

section \<open>The table is found\<close>

text \<open>
  The header of the table as the linker emits it, at \<open>h\<close>: version 1, a pc-relative pointer to \<^verbatim>\<open>.eh_frame\<close>, the number of entries as a
  4-byte value, and a table of 4-byte offsets from the header.
\<close>

definition eh_frame_hdr_at :: "memory \<Rightarrow> addr \<Rightarrow> nat \<Rightarrow> bool" where
  "eh_frame_hdr_at m h n = (m h = 1 \<and> m (h + 1) = 0x1b \<and> m (h + 2) = 3 \<and> m (h + 3) = 0x3b \<and>
     mem_le m 4 (h + 8) = of_nat n \<and> n < 2 ^ 32)"

lemma read_eh_frame_ptr: "\<exists>x. dwarf_read_encoded_pointer m a 0x1b pi = Ok (x, a + 4)"
  by (simp add: dwarf_read_encoded_pointer_def read_pointer_format_def dwarf_reads32_def
        apply_pointer_base_def dwarf_addr_size_def)

lemma read_udata4:
  assumes "mem_le m 4 a = of_nat n" "n < 2 ^ 32"
  shows "dwarf_read_encoded_pointer m a 3 pi = Ok (of_nat n, a + 4)"
proof -
  have "unat (of_nat n :: u64) = n" using assms(2) by (simp add: unat_of_nat take_bit_nat_eq_self)
  then have "(ucast (ucast (of_nat n :: u64) :: u32) :: u64) = of_nat n"
    using assms(2) by (intro word_unat_eq_iff [THEN iffD2]) (simp add: unsigned_ucast_eq unsigned_take_bit_eq take_bit_nat_eq_self)
  then show ?thesis using assms(1)
    by (simp add: dwarf_read_encoded_pointer_def read_pointer_format_def dwarf_readu32_def
        apply_pointer_base_def dwarf_addr_size_def)
qed

lemma find_gp_returns:
  assumes "read_word m (dyn + 16 * of_nat i) = 0" "i < fuel"
  shows "\<exists>gp'. find_gp fuel m dyn gp = Ok gp'"
  using assms
proof (induction fuel arbitrary: dyn i)
  case (Suc fuel)
  show ?case
  proof (cases "read_word m dyn = 0 \<or> read_word m dyn = 3")
    case False
    then obtain j where j: "i = Suc j" using Suc.prems(1) by (cases i) auto
    have "dyn + 16 * of_nat i = dyn + 16 + 16 * of_nat j" by (simp add: j algebra_simps)
    then show ?thesis using Suc.IH [of "dyn + 16" j] Suc.prems j False by (auto simp: add.assoc)
  qed auto
qed simp

text \<open>
  An image with a search table: one text segment at \<open>mapoff\<close>, one header of \<open>n\<close> entries, and a dynamic section, if
  there is one, that ends within \<open>fuel\<close> entries.
\<close>

definition table_image :: "nat \<Rightarrow> memory \<Rightarrow> elf_image \<Rightarrow> u64 \<Rightarrow> Elf64_Phdr \<Rightarrow> Elf64_Phdr \<Rightarrow> nat \<Rightarrow> bool" where
  "table_image fuel m ei mapoff txt eh n = (let phs = phdrs m ei in
     valid_object m ei \<and>
     txt \<in> set phs \<and> p_type txt = PT_LOAD \<and> p_offset txt = mapoff \<and>
     (\<forall>ph\<in>set phs. p_type ph = PT_LOAD \<and> p_offset ph = mapoff \<longrightarrow> ph = txt) \<and>
     eh \<in> set phs \<and> p_type eh = PT_GNU_EH_FRAME \<and> (\<forall>ph\<in>set phs. p_type ph = PT_GNU_EH_FRAME \<longrightarrow> ph = eh) \<and>
     (\<forall>ph\<in>set phs. p_type ph = PT_DYNAMIC \<longrightarrow>
        (\<exists>i<fuel. read_word m (p_offset ph + ei_image ei + 16 * of_nat i) = 0)) \<and>
     eh_frame_hdr_at m (ei_image ei + p_offset eh) n)"

lemma read_eh_frame_hdr_ok:
  assumes "eh_frame_hdr_at m (ei_image (edi_ei edi) + p_offset eh) n"
  shows "read_eh_frame_hdr m load_base sip eip eh edi =
    ret True (edi\<lparr>edi_di_cache := (edi_di_cache edi)\<lparr>di_start_ip := sip, di_end_ip := eip,
            di_format := UNW_INFO_FORMAT_REMOTE_TABLE, di_name_ptr := 0, di_table_len := of_nat n,
            di_table_data := load_base + p_vaddr eh + 12, di_segbase := load_base + p_vaddr eh\<rparr>\<rparr>)"
proof -
  let ?h = "ei_image (edi_ei edi) + p_offset eh" and ?pi = "zero_proc_info\<lparr>pi_gp := di_gp (edi_di_cache edi)\<rparr>"
  have n: "mem_le m 4 (?h + 8) = of_nat n" "n < 2 ^ 32" using assms by (simp_all add: eh_frame_hdr_at_def)
  obtain x where x: "dwarf_read_encoded_pointer m (?h + 4) 0x1b ?pi = Ok (x, ?h + 8)"
    using read_eh_frame_ptr [of m "?h + 4" ?pi] by (auto simp: add.assoc)
  have c: "dwarf_read_encoded_pointer m (?h + 8) 3 ?pi = Ok (of_nat n, ?h + 12)"
    using read_udata4 [OF n, of ?pi] by (simp add: add.assoc)
  have "unat (of_nat n * 8 :: u64) = unat (of_nat (n * 8) :: u64)" by simp
  then have u: "unat (of_nat n :: u64) = n" "unat (of_nat n * 8 :: u64) = n * 8"
    using n(2) by (simp_all only: unat_of_nat) (simp_all add: take_bit_nat_eq_self)
  have "of_nat n * 8 div 8 = (of_nat n :: u64)" by (rule word_unat_eq_iff [THEN iffD2]) (simp add: unat_div u)
  moreover have "m ?h = 1" "m (?h + 1) = 0x1b" "m (?h + 2) = 3" "m (?h + 3) = 0x3b" using assms by (simp_all add: eh_frame_hdr_at_def)
  ultimately show ?thesis using x c by (simp only: read_eh_frame_hdr_def Let_def or_enoinfo_def outcome.case prod.case) simp
qed

lemma table_found:
  assumes "table_image fuel m (edi_ei edi) mapoff txt eh n"
  shows "\<exists>gp. dwarf_find_unwind_table fuel m segbase mapoff edi =
    (let load_base = segbase - p_vaddr txt; phs = phdrs m (edi_ei edi) in
     ret True (edi\<lparr>edi_di_cache := (edi_di_cache edi)\<lparr>di_gp := gp, di_start_ip := lowest_vaddr phs + load_base,
       di_end_ip := highest_vaddr phs + load_base, di_format := UNW_INFO_FORMAT_REMOTE_TABLE, di_name_ptr := 0,
       di_table_len := of_nat n, di_table_data := load_base + p_vaddr eh + 12, di_segbase := load_base + p_vaddr eh\<rparr>\<rparr>))"
proof -
  let ?ei = "edi_ei edi" and ?phs = "phdrs m (edi_ei edi)"
  have im: "valid_object m ?ei" "txt \<in> set ?phs" "p_type txt = PT_LOAD" "p_offset txt = mapoff"
    "\<forall>ph\<in>set ?phs. p_type ph = PT_LOAD \<and> p_offset ph = mapoff \<longrightarrow> ph = txt" "eh \<in> set ?phs" "p_type eh = PT_GNU_EH_FRAME"
    "\<forall>ph\<in>set ?phs. p_type ph = PT_GNU_EH_FRAME \<longrightarrow> ph = eh"
    "\<forall>ph\<in>set ?phs. p_type ph = PT_DYNAMIC \<longrightarrow> (\<exists>i<fuel. read_word m (p_offset ph + ei_image ?ei + 16 * of_nat i) = 0)"
    "eh_frame_hdr_at m (ei_image ?ei + p_offset eh) n"
    using assms by (simp_all add: table_image_def Let_def)
  let ?s = "scan_phdrs mapoff ?phs"
  have t: "ps_txt ?s = Some txt"
    unfolding scan_phdrs_last by (rule last_phdr_unique) (use im(2-5) in blast)+
  have e: "ps_eh_hdr ?s = Some eh"
    unfolding scan_phdrs_last by (rule last_phdr_unique) (use im(6-8) in blast)+
  have "load_segments ?phs \<noteq> {}" using im(2,3) by (auto simp: load_segments_def)
  then have b: "ps_start_ip ?s = lowest_vaddr ?phs" "ps_end_ip ?s = highest_vaddr ?phs"
    by (simp_all add: scan_phdrs_bounds lowest_vaddr_def highest_vaddr_def min_absorb2)
  obtain gp where g: "(case ps_dyn ?s of
                           Some d \<Rightarrow> find_gp fuel m (p_offset d + ei_image ?ei) (di_gp (edi_di_cache edi))
                         | None \<Rightarrow> Ok 0) = Ok gp"
  proof (cases "ps_dyn ?s")
    case (Some d)
    then have "d \<in> set ?phs \<and> p_type d = PT_DYNAMIC"
      using last_phdr_SomeD [of _ ?phs d] by (auto simp: scan_phdrs_last)
    then show ?thesis using im(9) find_gp_returns that Some by fastforce
  qed (use that in simp)
  have "dwarf_find_unwind_table fuel m segbase mapoff edi =
      read_eh_frame_hdr m (segbase - p_vaddr txt) (lowest_vaddr ?phs + (segbase - p_vaddr txt))
        (highest_vaddr ?phs + (segbase - p_vaddr txt)) eh (edi\<lparr>edi_di_cache := (edi_di_cache edi)\<lparr>di_gp := gp\<rparr>\<rparr>)"
    using im(1) t e g b by (simp add: dwarf_find_unwind_table_def Let_def)
  then show ?thesis using read_eh_frame_hdr_ok [of m "edi\<lparr>edi_di_cache := (edi_di_cache edi)\<lparr>di_gp := gp\<rparr>\<rparr>" eh n] im(10)
    by (intro exI [of _ gp]) (simp add: Let_def)
qed

section \<open>Looking up a function in the table\<close>

text \<open>A function the table describes: its FDE, the length of the FDE, the stored displacement and size.\<close>

type_synonym table_fn = "addr \<times> u32 \<times> u32 \<times> u32"

definition fn_start :: "table_fn \<Rightarrow> u64" where
  "fn_start = (\<lambda>(fde, fde_len, off, len). fde + 8 + scast off)"

definition fn_end :: "table_fn \<Rightarrow> u64" where
  "fn_end = (\<lambda>(fde, fde_len, off, len). fde + 8 + scast off + scast len)"

definition fn_covers :: "u64 \<Rightarrow> table_fn \<Rightarrow> bool" where
  "fn_covers ip f = (fn_start f \<le> ip \<and> ip < fn_end f)"

text \<open>
  The table at \<open>base + 12\<close>: its entries are the offsets from \<open>base\<close> of the start and of the FDE of each function, in the order
  of the code, and the functions do not overlap. Everything lies between \<open>lo\<close> and \<open>hi\<close>, which are at most 2 GB apart.
\<close>

definition index_table :: "memory \<Rightarrow> addr \<Rightarrow> u64 \<Rightarrow> u64 \<Rightarrow> table_fn list \<Rightarrow> bool" where
  "index_table m base lo hi fs = (lo \<le> base \<and> base < hi \<and> hi - lo \<le> 2 ^ 31 \<and>
     (\<forall>i<length fs. lo \<le> fst (fs ! i) \<and> fst (fs ! i) < hi \<and>
        lo \<le> fn_start (fs ! i) \<and> fn_start (fs ! i) < fn_end (fs ! i) \<and> fn_end (fs ! i) \<le> hi \<and>
        entry_start_ip_offset m (base + 12) i = ucast (fn_start (fs ! i) - base) \<and>
        entry_fde_offset m (base + 12) i = ucast (fst (fs ! i) - base)) \<and>
     (\<forall>i j. i < j \<and> j < length fs \<longrightarrow> fn_end (fs ! i) \<le> fn_start (fs ! j)))"

text \<open>A table of functions of the format \<^verbatim>\<open>Dwarf_FDE\<close> describes, with one CIE.\<close>

definition search_table_at :: "memory \<Rightarrow> addr \<Rightarrow> u64 \<Rightarrow> u64 \<Rightarrow> addr \<Rightarrow> table_fn list \<Rightarrow> bool" where
  "search_table_at m base lo hi cie fs = (index_table m base lo hi fs \<and>
     (\<forall>(fde, fde_len, off, len)\<in>set fs. gcc_fde_at m fde cie fde_len off len))"

text \<open>Offsets within 2 GB are exact.\<close>

lemma near_offset:
  assumes "lo \<le> base" "base < hi" "hi - lo \<le> 2 ^ 31" "lo \<le> x" "x < (hi :: u64)"
  shows "sint (x - base) = uint x - uint base" "scast (ucast (x - base) :: u32) = x - base"
    "sint (ucast (x - base) :: u32) = uint x - uint base"
proof -
  define d where "d = uint x - uint base"
  have r: "uint (hi - lo) = uint hi - uint lo" using assms(1,2) by (subst uint_sub_lem [symmetric]) (simp add: word_le_def word_less_def)
  have "uint (hi - lo) \<le> 2 ^ 31" using assms(3) by (simp add: word_le_def)
  then have d: "- (2 ^ 31) < d" "d < 2 ^ 31"
    using assms(1,2,4,5) r by (simp_all add: d_def word_le_def word_less_def)
  have "x - base = word_of_int d" by (simp add: d_def)
  then show s: "sint (x - base) = uint x - uint base"
    using d by (simp add: sint_sbintrunc' signed_take_bit_int_eq_self d_def [symmetric])
  then show e: "scast (ucast (x - base) :: u32) = x - base"
    using d by (intro scast_ucast_32) (simp_all add: d_def)
  have "signed_take_bit 63 (sint v) = sint v" for v :: u32
    using sint_ge [of v] sint_lt [of v] by (intro signed_take_bit_int_eq_self) simp_all
  then have "sint (scast (ucast (x - base) :: u32) :: u64) = sint (ucast (x - base) :: u32)" by (simp add: signed_scast_eq)
  then show "sint (ucast (x - base) :: u32) = uint x - uint base" using e s by simp
qed

lemma index_table_fn:
  assumes "index_table m base lo hi fs" "i < length fs"
  shows "lo \<le> fn_start (fs ! i)" "fn_start (fs ! i) < fn_end (fs ! i)" "fn_end (fs ! i) \<le> hi"
    "sint (entry_start_ip_offset m (base + 12) i) = uint (fn_start (fs ! i)) - uint base"
    "scast (entry_fde_offset m (base + 12) i) + base = fst (fs ! i)"
proof -
  have b: "lo \<le> base" "base < hi" "hi - lo \<le> 2 ^ 31" using assms(1) by (simp_all add: index_table_def)
  have f: "lo \<le> fst (fs ! i) \<and> fst (fs ! i) < hi \<and>
      lo \<le> fn_start (fs ! i) \<and> fn_start (fs ! i) < fn_end (fs ! i) \<and> fn_end (fs ! i) \<le> hi \<and>
      entry_start_ip_offset m (base + 12) i = ucast (fn_start (fs ! i) - base) \<and>
      entry_fde_offset m (base + 12) i = ucast (fst (fs ! i) - base)"
    using assms unfolding index_table_def by blast
  then show "lo \<le> fn_start (fs ! i)" "fn_start (fs ! i) < fn_end (fs ! i)" "fn_end (fs ! i) \<le> hi" by blast+
  show "sint (entry_start_ip_offset m (base + 12) i) = uint (fn_start (fs ! i)) - uint base"
    using near_offset(3) [OF b, of "fn_start (fs ! i)"] f by auto
  show "scast (entry_fde_offset m (base + 12) i) + base = fst (fs ! i)" using near_offset(2) [OF b, of "fst (fs ! i)"] f by auto
qed

lemma index_table_order:
  assumes "index_table m base lo hi fs" "i < j" "j < length fs"
  shows "fn_end (fs ! i) \<le> fn_start (fs ! j)"
  using assms unfolding index_table_def by blast

lemma index_table_sorted:
  assumes "index_table m base lo hi fs"
  shows "sorted_table m (base + 12) (length fs)"
  unfolding sorted_table_def
proof (intro allI impI)
  fix i j assume ij: "i \<le> j \<and> j < length fs"
  then have "i < length fs" by simp
  note X = index_table_fn [OF assms this] and Y = index_table_fn [OF assms, of j]
  have "fn_start (fs ! i) \<le> fn_start (fs ! j)"
    using ij index_table_order [OF assms, of i j] X(2) by (cases "i = j") (auto intro: order_trans less_imp_le)
  then show "sint (entry_start_ip_offset m (base + 12) i) \<le> sint (entry_start_ip_offset m (base + 12) j)"
    using X(4) Y(4) ij by (simp add: word_le_def)
qed

text \<open>The entry the binary search returns is the only one that can cover the address.\<close>

lemma index_table_lookup:
  assumes st: "index_table m base lo hi fs" and n: "length fs < 2 ^ 32" and ip: "lo \<le> ip" "ip < hi"
  shows "case unw_lookup m (base + 12) (of_nat (length fs) * 8) (ucast (ip - base)) of
      None \<Rightarrow> \<forall>i<length fs. \<not> fn_covers ip (fs ! i)
    | Some k \<Rightarrow> k < length fs \<and> (\<forall>i<length fs. i \<noteq> k \<longrightarrow> \<not> fn_covers ip (fs ! i))"
proof -
  let ?t = "base + 12" and ?r = "ucast (ip - base) :: u32" and ?n = "length fs"
  have "unat (of_nat ?n * 8 :: u64) = unat (of_nat (?n * 8) :: u64)" by simp
  also have "\<dots> = ?n * 8" using n by (simp only: unat_of_nat) (simp add: take_bit_nat_eq_self)
  finally have sz: "unat (of_nat ?n * 8 :: u64) div 8 = ?n" by simp
  have b: "lo \<le> base" "base < hi" "hi - lo \<le> 2 ^ 31" using st by (simp_all add: index_table_def)
  have start: "(sint (entry_start_ip_offset m ?t i) \<le> sint ?r) = (fn_start (fs ! i) \<le> ip)" if "i < ?n" for i
    using near_offset(3) [OF b ip] index_table_fn(4) [OF st that] by (simp add: word_le_def)
  define k where "k = unw_lookup_loop m ?t ?r 0 ?n"
  have k: "splits_at m ?t ?r ?n k"
    unfolding k_def by (rule unw_lookup_loop_splits [OF index_table_sorted [OF st]]) auto
  have above: "\<not> fn_covers ip (fs ! i)" if "k \<le> i" "i < ?n" for i
    using k start [OF that(2)] that by (auto simp: splits_at_def fn_covers_def)
  have below: "\<not> fn_covers ip (fs ! i)" if "Suc i < k" for i
  proof -
    have "fn_start (fs ! (k - 1)) \<le> ip" using k start [of "k - 1"] that by (auto simp: splits_at_def)
    moreover have "fn_end (fs ! i) \<le> fn_start (fs ! (k - 1))"
      using k that by (intro index_table_order [OF st]) (auto simp: splits_at_def)
    ultimately show ?thesis by (auto simp: fn_covers_def)
  qed
  show ?thesis
  proof (cases "k = 0")
    case True
    then show ?thesis using above by (simp add: unw_lookup_def sz k_def [symmetric])
  next
    case False
    have "\<not> fn_covers ip (fs ! i)" if "i < ?n" "i \<noteq> k - 1" for i
      using above [OF _ that(1)] below [of i] that(2) by (cases "k \<le> i") auto
    moreover have "k - 1 < ?n" using False k by (auto simp: splits_at_def)
    ultimately show ?thesis using False by (simp add: unw_lookup_def sz k_def [symmetric])
  qed
qed

text \<open>The procedure information the lookup returns for a function.\<close>

definition fn_proc_info :: "bool \<Rightarrow> addr \<Rightarrow> addr \<Rightarrow> u32 \<Rightarrow> unw_proc_info_t \<Rightarrow> table_fn \<Rightarrow> unw_proc_info_t" where
  "fn_proc_info need obj cie cie_len pi f = (case f of (fde, fde_len, off, len) \<Rightarrow>
     let pi' = gcc_pi pi (fn_start f) (fn_end f) in
     if need then gcc_unwind_pi pi' obj (gcc_cie_info cie cie_len fde fde_len) else pi')"

text \<open>
  The search in a table when the FDE of the entry it finds decodes to \<open>pi'\<close>, which has the range of that function: the result is \<open>pi'\<close> when
  the function covers the address, which then no other does, and an error when it does not.
\<close>

lemma search_index_table:
  assumes st: "index_table m base lo hi fs" and n: "length fs < 2 ^ 32" and ip: "lo \<le> ip" "ip < hi"
    and di: "di_format di = UNW_INFO_FORMAT_REMOTE_TABLE" "di_start_ip di = lo" "di_end_ip di = hi" "di_segbase di = base"
      "di_table_data di = base + 12" "di_table_len di = of_nat (length fs)"
  shows "find (fn_covers ip) fs = Some f \<Longrightarrow>
      dwarf_extract_proc_info_from_fde fuel m need 0 (fst f, pi, pool) = ret () (a', pi', pool') \<Longrightarrow>
      start_ip pi' = fn_start f \<Longrightarrow> end_ip pi' = fn_end f \<Longrightarrow>
      dwarf_search_unwind_table fuel m ip di need (pi, pool) = ret () (pi', pool')"
    and "find (fn_covers ip) fs = None \<Longrightarrow>
      (\<And>f. f \<in> set fs \<Longrightarrow> \<exists>s'. dwarf_extract_proc_info_from_fde fuel m need 0 (fst f, pi, pool) = ret () s' \<and>
        start_ip (fst (snd s')) = fn_start f \<and> end_ip (fst (snd s')) = fn_end f) \<Longrightarrow>
      \<exists>s. dwarf_search_unwind_table fuel m ip di need (pi, pool) = throw UNW_ENOINFO s"
proof -
  let ?l = "unw_lookup m (base + 12) (of_nat (length fs) * 8) (ucast (ip - base))"
  let ?S = "dwarf_search_unwind_table fuel m ip di need (pi, pool)"
  note lk = index_table_lookup [OF st n ip]
  have S: "?S = (case dwarf_extract_proc_info_from_fde fuel m need 0 (fst (fs ! k), pi, pool) of
      Ok (Ret _, _, pi, pool) \<Rightarrow> if ip < start_ip pi \<or> end_ip pi \<le> ip then throw UNW_ENOINFO (pi, pool) else ret () (pi, pool)
    | Ok (Err e, _, pi, pool) \<Rightarrow> throw e (pi, pool) | Panic \<Rightarrow> Panic | UB \<Rightarrow> UB | Diverge \<Rightarrow> Diverge | Fail e \<Rightarrow> Fail e)"
    if "?l = Some k" "k < length fs" for k
    using that di ip index_table_fn(5) [OF st that(2)]
    by (auto simp: dwarf_search_unwind_table_def unwind_table_def ret_def throw_def split: outcome.splits reply.splits)
  show "?S = ret () (pi', pool')" if f: "find (fn_covers ip) fs = Some f"
    "dwarf_extract_proc_info_from_fde fuel m need 0 (fst f, pi, pool) = ret () (a', pi', pool')" "start_ip pi' = fn_start f" "end_ip pi' = fn_end f"
  proof -
    obtain i where i: "i < length fs" "fs ! i = f" "fn_covers ip f" using f(1) by (auto simp: find_Some_iff)
    then obtain k where k: "?l = Some k" "k < length fs" "fs ! k = f" using lk by (cases ?l) auto
    then show ?thesis using S [OF k(1,2)] f(2-4) i(3) by (auto simp: fn_covers_def ret_def)
  qed
  show "\<exists>s. ?S = throw UNW_ENOINFO s" if f: "find (fn_covers ip) fs = None"
    "\<And>f. f \<in> set fs \<Longrightarrow> \<exists>s'. dwarf_extract_proc_info_from_fde fuel m need 0 (fst f, pi, pool) = ret () s' \<and>
        start_ip (fst (snd s')) = fn_start f \<and> end_ip (fst (snd s')) = fn_end f"
  proof (cases ?l)
    case None
    then show ?thesis using di ip by (simp add: dwarf_search_unwind_table_def unwind_table_def)
  next
    case (Some k)
    then have k: "k < length fs" using lk by simp
    then have "\<not> fn_covers ip (fs ! k)" using f(1) nth_mem [OF k] unfolding find_None_iff by blast
    then show ?thesis using S [OF Some k] f(2) [of "fs ! k"] k by (auto simp: fn_covers_def ret_def)
  qed
qed

lemma search_unwind_table_fn:
  assumes st: "search_table_at m base lo hi cie fs" and cie: "gcc_cie_at m cie cie_len" and fuel: "3 \<le> fuel"
    and n: "length fs < 2 ^ 32" and ip: "lo \<le> ip" "ip < hi" and alloc: "pool_alloc pool = Ok (obj, pool')" "obj \<noteq> 0"
    and di: "di_format di = UNW_INFO_FORMAT_REMOTE_TABLE" "di_start_ip di = lo" "di_end_ip di = hi" "di_segbase di = base"
      "di_table_data di = base + 12" "di_table_len di = of_nat (length fs)"
  shows "case find (fn_covers ip) fs of
      Some f \<Rightarrow> dwarf_search_unwind_table fuel m ip di need (pi, pool) =
        ret () (fn_proc_info need obj cie cie_len pi f, if need then pool' else pool)
    | None \<Rightarrow> \<exists>s. dwarf_search_unwind_table fuel m ip di need (pi, pool) = throw UNW_ENOINFO s"
proof -
  have it: "index_table m base lo hi fs" using st by (simp add: search_table_at_def)
  note search = search_index_table [OF it n ip di]
  have ex: "dwarf_extract_proc_info_from_fde fuel m need 0 (fst f, pi, pool) =
      ret () (fst f + 4 + ucast (fst (snd f)), fn_proc_info need obj cie cie_len pi f, if need then pool' else pool) \<and>
      start_ip (fn_proc_info need obj cie cie_len pi f) = fn_start f \<and> end_ip (fn_proc_info need obj cie cie_len pi f) = fn_end f"
    if "f \<in> set fs" for f
  proof -
    obtain fde fde_len off len where x: "f = (fde, fde_len, off, len)" by (cases f)
    have g: "gcc_fde_at m fde cie fde_len off len" using that st x by (auto simp: search_table_at_def)
    have sf: "fn_start f = fde + 8 + scast off" "fn_end f = fn_start f + scast len" by (simp_all add: x fn_start_def fn_end_def)
    show ?thesis using gcc_extract(1) [OF cie g fuel sf, of pi pool] gcc_extract(2) [OF cie g fuel sf alloc, of pi]
      by (simp add: fn_proc_info_def x gcc_pi_def gcc_unwind_pi_def Let_def)
  qed
  show ?thesis
  proof (cases "find (fn_covers ip) fs")
    case None
    then show ?thesis using search(2) [OF None, of fuel need pi pool] ex by fastforce
  next
    case (Some f)
    then have "f \<in> set fs" by (auto simp: find_Some_iff)
    then show ?thesis using search(1) [OF Some] ex [of f] Some by simp
  qed
qed

text \<open>An image of one page at \<open>0x2000\<close> with a text segment, the header of the table at \<open>0xb0\<close>, and one function.\<close>

definition elf_bytes :: "u8 list" where
  "elf_bytes = [
      0x7f, 0x45, 0x4c, 0x46, 2, 1, 1, 0, 0, 0, 0, 0, 0, 0, 0, 0,
      2, 0, 0x3e, 0, 1, 0, 0, 0, 0, 0, 0, 0, 0, 0, 0, 0,
      0x40, 0, 0, 0, 0, 0, 0, 0, 0, 0, 0, 0, 0, 0, 0, 0,
      0, 0, 0, 0, 0x40, 0, 0x38, 0, 2, 0, 0, 0, 0, 0, 0, 0,
      1, 0, 0, 0, 5, 0, 0, 0, 0, 0, 0, 0, 0, 0, 0, 0,
      0, 0x20, 0, 0, 0, 0, 0, 0, 0, 0x20, 0, 0, 0, 0, 0, 0,
      0, 0x10, 0, 0, 0, 0, 0, 0, 0, 0x10, 0, 0, 0, 0, 0, 0,
      0, 0x10, 0, 0, 0, 0, 0, 0, 0x50, 0xe5, 0x74, 0x64, 4, 0, 0, 0,
      0xb0, 0, 0, 0, 0, 0, 0, 0, 0xb0, 0x20, 0, 0, 0, 0, 0, 0,
      0xb0, 0x20, 0, 0, 0, 0, 0, 0, 0x14, 0, 0, 0, 0, 0, 0, 0,
      0x14, 0, 0, 0, 0, 0, 0, 0, 4, 0, 0, 0, 0, 0, 0, 0,
      1, 0x1b, 3, 0x3b, 0x4c, 0, 0, 0, 1, 0, 0, 0, 0x70, 1, 0, 0,
      0x68, 0, 0, 0]"

definition elf_mem :: memory where
  "elf_mem x = (if x < 0x2100 then let i = unat (x - 0x2000) in if i < length elf_bytes then elf_bytes ! i else 0
     else gcc_mem (x - 0x1100))"

definition elf_txt :: Elf64_Phdr where
  "elf_txt = \<lparr>p_type = PT_LOAD, p_offset = 0, p_vaddr = 0x2000, p_memsz = 0x1000\<rparr>"

definition elf_eh :: Elf64_Phdr where
  "elf_eh = \<lparr>p_type = PT_GNU_EH_FRAME, p_offset = 0xb0, p_vaddr = 0x20b0, p_memsz = 0x14\<rparr>"

definition elf_edi :: elf_dyn_info where
  "elf_edi = \<lparr>edi_ei = \<lparr>ei_image = 0x2000, ei_size = 0x1000\<rparr>, edi_di_cache = zero_dyn_info, edi_di_debug = zero_dyn_info\<rparr>"

lemma elf_mem_phdr: "Phdr_at elf_mem 0x2040 = elf_txt" "Phdr_at elf_mem 0x2078 = elf_eh"
  by code_simp+

lemma elf_mem_ehdr: "e_phoff elf_mem 0x2000 = 0x40" "e_phnum elf_mem 0x2000 = 2"
  by code_simp+

lemma elf_mem_phdrs: "phdrs elf_mem (edi_ei elf_edi) = [elf_txt, elf_eh]"
proof -
  have "[0..<unat (2 :: u16)] = [0, 1]" by code_simp
  then show ?thesis by (simp add: phdrs_def elf_edi_def elf_mem_ehdr elf_mem_phdr)
qed

lemma elf_mem_valid: "valid_object elf_mem (edi_ei elf_edi)"
  by code_simp

lemma elf_mem_hdr: "eh_frame_hdr_at elf_mem 0x20b0 1"
proof -
  have "elf_mem 0x20b0 = 1 \<and> elf_mem 0x20b1 = 0x1b \<and> elf_mem 0x20b2 = 3 \<and> elf_mem 0x20b3 = 0x3b \<and> mem_le elf_mem 4 0x20b8 = 1"
    by code_simp
  then show ?thesis by (simp add: eh_frame_hdr_at_def)
qed

lemma elf_mem_image: "table_image 3 elf_mem (edi_ei elf_edi) 0 elf_txt elf_eh 1"
  using elf_mem_valid elf_mem_hdr by (simp add: table_image_def elf_mem_phdrs Let_def) (simp add: elf_txt_def elf_eh_def elf_edi_def)

lemma elf_mem_bounds: "lowest_vaddr [elf_txt, elf_eh] = 0x2000" "highest_vaddr [elf_txt, elf_eh] = 0x3000"
proof -
  have "load_segments [elf_txt, elf_eh] = {elf_txt}" by (auto simp: load_segments_def elf_txt_def elf_eh_def)
  then show "lowest_vaddr [elf_txt, elf_eh] = 0x2000" "highest_vaddr [elf_txt, elf_eh] = 0x3000"
    by (simp_all add: lowest_vaddr_def highest_vaddr_def elf_txt_def)
qed

lemma elf_mem_fde: "gcc_fde_at elf_mem 0x2118 0x2100 0x14 0x100 0x40 \<and> gcc_cie_at elf_mem 0x2100 0x14 \<and>
    entry_start_ip_offset elf_mem 0x20bc 0 = 0x170 \<and> entry_fde_offset elf_mem 0x20bc 0 = 0x68"
  by code_simp

lemma elf_mem_table: "search_table_at elf_mem 0x20b0 0x2000 0x3000 0x2100 [(0x2118, 0x14, 0x100, 0x40)]"
  using elf_mem_fde by (simp add: search_table_at_def index_table_def fn_start_def fn_end_def)

text \<open>\<open>dwarf_find_unwind_table\<close> finds the search table of a well-formed image: the range it records is that of all the loaded
  segments, relocated to where the text segment is mapped; the table starts twelve bytes behind the relocated header, which is
  the base of its entries, and has as many entries as the header says. It does not depend on the order of the program headers.\<close>

lemma find_unwind_table_correct:
  assumes "table_image fuel m (edi_ei edi) mapoff txt eh n"
  shows "\<exists>gp. dwarf_find_unwind_table fuel m segbase mapoff edi =
    (let load_base = segbase - p_vaddr txt; phs = phdrs m (edi_ei edi) in
     ret True (edi\<lparr>edi_di_cache := (edi_di_cache edi)\<lparr>di_gp := gp, di_start_ip := lowest_vaddr phs + load_base,
       di_end_ip := highest_vaddr phs + load_base, di_format := UNW_INFO_FORMAT_REMOTE_TABLE, di_name_ptr := 0,
       di_table_len := of_nat n, di_table_data := load_base + p_vaddr eh + 12, di_segbase := load_base + p_vaddr eh\<rparr>\<rparr>))"
  using table_found [OF assms] .

text \<open>C21: looking up a function through the search table of an image, end to end: in an image whose table lists the
  FDEs of its functions in order, \<open>dwarf_find_unwind_table\<close> succeeds, and for every address in the range it
  reports \<open>dwarf_search_unwind_table\<close> returns the procedure information of exactly the function that covers the
  address, or \<open>UNW_ENOINFO\<close> when no function does.\<close>

theorem eh_frame_hdr_lookup:
  assumes "table_image fuel m (edi_ei edi) mapoff txt eh (length fs)" "load_base = segbase - p_vaddr txt"
    "lo = lowest_vaddr (phdrs m (edi_ei edi)) + load_base" "hi = highest_vaddr (phdrs m (edi_ei edi)) + load_base"
    "search_table_at m (load_base + p_vaddr eh) lo hi cie fs" "gcc_cie_at m cie cie_len" "3 \<le> fuel"
    "lo \<le> ip" "ip < hi" "pool_alloc pool = Ok (obj, pool')" "obj \<noteq> 0"
  shows "\<exists>edi'. dwarf_find_unwind_table fuel m segbase mapoff edi = ret True edi' \<and>
    di_start_ip (edi_di_cache edi') = lo \<and> di_end_ip (edi_di_cache edi') = hi \<and>
    (case find (fn_covers ip) fs of
       Some f \<Rightarrow> dwarf_search_unwind_table fuel m ip (edi_di_cache edi') need (pi, pool) =
         ret () (fn_proc_info need obj cie cie_len pi f, if need then pool' else pool)
     | None \<Rightarrow> \<exists>s. dwarf_search_unwind_table fuel m ip (edi_di_cache edi') need (pi, pool) = throw UNW_ENOINFO s)"
proof -
  obtain gp where t: "dwarf_find_unwind_table fuel m segbase mapoff edi =
     ret True (edi\<lparr>edi_di_cache := (edi_di_cache edi)\<lparr>di_gp := gp, di_start_ip := lo,
       di_end_ip := hi, di_format := UNW_INFO_FORMAT_REMOTE_TABLE, di_name_ptr := 0,
       di_table_len := of_nat (length fs), di_table_data := load_base + p_vaddr eh + 12, di_segbase := load_base + p_vaddr eh\<rparr>\<rparr>)"
    using table_found [OF assms(1), of segbase] by (auto simp: Let_def assms(2-4))
  let ?di = "(edi_di_cache edi)\<lparr>di_gp := gp, di_start_ip := lo, di_end_ip := hi, di_format := UNW_INFO_FORMAT_REMOTE_TABLE,
      di_name_ptr := 0, di_table_len := of_nat (length fs), di_table_data := load_base + p_vaddr eh + 12,
      di_segbase := load_base + p_vaddr eh\<rparr>"
  have "length fs < 2 ^ 32" using assms(1) by (simp add: table_image_def Let_def eh_frame_hdr_at_def)
  note f = search_unwind_table_fn [OF assms(5-7) this assms(8-11), of ?di need pi]
  show ?thesis unfolding t
    by (rule exI [of _ "edi\<lparr>edi_di_cache := ?di\<rparr>"]) (use f in \<open>simp cong: option.case_cong if_cong\<close>)
qed

theorem eh_frame_hdr_lookup_witness:
  "\<exists>edi'. dwarf_find_unwind_table 3 elf_mem 0x2000 0 elf_edi = ret True edi' \<and>
     dwarf_search_unwind_table 3 elf_mem 0x2230 (edi_di_cache edi') False (zero_proc_info, (env0, pool0)) =
       ret () (fn_proc_info False 0 0x2100 0x14 zero_proc_info (0x2118, 0x14, 0x100, 0x40), (env0, pool0))"
proof -
  obtain obj pool' where p: "pool_alloc (env0, pool0) = Ok (obj, pool')" "obj \<noteq> 0" using pool0_alloc by blast
  have i: "table_image 3 elf_mem (edi_ei elf_edi) 0 elf_txt elf_eh (length [(0x2118, 0x14, 0x100, 0x40) :: table_fn])"
    using elf_mem_image by simp
  have b: "0 = 0x2000 - p_vaddr elf_txt" "0x2000 = lowest_vaddr (phdrs elf_mem (edi_ei elf_edi)) + 0"
    "0x3000 = highest_vaddr (phdrs elf_mem (edi_ei elf_edi)) + 0"
    by (simp_all add: elf_mem_phdrs elf_mem_bounds) (simp add: elf_txt_def)
  have t: "search_table_at elf_mem (0 + p_vaddr elf_eh) 0x2000 0x3000 0x2100 [(0x2118, 0x14, 0x100, 0x40)]"
    using elf_mem_table by (simp add: elf_eh_def)
  have c: "gcc_cie_at elf_mem 0x2100 0x14" using elf_mem_fde by blast
  have f: "find (fn_covers 0x2230) [(0x2118, 0x14, 0x100, 0x40)] = Some (0x2118, 0x14, 0x100, 0x40)"
    by (simp add: fn_covers_def fn_start_def fn_end_def)
  show ?thesis
    using eh_frame_hdr_lookup [OF i b t c _ _ _ p, of "0x2230" False zero_proc_info] unfolding f
    by (auto simp: fn_proc_info_def)
qed

end
