(* ===== verification/Elf_Symbol.thy ===== *)
theory Elf_Symbol
  imports Elf_Image
begin

text \<open>
  The lookup of the symbol closest to an address in an ELF image (\<^verbatim>\<open>elfxx.c\<close>). The loops over symbols and the characters of a
  name, which a malformed image can make endless, have \<open>fuel\<close>. The lookup is proved to return the closest function.
\<close>

section \<open>Symbols\<close>

text \<open>A product of two integers of type \<open>int\<close>; an overflow is undefined.\<close>

definition int_mult :: "int \<Rightarrow> int \<Rightarrow> u64 outcome" where
  "int_mult a b = defined (- (2 ^ 31) \<le> a * b \<and> a * b < 2 ^ 31) (Ok (of_int (a * b)))"

text \<open>The address of the section headers, or \<open>None\<close> when they are not in the image.\<close>

definition section_table :: "memory \<Rightarrow> elf_image \<Rightarrow> addr option outcome" where
  "section_table m ei =
     (let a = ei_image ei; soff = e_shoff m a in
      obind (int_mult (uint (e_shnum m a)) (uint (e_shentsize m a))) (\<lambda>sz.
      Ok (if soff + sz > ei_size ei then None else Some (a + soff))))"

definition string_table :: "memory \<Rightarrow> elf_image \<Rightarrow> int \<Rightarrow> addr option outcome" where
  "string_table m ei sect =
     (let a = ei_image ei in
      obind (int_mult sect (uint (e_shentsize m a))) (\<lambda>off.
      let str_soff = e_shoff m a + off in
      Ok (if str_soff + ucast (e_shentsize m a) > ei_size ei then None
          else
            (let sh = Shdr_at m (a + str_soff) in
             if sh_offset sh + sh_size sh > ei_size ei then None else Some (a + sh_offset sh)))))"

text \<open>\<open>strlen\<close> and \<open>strncpy\<close>.\<close>

primrec strlen :: "nat \<Rightarrow> memory \<Rightarrow> addr \<Rightarrow> nat outcome" where
  "strlen 0 m a = Diverge"
| "strlen (Suc fuel) m a = (if m a = 0 then Ok 0 else obind (strlen fuel m (a + 1)) (\<lambda>n. Ok (Suc n)))"

primrec strncpy :: "nat \<Rightarrow> memory \<Rightarrow> addr \<Rightarrow> u8 list" where
  "strncpy 0 m a = []"
| "strncpy (Suc n) m a = (if m a = 0 then replicate (Suc n) 0 else m a # strncpy n m (a + 1))"

text \<open>What the lookup changes: the least distance, the buffer, and the value it will return.\<close>

record sym_state =
  sy_min_dist :: u64
  sy_buf :: "u8 list"
  sy_ret :: "unit reply"

text \<open>The body of the loop over the symbols of a section; \<open>buf_len\<close> is the length of the buffer.\<close>

definition sym_val :: "u64 \<Rightarrow> Elf64_Sym \<Rightarrow> u64" where
  "sym_val load_offset symb = (if st_shndx symb \<noteq> 0xfff1 then st_value symb + load_offset else st_value symb)"

definition is_func :: "Elf64_Sym \<Rightarrow> bool" where
  "is_func symb = (st_info symb AND 0xf = 2 \<and> st_shndx symb \<noteq> 0)"

definition visit_symbol :: "nat \<Rightarrow> memory \<Rightarrow> u64 \<Rightarrow> u64 \<Rightarrow> addr \<Rightarrow> Elf64_Sym \<Rightarrow> sym_state \<Rightarrow> sym_state outcome" where
  "visit_symbol fuel m ip load_offset strtab symb s =
     (let dist = ip - sym_val load_offset symb; name = strtab + ucast (st_name symb); buf_len = length (sy_buf s) in
      if \<not> is_func symb \<or> \<not> dist < sy_min_dist s then Ok s
      else
        defined (0 < buf_len)
          (obind (strlen fuel m name) (\<lambda>n.
           Ok \<lparr>sy_min_dist = dist, sy_buf = (strncpy buf_len m name)[buf_len - 1 := 0],
               sy_ret = (if n \<ge> buf_len then Err UNW_ENOMEM else Ret ())\<rparr>)))"

primrec symbol_loop ::
  "nat \<Rightarrow> nat \<Rightarrow> memory \<Rightarrow> u64 \<Rightarrow> u64 \<Rightarrow> addr \<Rightarrow> u64 \<Rightarrow> addr \<Rightarrow> addr \<Rightarrow> sym_state \<Rightarrow> sym_state outcome" where
  "symbol_loop 0 fuel m ip load_offset strtab syment_size symb symtab_end s = Diverge"
| "symbol_loop (Suc n) fuel m ip load_offset strtab syment_size symb symtab_end s =
     (if \<not> symb < symtab_end then Ok s
      else
        obind (visit_symbol fuel m ip load_offset strtab (Sym_at m symb) s)
          (symbol_loop n fuel m ip load_offset strtab syment_size (symb + syment_size) symtab_end))"

text \<open>One section: only symbol tables (\<open>SHT_SYMTAB\<close>, \<open>SHT_DYNSYM\<close>) with a string table are searched.\<close>

definition visit_section :: "nat \<Rightarrow> memory \<Rightarrow> elf_image \<Rightarrow> u64 \<Rightarrow> u64 \<Rightarrow> Elf64_Shdr \<Rightarrow> sym_state \<Rightarrow> sym_state outcome" where
  "visit_section fuel m ei ip load_offset sh s =
     (if sh_type sh \<noteq> 2 \<and> sh_type sh \<noteq> 11 then Ok s
      else
        obind (string_table m ei (sint (sh_link sh))) (\<lambda>strtab.
        case strtab of
          None \<Rightarrow> Ok s
        | Some strtab \<Rightarrow>
            (let symtab = ei_image ei + sh_offset sh in
             symbol_loop fuel fuel m ip load_offset strtab (sh_entsize sh) symtab (symtab + sh_size sh) s)))"

primrec section_loop ::
  "nat \<Rightarrow> memory \<Rightarrow> elf_image \<Rightarrow> u64 \<Rightarrow> u64 \<Rightarrow> nat \<Rightarrow> addr \<Rightarrow> sym_state \<Rightarrow> sym_state outcome" where
  "section_loop fuel m ei ip load_offset 0 shdr s = Ok s"
| "section_loop fuel m ei ip load_offset (Suc n) shdr s =
     obind (visit_section fuel m ei ip load_offset (Shdr_at m shdr) s)
       (section_loop fuel m ei ip load_offset n (shdr + ucast (e_shentsize m (ei_image ei))))"

definition lookup_symbol :: "nat \<Rightarrow> memory \<Rightarrow> u64 \<Rightarrow> elf_image \<Rightarrow> u64 \<Rightarrow> u64 \<times> u8 list \<Rightarrow> sym_state outcome" where
  "lookup_symbol fuel m ip ei load_offset = (\<lambda>(min_dist, buf).
     let s = \<lparr>sy_min_dist = min_dist, sy_buf = buf, sy_ret = Err UNW_ENOINFO\<rparr> in
     if \<not> valid_object m ei then Ok s
     else
       obind (section_table m ei) (\<lambda>shdr.
       case shdr of
         None \<Rightarrow> Ok s
       | Some shdr \<Rightarrow> section_loop fuel m ei ip load_offset (unat (e_shnum m (ei_image ei))) shdr s))"

definition get_load_offset :: "memory \<Rightarrow> elf_image \<Rightarrow> u64 \<Rightarrow> u64 \<Rightarrow> u64" where
  "get_load_offset m ei segbase mapoff =
     (case List.find (\<lambda>ph. p_type ph = PT_LOAD \<and> p_offset ph = mapoff) (phdrs m ei) of
        Some ph \<Rightarrow> segbase - p_vaddr ph
      | None \<Rightarrow> 0)"

text \<open>There is no decompression, so \<open>extract_minidebuginfo\<close> fails. The reply and, if it was stored, the offset.\<close>

definition get_proc_name_in_image ::
  "nat \<Rightarrow> memory \<Rightarrow> elf_image \<Rightarrow> u64 \<Rightarrow> u64 \<Rightarrow> u64 \<Rightarrow> u8 list \<Rightarrow> (unit reply \<times> u64 option \<times> u8 list) outcome" where
  "get_proc_name_in_image fuel m ei segbase mapoff ip buf =
     obind (lookup_symbol fuel m ip ei (get_load_offset m ei segbase mapoff) (- 1, buf)) (\<lambda>s.
     Ok (if sy_min_dist s \<ge> ei_size ei then (Err UNW_ENOINFO, None, sy_buf s)
         else (sy_ret s, Some (sy_min_dist s), sy_buf s)))"

section \<open>Names\<close>

text \<open>The characters of a name of length \<open>n\<close>, and the name as it is stored in a buffer.\<close>

definition cstring :: "memory \<Rightarrow> addr \<Rightarrow> nat \<Rightarrow> u8 list" where
  "cstring m a n = map (\<lambda>i. m (a + of_nat i)) [0..<n]"

definition in_buffer :: "nat \<Rightarrow> u8 list \<Rightarrow> u8 list" where
  "in_buffer buf_len name = (let kept = take (buf_len - 1) name in kept @ replicate (buf_len - length kept) 0)"

lemma cstring_Suc: "cstring m a (Suc n) = m a # cstring m (a + 1) n"
  by (simp add: cstring_def upt_conv_Cons map_Suc_upt [symmetric] comp_def add.assoc del: upt_Suc)

lemma cstring_length [simp]: "length (cstring m a n) = n"
  by (simp add: cstring_def)

lemma strncpy_cstring:
  "strlen fuel m a = Ok n \<Longrightarrow> strncpy k m a = take k (cstring m a n) @ replicate (k - n) 0"
proof (induction fuel arbitrary: a n k)
  case (Suc fuel)
  show ?case
  proof (cases "m a = 0")
    case True
    then show ?thesis using Suc.prems by (cases k) (auto simp: cstring_def)
  next
    case False
    then obtain j where "strlen fuel m (a + 1) = Ok j" "n = Suc j" using Suc.prems by auto
    then show ?thesis using Suc.IH [of "a + 1" j] False by (cases k) (simp_all add: cstring_Suc)
  qed
qed simp

lemma strncpy_buffer:
  assumes "strlen fuel m a = Ok n" "0 < k"
  shows "(strncpy k m a)[k - 1 := 0] = in_buffer k (cstring m a n)"
proof (cases "n < k")
  case True
  then have "\<not> k - 1 < n" by simp
  with True have "(take k (cstring m a n) @ replicate (k - n) 0)[k - 1 := 0] = cstring m a n @ (replicate (k - n) 0)[k - 1 - n := 0]"
    by (simp add: list_update_append)
  also have "(replicate (k - n) 0 :: u8 list)[k - 1 - n := 0] = replicate (k - n) 0"
    by (rule nth_equalityI) (auto simp: nth_list_update)
  finally show ?thesis using True strncpy_cstring [OF assms(1), of k] by (simp add: in_buffer_def Let_def)
next
  case False
  obtain j where j: "k = Suc j" using assms(2) by (cases k) auto
  then have "take k (cstring m a n) = take j (cstring m a n) @ [cstring m a n ! j]"
    using False by (simp add: take_Suc_conv_app_nth)
  then have "(take k (cstring m a n))[k - 1 := 0] = take j (cstring m a n) @ [0]"
    using False j by (simp add: list_update_append)
  then show ?thesis using False j strncpy_cstring [OF assms(1), of k] by (simp add: in_buffer_def Let_def min_def)
qed

section \<open>The symbols that are visited\<close>

text \<open>Visiting a list of symbols, each with the address of its string table.\<close>

primrec visit_all :: "nat \<Rightarrow> memory \<Rightarrow> u64 \<Rightarrow> u64 \<Rightarrow> (addr \<times> Elf64_Sym) list \<Rightarrow> sym_state \<Rightarrow> sym_state outcome" where
  "visit_all fuel m ip load_offset [] s = Ok s"
| "visit_all fuel m ip load_offset (x # xs) s =
     obind (visit_symbol fuel m ip load_offset (fst x) (snd x) s) (visit_all fuel m ip load_offset xs)"

lemma visit_all_append:
  "visit_all fuel m ip load_offset (xs @ ys) s =
   obind (visit_all fuel m ip load_offset xs s) (visit_all fuel m ip load_offset ys)"
  by (induction xs arbitrary: s) (auto simp: obind_assoc intro!: obind_cong)

definition sym_count :: "Elf64_Shdr \<Rightarrow> nat" where
  "sym_count sh = (unat (sh_size sh) + unat (sh_entsize sh) - 1) div unat (sh_entsize sh)"

definition section_syms :: "memory \<Rightarrow> elf_image \<Rightarrow> Elf64_Shdr \<Rightarrow> (addr \<times> Elf64_Sym) list" where
  "section_syms m ei sh =
     (if sh_type sh \<noteq> 2 \<and> sh_type sh \<noteq> 11 then []
      else case string_table m ei (sint (sh_link sh)) of
        Ok (Some strtab) \<Rightarrow>
          map (\<lambda>i. (strtab, Sym_at m (ei_image ei + sh_offset sh + of_nat i * sh_entsize sh))) [0..<sym_count sh]
      | _ \<Rightarrow> [])"

text \<open>A section that can be walked: its string table can be looked up, its entries have a size and do not wrap around.\<close>

definition section_ok :: "nat \<Rightarrow> memory \<Rightarrow> elf_image \<Rightarrow> Elf64_Shdr \<Rightarrow> bool" where
  "section_ok fuel m ei sh = (sh_type sh = 2 \<or> sh_type sh = 11 \<longrightarrow>
     is_Ok (string_table m ei (sint (sh_link sh))) \<and> 0 < sh_entsize sh \<and> sym_count sh < fuel \<and>
     unat (ei_image ei + sh_offset sh) + unat (sh_size sh) + unat (sh_entsize sh) < 2 ^ 64)"

lemma symbol_loop_visits:
  assumes b: "0 < e" "unat b + unat z + unat e < 2 ^ 64" "c = (unat z + unat e - 1) div unat e"
  shows "j \<le> c \<Longrightarrow> c - j < n \<Longrightarrow>
    symbol_loop n fuel m ip load_offset strtab e (b + of_nat j * e) (b + z) s =
    visit_all fuel m ip load_offset (map (\<lambda>i. (strtab, Sym_at m (b + of_nat i * e))) [j..<c]) s"
proof (induction n arbitrary: j s)
  case (Suc n)
  have e: "0 < unat e" using b(1) by (simp add: word_less_nat_alt)
  have ub: "j * unat e < unat z + unat e"
  proof -
    have "j * unat e \<le> c * unat e" using Suc.prems(1) by (rule mult_le_mono1)
    also have "\<dots> \<le> unat z + unat e - 1" by (simp add: b(3))
    finally show ?thesis using e by simp
  qed
  moreover have "j \<le> j * unat e" using e by simp
  ultimately have "j < 2 ^ 64" using b(2) by linarith
  then have u: "unat (of_nat j * e) = j * unat e" "unat (b + of_nat j * e) = unat b + j * unat e" "unat (b + z) = unat b + unat z"
    using b(2) ub by (simp_all add: unat_word_ariths unat_of_nat take_bit_nat_eq_self)
  have "(b + of_nat j * e < b + z) = (j * unat e < unat z)" by (simp add: word_less_nat_alt u)
  also have "\<dots> = (j < c)" using e by (simp add: b(3) less_eq_Suc_le [of j] less_eq_div_iff_mult_less_eq) linarith
  finally have lt: "(b + of_nat j * e < b + z) = (j < c)" .
  show ?case
  proof (cases "j < c")
    case True
    have a: "b + of_nat j * e + e = b + of_nat (Suc j) * e" by (simp add: algebra_simps)
    have "symbol_loop n fuel m ip load_offset strtab e (b + of_nat (Suc j) * e) (b + z) =
        visit_all fuel m ip load_offset (map (\<lambda>i. (strtab, Sym_at m (b + of_nat i * e))) [Suc j..<c])"
      using True Suc.prems by (intro ext Suc.IH) simp_all
    then show ?thesis using True lt by (simp add: a upt_conv_Cons del: of_nat_Suc)
  next
    case False
    then show ?thesis using Suc.prems lt by simp
  qed
qed simp

lemma visit_section_visits:
  assumes "section_ok fuel m ei sh"
  shows "visit_section fuel m ei ip load_offset sh s = visit_all fuel m ip load_offset (section_syms m ei sh) s"
proof (cases "sh_type sh = 2 \<or> sh_type sh = 11")
  case True
  then obtain r where r: "string_table m ei (sint (sh_link sh)) = Ok r"
    and ok: "0 < sh_entsize sh" "sym_count sh < fuel"
      "unat (ei_image ei + sh_offset sh) + unat (sh_size sh) + unat (sh_entsize sh) < 2 ^ 64"
    using assms by (auto simp: section_ok_def is_Ok_def)
  show ?thesis
  proof (cases r)
    case None
    then show ?thesis using True r by (auto simp: visit_section_def section_syms_def)
  next
    case (Some strtab)
    then show ?thesis using True r symbol_loop_visits [OF ok(1,3) sym_count_def, of 0 fuel] ok(2)
      by (auto simp: visit_section_def section_syms_def Let_def)
  qed
qed (auto simp: visit_section_def section_syms_def)

definition image_sections :: "memory \<Rightarrow> elf_image \<Rightarrow> Elf64_Shdr list" where
  "image_sections m ei = (let a = ei_image ei in
     map (\<lambda>i. Shdr_at m (a + e_shoff m a + of_nat i * ucast (e_shentsize m a))) [0..<unat (e_shnum m a)])"

lemma section_loop_visits:
  assumes "\<forall>i<n. section_ok fuel m ei (Shdr_at m (b + of_nat i * e))" "e = ucast (e_shentsize m (ei_image ei))"
  shows "section_loop fuel m ei ip load_offset n b s =
    visit_all fuel m ip load_offset (concat (map (\<lambda>i. section_syms m ei (Shdr_at m (b + of_nat i * e))) [0..<n])) s"
  using assms(1)
proof (induction n arbitrary: b s)
  case (Suc n)
  have b: "b + of_nat (Suc i) * e = b + e + of_nat i * e" for i by (simp add: algebra_simps)
  have ok: "section_ok fuel m ei (Shdr_at m b)" "\<forall>i<n. section_ok fuel m ei (Shdr_at m (b + e + of_nat i * e))"
    using Suc.prems [rule_format, of 0] Suc.prems [rule_format, of "Suc _"] by (simp_all add: b del: of_nat_Suc)
  have l: "map (\<lambda>i. section_syms m ei (Shdr_at m (b + of_nat i * e))) [0..<Suc n] =
      section_syms m ei (Shdr_at m b) # map (\<lambda>i. section_syms m ei (Shdr_at m (b + e + of_nat i * e))) [0..<n]"
    by (simp add: upt_conv_Cons map_Suc_upt [symmetric] comp_def b del: upt_Suc of_nat_Suc)
  show ?case unfolding l using Suc.IH [OF ok(2)]
    by (auto simp: visit_all_append visit_section_visits [OF ok(1)] assms(2) [symmetric] intro!: obind_cong)
qed simp

text \<open>The functions of an image, each with the address of its string table.\<close>

definition image_functions :: "memory \<Rightarrow> elf_image \<Rightarrow> (addr \<times> Elf64_Sym) list" where
  "image_functions m ei = filter (is_func \<circ> snd) (concat (map (section_syms m ei) (image_sections m ei)))"

lemma visit_all_functions:
  "visit_all fuel m ip load_offset xs s = visit_all fuel m ip load_offset (filter (is_func \<circ> snd) xs) s"
  by (induction xs arbitrary: s) (auto simp: visit_symbol_def Let_def intro!: obind_cong)

section \<open>The closest function\<close>

definition name_addr :: "addr \<times> Elf64_Sym \<Rightarrow> addr" where
  "name_addr x = fst x + ucast (st_name (snd x))"

definition distance :: "u64 \<Rightarrow> u64 \<Rightarrow> addr \<times> Elf64_Sym \<Rightarrow> u64" where
  "distance ip load_offset x = ip - sym_val load_offset (snd x)"

definition found_symbol :: "memory \<Rightarrow> u64 \<Rightarrow> u64 \<Rightarrow> (addr \<Rightarrow> nat) \<Rightarrow> nat \<Rightarrow> addr \<times> Elf64_Sym \<Rightarrow> sym_state" where
  "found_symbol m ip load_offset len buf_len x =
     \<lparr>sy_min_dist = distance ip load_offset x, sy_buf = in_buffer buf_len (cstring m (name_addr x) (len (name_addr x))),
      sy_ret = (if len (name_addr x) \<ge> buf_len then Err UNW_ENOMEM else Ret ())\<rparr>"

text \<open>What is known after some functions were visited: the closest of them, if it is closer than the start value.\<close>

definition closest :: "(('a \<Rightarrow> u64) \<Rightarrow> u64 \<Rightarrow> 'a set \<Rightarrow> 'a option \<Rightarrow> bool)" where
  "closest d bound xs r = (case r of
      None \<Rightarrow> \<forall>x\<in>xs. bound \<le> d x
    | Some x \<Rightarrow> x \<in> xs \<and> d x < bound \<and> (\<forall>y\<in>xs. d x \<le> d y))"

lemma visit_all_closest:
  assumes "\<forall>x\<in>set xs. is_func (snd x) \<and> strlen fuel m (name_addr x) = Ok (len (name_addr x))"
    "0 < length buf" "s0 = \<lparr>sy_min_dist = bound, sy_buf = buf, sy_ret = Err UNW_ENOINFO\<rparr>"
  shows "\<exists>r. closest (distance ip load_offset) bound (set xs) r \<and>
    visit_all fuel m ip load_offset xs s0 =
      Ok (case r of None \<Rightarrow> s0 | Some x \<Rightarrow> found_symbol m ip load_offset len (length buf) x)"
  using assms(1)
proof (induction xs rule: rev_induct)
  case (snoc x xs)
  let ?d = "distance ip load_offset" and ?f = "found_symbol m ip load_offset len (length buf)"
  obtain r where r: "closest ?d bound (set xs) r"
    "visit_all fuel m ip load_offset xs s0 = Ok (case r of None \<Rightarrow> s0 | Some x \<Rightarrow> ?f x)"
    using snoc by auto
  let ?s = "case r of None \<Rightarrow> s0 | Some x \<Rightarrow> ?f x"
  have x: "is_func (snd x)" "strlen fuel m (name_addr x) = Ok (len (name_addr x))" using snoc.prems by simp_all
  have l: "length (sy_buf ?s) = length buf"
    using assms(2,3) by (auto simp: found_symbol_def in_buffer_def Let_def min_def split: option.splits)
  have v: "visit_symbol fuel m ip load_offset (fst x) (snd x) ?s = Ok (if ?d x < sy_min_dist ?s then ?f x else ?s)"
    using x l assms(2) strncpy_buffer [OF x(2) assms(2)]
    by (simp add: visit_symbol_def Let_def distance_def found_symbol_def name_addr_def)
  have md: "sy_min_dist ?s = (case r of None \<Rightarrow> bound | Some y \<Rightarrow> ?d y)"
    using assms(3) by (simp add: found_symbol_def split: option.splits)
  show ?case
  proof (cases "?d x < sy_min_dist ?s")
    case True
    then have "closest ?d bound (set (xs @ [x])) (Some x)"
      using r(1) md by (auto simp: closest_def split: option.splits intro: less_imp_le order_trans less_trans)
    then show ?thesis using True r(2) v by (auto simp: visit_all_append intro!: exI [of _ "Some x"])
  next
    case False
    then have "closest ?d bound (set (xs @ [x])) r" using r(1) md by (auto simp: closest_def split: option.splits)
    then show ?thesis using False r(2) v by (auto simp: visit_all_append intro!: exI [of _ r])
  qed
qed (auto simp: closest_def intro!: exI [of _ None])

text \<open>
  An image whose symbols can be read: the section headers are inside, the sections can be walked, and \<open>len\<close> gives the length of the name of
  every function, which ends within \<open>fuel\<close> characters.
\<close>

definition symbol_image :: "nat \<Rightarrow> memory \<Rightarrow> elf_image \<Rightarrow> (addr \<Rightarrow> nat) \<Rightarrow> bool" where
  "symbol_image fuel m ei len = (valid_object m ei \<and> section_table m ei = Ok (Some (ei_image ei + e_shoff m (ei_image ei))) \<and>
     (\<forall>sh\<in>set (image_sections m ei). section_ok fuel m ei sh) \<and>
     (\<forall>x\<in>set (image_functions m ei). strlen fuel m (name_addr x) = Ok (len (name_addr x))))"

lemma lookup_symbol_closest:
  assumes "symbol_image fuel m ei len" "0 < length buf" "s0 = \<lparr>sy_min_dist = bound, sy_buf = buf, sy_ret = Err UNW_ENOINFO\<rparr>"
  shows "\<exists>r. closest (distance ip load_offset) bound (set (image_functions m ei)) r \<and>
    lookup_symbol fuel m ip ei load_offset (bound, buf) =
      Ok (case r of None \<Rightarrow> s0 | Some x \<Rightarrow> found_symbol m ip load_offset len (length buf) x)"
proof -
  let ?a = "ei_image ei" and ?xs = "image_functions m ei"
  have im: "valid_object m ei" "section_table m ei = Ok (Some (?a + e_shoff m ?a))"
    "\<forall>sh\<in>set (image_sections m ei). section_ok fuel m ei sh"
    "\<forall>x\<in>set ?xs. strlen fuel m (name_addr x) = Ok (len (name_addr x))"
    using assms(1) by (simp_all add: symbol_image_def)
  have "section_loop fuel m ei ip load_offset (unat (e_shnum m ?a)) (?a + e_shoff m ?a) s0 =
      visit_all fuel m ip load_offset (concat (map (section_syms m ei) (image_sections m ei))) s0"
    using im(3) by (subst section_loop_visits [OF _ refl]) (auto simp: image_sections_def Let_def comp_def)
  then have "lookup_symbol fuel m ip ei load_offset (bound, buf) = visit_all fuel m ip load_offset ?xs s0"
    using im(1,2) visit_all_functions [of fuel m ip load_offset "concat (map (section_syms m ei) (image_sections m ei))" s0]
    by (simp add: lookup_symbol_def image_functions_def assms(3))
  moreover have "\<forall>x\<in>set ?xs. is_func (snd x) \<and> strlen fuel m (name_addr x) = Ok (len (name_addr x))"
    using im(4) by (auto simp: image_functions_def)
  ultimately show ?thesis using visit_all_closest [OF _ assms(2,3), of ?xs fuel m len ip load_offset] by simp
qed

text \<open>An image at \<open>0x4000\<close> with the functions \<open>f\<close> at \<open>0x100\<close> and \<open>g\<close> at \<open>0x200\<close>.\<close>

definition sym_bytes :: "u8 list" where
  "sym_bytes = [
      0x7f, 0x45, 0x4c, 0x46, 2, 1, 1, 0, 0, 0, 0, 0, 0, 0, 0, 0,
      2, 0, 0x3e, 0, 1, 0, 0, 0, 0, 0, 0, 0, 0, 0, 0, 0,
      0x40, 0, 0, 0, 0, 0, 0, 0, 0x40, 0, 0, 0, 0, 0, 0, 0,
      0, 0, 0, 0, 0x40, 0, 0x38, 0, 0, 0, 0x40, 0, 2, 0, 0, 0,
      0, 0, 0, 0, 2, 0, 0, 0, 0, 0, 0, 0, 0, 0, 0, 0,
      0, 0, 0, 0, 0, 0, 0, 0, 0xc0, 0, 0, 0, 0, 0, 0, 0,
      0x30, 0, 0, 0, 0, 0, 0, 0, 1, 0, 0, 0, 0, 0, 0, 0,
      8, 0, 0, 0, 0, 0, 0, 0, 0x18, 0, 0, 0, 0, 0, 0, 0,
      0, 0, 0, 0, 3, 0, 0, 0, 0, 0, 0, 0, 0, 0, 0, 0,
      0, 0, 0, 0, 0, 0, 0, 0, 0xf0, 0, 0, 0, 0, 0, 0, 0,
      5, 0, 0, 0, 0, 0, 0, 0, 0, 0, 0, 0, 0, 0, 0, 0,
      1, 0, 0, 0, 0, 0, 0, 0, 0, 0, 0, 0, 0, 0, 0, 0,
      1, 0, 0, 0, 2, 0, 1, 0, 0, 1, 0, 0, 0, 0, 0, 0,
      0x40, 0, 0, 0, 0, 0, 0, 0, 3, 0, 0, 0, 2, 0, 1, 0,
      0, 2, 0, 0, 0, 0, 0, 0, 0x40, 0, 0, 0, 0, 0, 0, 0,
      0, 0x66, 0, 0x67, 0]"

definition sym_mem :: memory where
  "sym_mem x = (let i = unat (x - 0x4000) in if i < length sym_bytes then sym_bytes ! i else 0)"

definition sym_ei :: elf_image where "sym_ei = \<lparr>ei_image = 0x4000, ei_size = 0x1000\<rparr>"

definition sym_tab :: Elf64_Shdr where
  "sym_tab = \<lparr>sh_type = 2, sh_offset = 0xc0, sh_size = 48, sh_link = 1, sh_entsize = 24\<rparr>"

definition sym_str :: Elf64_Shdr where
  "sym_str = \<lparr>sh_type = 3, sh_offset = 0xf0, sh_size = 5, sh_link = 0, sh_entsize = 0\<rparr>"

definition sym_f :: Elf64_Sym where "sym_f = \<lparr>st_name = 1, st_info = 2, st_shndx = 1, st_value = 0x100\<rparr>"
definition sym_g :: Elf64_Sym where "sym_g = \<lparr>st_name = 3, st_info = 2, st_shndx = 1, st_value = 0x200\<rparr>"

lemma sym_mem_valid: "valid_object sym_mem sym_ei \<and> section_table sym_mem sym_ei = Ok (Some 0x4040) \<and> e_shoff sym_mem 0x4000 = 0x40"
  by code_simp

lemma sym_mem_tab: "Shdr_at sym_mem 0x4040 = sym_tab" by code_simp
lemma sym_mem_str: "Shdr_at sym_mem 0x4080 = sym_str" by code_simp
lemma sym_mem_ehdr: "e_shnum sym_mem 0x4000 = 2 \<and> e_shentsize sym_mem 0x4000 = 64" by code_simp
lemma sym_mem_strings: "string_table sym_mem sym_ei 1 = Ok (Some 0x40f0)" by code_simp
lemma sym_mem_f: "Sym_at sym_mem 0x40c0 = sym_f" by code_simp
lemma sym_mem_g: "Sym_at sym_mem 0x40d8 = sym_g" by code_simp

lemma sym_mem_sections: "image_sections sym_mem sym_ei = [sym_tab, sym_str]"
proof -
  have "[0..<unat (2 :: u16)] = [0, 1]" by code_simp
  then show ?thesis using sym_mem_valid sym_mem_ehdr by (simp add: image_sections_def sym_ei_def sym_mem_tab sym_mem_str)
qed

lemma sym_fields [simp]: "sh_type sym_tab = 2" "sh_offset sym_tab = 0xc0" "sh_size sym_tab = 48" "sh_link sym_tab = 1"
  "sh_entsize sym_tab = 24" "ei_image sym_ei = 0x4000" "ei_size sym_ei = 0x1000"
  by (simp_all add: sym_tab_def sym_ei_def)

lemma sym_mem_functions: "image_functions sym_mem sym_ei = [(0x40f0, sym_f), (0x40f0, sym_g)]"
proof -
  have n: "[0..<sym_count sym_tab] = [0, 1]" by code_simp
  have "section_syms sym_mem sym_ei sym_tab = [(0x40f0, sym_f), (0x40f0, sym_g)]"
    using sym_mem_strings by (simp add: section_syms_def n sym_mem_f sym_mem_g)
  moreover have "section_syms sym_mem sym_ei sym_str = []" by (simp add: section_syms_def sym_str_def)
  ultimately show ?thesis by (simp add: image_functions_def sym_mem_sections) (simp add: is_func_def sym_f_def sym_g_def)
qed

lemma sym_mem_names: "strlen 4 sym_mem 0x40f1 = Ok 1 \<and> strlen 4 sym_mem 0x40f3 = Ok 1 \<and> cstring sym_mem 0x40f3 1 = [0x67]"
  by code_simp

lemma sym_mem_image: "symbol_image 4 sym_mem sym_ei (\<lambda>_. 1)"
proof -
  have "section_ok 4 sym_mem sym_ei sym_tab" "section_ok 4 sym_mem sym_ei sym_str"
    using sym_mem_strings by (simp_all add: section_ok_def sym_tab_def sym_str_def sym_ei_def is_Ok_def sym_count_def)
  moreover have "valid_object sym_mem sym_ei" "section_table sym_mem sym_ei = Ok (Some (ei_image sym_ei + e_shoff sym_mem (ei_image sym_ei)))"
    using sym_mem_valid by (simp_all add: sym_ei_def)
  moreover have "\<forall>x\<in>set (image_functions sym_mem sym_ei). strlen 4 sym_mem (name_addr x) = Ok 1"
    using sym_mem_names by (simp add: sym_mem_functions name_addr_def sym_f_def sym_g_def)
  ultimately show ?thesis by (simp add: symbol_image_def sym_mem_sections)
qed

lemma sym_mem_load_offset: "get_load_offset sym_mem sym_ei 0 0 = 0"
  by code_simp

section \<open>Property\<close>

text \<open>C22: \<open>get_proc_name_in_image\<close> names the closest function: when a function of the image starts at most the size of the image
  before the address, the reply is the name of a function with the least distance, zero-padded in the buffer, with
  that distance; a name that does not fit is cut off and reported as \<open>UNW_ENOMEM\<close>; and when there is no such function, the
  reply is \<open>UNW_ENOINFO\<close>. All symbol tables of the image are searched.\<close>

theorem proc_name_closest:
  assumes "symbol_image fuel m ei len" "0 < length buf" "d = distance ip (get_load_offset m ei segbase mapoff)"
    "fns = set (image_functions m ei)"
  shows "if \<exists>x\<in>fns. d x < ei_size ei
    then \<exists>x\<in>fns. (\<forall>y\<in>fns. d x \<le> d y) \<and>
      (let n = len (name_addr x) in
       get_proc_name_in_image fuel m ei segbase mapoff ip buf =
         Ok (if n \<ge> length buf then Err UNW_ENOMEM else Ret (), Some (d x), in_buffer (length buf) (cstring m (name_addr x) n)))
    else \<exists>buf'. get_proc_name_in_image fuel m ei segbase mapoff ip buf = Ok (Err UNW_ENOINFO, None, buf')"
proof -
  obtain r where r: "closest d (- 1) fns r" "lookup_symbol fuel m ip ei (get_load_offset m ei segbase mapoff) (- 1, buf) =
      Ok (case r of None \<Rightarrow> \<lparr>sy_min_dist = - 1, sy_buf = buf, sy_ret = Err UNW_ENOINFO\<rparr>
          | Some x \<Rightarrow> found_symbol m ip (get_load_offset m ei segbase mapoff) len (length buf) x)"
    using lookup_symbol_closest [OF assms(1,2) refl, of ip "get_load_offset m ei segbase mapoff" "- 1"] assms(3,4) by blast
  show ?thesis
  proof (cases r)
    case None
    then have "\<forall>x\<in>fns. d x = - 1" using r(1) by (simp add: closest_def word_order.extremum_unique)
    then show ?thesis using r(2) None by (auto simp: get_proc_name_in_image_def not_less)
  next
    case (Some x)
    have "(\<exists>y\<in>fns. d y < ei_size ei) = (d x < ei_size ei)"
      using r(1) Some by (auto simp: closest_def intro: le_less_trans)
    moreover have "x \<in> fns" "\<forall>y\<in>fns. d x \<le> d y" using r(1) Some by (simp_all add: closest_def)
    ultimately show ?thesis using r(2) Some
      by (auto simp: get_proc_name_in_image_def found_symbol_def assms(3) [symmetric] not_less not_le Let_def)
  qed
qed

theorem proc_name_closest_witness:
  "get_proc_name_in_image 4 sym_mem sym_ei 0 0 0x210 [0, 0, 0] = Ok (Ret (), Some 0x10, [0x67, 0, 0])"
proof -
  let ?d = "distance 0x210 0"
  have d: "?d (0x40f0, sym_f) = 0x110" "?d (0x40f0, sym_g) = 0x10" by (simp_all add: distance_def sym_val_def sym_f_def sym_g_def)
  have g: "name_addr (0x40f0, sym_g) = 0x40f3" by (simp add: name_addr_def sym_g_def)
  have "if \<exists>x\<in>set (image_functions sym_mem sym_ei). ?d x < ei_size sym_ei
    then \<exists>x\<in>set (image_functions sym_mem sym_ei). (\<forall>y\<in>set (image_functions sym_mem sym_ei). ?d x \<le> ?d y) \<and>
      (let n = 1 in get_proc_name_in_image 4 sym_mem sym_ei 0 0 0x210 [0, 0, 0] =
         Ok (if n \<ge> length [0 :: u8, 0, 0] then Err UNW_ENOMEM else Ret (), Some (?d x), in_buffer (length [0 :: u8, 0, 0]) (cstring sym_mem (name_addr x) n)))
    else \<exists>buf'. get_proc_name_in_image 4 sym_mem sym_ei 0 0 0x210 [0, 0, 0] = Ok (Err UNW_ENOINFO, None, buf')"
    by (rule proc_name_closest [OF sym_mem_image]) (simp_all add: sym_mem_load_offset)
  then show ?thesis using sym_mem_names by (simp add: sym_mem_functions d g in_buffer_def)
qed

end
