(* ===== verification/Elf_Process.thy ===== *)
theory Elf_Process
  imports Elf_Symbol
begin

text \<open>
  The image of a process that is mapped at an address (\<^verbatim>\<open>os-freebsd-kern.c\<close>) and the name of a procedure in it (\<open>get_proc_name\<close> of \<^verbatim>\<open>elfxx.c\<close>).
  The system calls \<open>sysctl\<close> and \<open>mmap\<close> and the layout of the structures of \<^verbatim>\<open>sys/user.h\<close> are parameters. The state is memory
  with the regions that are mapped; a region that is not unmapped is lost. The loop over the entries of the
  memory map, which an entry of size 0 makes endless, has \<open>fuel\<close>.
\<close>

section \<open>The operating system\<close>

record os =
  os_mem :: memory
  os_maps :: "(addr \<times> u64) list"

text \<open>
  \<open>sysctl\<close> gets the name, the buffer with its size if there is one, and memory; it fails with an \<open>errno\<close> or gives the length of the
  answer. \<open>mmap\<close> gives the address of an anonymous mapping or fails.
\<close>

record os_calls =
  os_sysctl :: "u32 list \<Rightarrow> (addr \<times> u64) option \<Rightarrow> memory \<Rightarrow> u32 + u64 \<times> memory"
  os_mmap :: "u64 \<Rightarrow> os \<Rightarrow> addr option"

record kinfo =
  sizeof_kinfo_proc :: u64
  ki_tid :: "memory \<Rightarrow> addr \<Rightarrow> u32"
  ki_pid :: "memory \<Rightarrow> addr \<Rightarrow> u32"
  kve_structsize :: "memory \<Rightarrow> addr \<Rightarrow> u32"
  kve_type :: "memory \<Rightarrow> addr \<Rightarrow> u32"
  kve_start :: "memory \<Rightarrow> addr \<Rightarrow> u64"
  kve_end :: "memory \<Rightarrow> addr \<Rightarrow> u64"
  kve_offset :: "memory \<Rightarrow> addr \<Rightarrow> u64"
  kve_path :: "addr \<Rightarrow> addr"

definition KERN_PROC_ALL :: "u32 list" where "KERN_PROC_ALL = [1, 14, 0]"
definition KERN_PROC_VMMAP :: "u32 \<Rightarrow> u32 list" where "KERN_PROC_VMMAP pid = [1, 14, 32, pid]"
definition KVME_TYPE_VNODE :: u32 where "KVME_TYPE_VNODE = 2"
definition ESRCH :: u32 where "ESRCH = 3"

definition sysctl :: "os_calls \<Rightarrow> u32 list \<Rightarrow> (addr \<times> u64) option \<Rightarrow> os \<Rightarrow> (u32 + u64) \<times> os" where
  "sysctl K mib buf s =
     (case os_sysctl K mib buf (os_mem s) of Inl e \<Rightarrow> (Inl e, s) | Inr (len, m) \<Rightarrow> (Inr len, s\<lparr>os_mem := m\<rparr>))"

section \<open>Finding an image\<close>

definition get_mem :: "os_calls \<Rightarrow> u64 \<Rightarrow> os \<Rightarrow> addr \<times> os" where
  "get_mem K sz s =
     (case os_mmap K sz s of None \<Rightarrow> (0, s) | Some a \<Rightarrow> (a, s\<lparr>os_maps := (a, sz) # os_maps s\<rparr>))"

definition free_mem :: "addr \<Rightarrow> u64 \<Rightarrow> os \<Rightarrow> os" where
  "free_mem a sz s = s\<lparr>os_maps := remove1 (a, sz) (os_maps s)\<rparr>"

text \<open>
  A table of the kernel, of which \<open>len\<close> bytes were announced: the buffer with its size and the length of the table. Both callers do this with
  the same statements.
\<close>

definition fetch_table :: "os_calls \<Rightarrow> u32 list \<Rightarrow> u64 \<Rightarrow> os \<Rightarrow> (addr \<times> u64 \<times> u64) option \<times> os" where
  "fetch_table K mib len s =
     (let len1 = len * 4 div 3; (buf, s) = get_mem K len1 s in
      if buf = 0 then (None, s)
      else case sysctl K mib (Some (buf, len1)) s of
        (Inl _, s) \<Rightarrow> (None, free_mem buf len1 s)
      | (Inr len, s) \<Rightarrow> (Some (buf, len1, len), s))"

text \<open>The loop over the processes, of which \<open>n\<close> are left; the counter is an \<open>int\<close>.\<close>

primrec find_tid :: "kinfo \<Rightarrow> memory \<Rightarrow> u32 \<Rightarrow> nat \<Rightarrow> nat \<Rightarrow> addr \<Rightarrow> u32 outcome" where
  "find_tid I m tid 0 i kv = Ok (- 1)"
| "find_tid I m tid (Suc n) i kv =
     (if ki_tid I m kv = tid then Ok (ki_pid I m kv)
      else defined (i < 2147483647) (find_tid I m tid n (Suc i) (kv + sizeof_kinfo_proc I)))"

definition get_pid_by_tid :: "os_calls \<Rightarrow> kinfo \<Rightarrow> u32 \<Rightarrow> os \<Rightarrow> (u32 \<times> os) outcome" where
  "get_pid_by_tid K I tid s =
     (case sysctl K KERN_PROC_ALL None s of
        (Inl _, s) \<Rightarrow> Ok (- 1, s)
      | (Inr len, s) \<Rightarrow>
          (case fetch_table K KERN_PROC_ALL len s of
             (None, s) \<Rightarrow> Ok (- 1, s)
           | (Some (buf, len1, len), s) \<Rightarrow>
               obind (find_tid I (os_mem s) tid (unat (len div sizeof_kinfo_proc I)) 0 buf) (\<lambda>pid.
               Ok (pid, free_mem buf len1 s))))"

text \<open>The size of the memory map of a process, and the process it is of; the number given may be that of a thread.\<close>

definition vmmap_size :: "os_calls \<Rightarrow> kinfo \<Rightarrow> u32 \<Rightarrow> os \<Rightarrow> ((u64 \<times> u32) option \<times> os) outcome" where
  "vmmap_size K I pid s =
     (case sysctl K (KERN_PROC_VMMAP pid) None s of
        (Inr len, s) \<Rightarrow> Ok (Some (len, pid), s)
      | (Inl e, s) \<Rightarrow>
          if e \<noteq> ESRCH then Ok (None, s)
          else
            obind (get_pid_by_tid K I pid s) (\<lambda>(p, s).
            if p = - 1 then Ok (None, s)
            else case sysctl K (KERN_PROC_VMMAP p) None s of
              (Inl _, s) \<Rightarrow> Ok (None, s)
            | (Inr len, s) \<Rightarrow> Ok (Some (len, p), s)))"

text \<open>The entry that covers an address and is a file.\<close>

definition maps_file :: "kinfo \<Rightarrow> memory \<Rightarrow> u64 \<Rightarrow> addr \<Rightarrow> bool" where
  "maps_file I m ip kv = (\<not> (ip < kve_start I m kv \<or> ip \<ge> kve_end I m kv) \<and> kve_type I m kv = KVME_TYPE_VNODE)"

primrec vmmap_loop :: "nat \<Rightarrow> kinfo \<Rightarrow> memory \<Rightarrow> u64 \<Rightarrow> addr \<Rightarrow> addr \<Rightarrow> addr option outcome" where
  "vmmap_loop 0 I m ip bp eb = Diverge"
| "vmmap_loop (Suc n) I m ip bp eb =
     (if \<not> bp < eb then Ok None
      else if maps_file I m ip bp then Ok (Some bp)
      else vmmap_loop n I m ip (bp + scast (kve_structsize I m bp)) eb)"

text \<open>\<open>elf_map_image\<close> is a stub that returns -1.\<close>

definition elf_map_image :: "memory \<Rightarrow> addr \<Rightarrow> elf_image reply" where
  "elf_map_image m path = Err UNW_EUNSPEC"

text \<open>What \<open>tdep_get_elf_image\<close> stores for its caller, if it gets that far.\<close>

record image_place =
  im_segbase :: u64
  im_mapoff :: u64
  im_path :: "u8 list option"

definition tdep_get_elf_image ::
  "nat \<Rightarrow> os_calls \<Rightarrow> kinfo \<Rightarrow> u32 \<Rightarrow> u64 \<Rightarrow> u8 list option \<Rightarrow> os \<Rightarrow> (elf_image reply \<times> image_place option \<times> os) outcome" where
  "tdep_get_elf_image fuel K I pid ip path s =
     obind (vmmap_size K I pid s) (\<lambda>(r, s).
     case r of
       None \<Rightarrow> Ok (Err UNW_EUNSPEC, None, s)
     | Some (len, pid) \<Rightarrow>
         (case fetch_table K (KERN_PROC_VMMAP pid) len s of
            (None, s) \<Rightarrow> Ok (Err UNW_EUNSPEC, None, s)
          | (Some (buf, len1, len), s) \<Rightarrow>
              (let m = os_mem s in
               obind (vmmap_loop fuel I m ip buf (buf + len)) (\<lambda>kv.
               Ok (case kv of
                     None \<Rightarrow> (Err UNW_EUNSPEC, None, free_mem buf len1 s)
                   | Some kv \<Rightarrow>
                       (elf_map_image m (kve_path I kv),
                        Some \<lparr>im_segbase = kve_start I m kv, im_mapoff = kve_offset I m kv,
                              im_path = map_option (\<lambda>b. strncpy (length b) m (kve_path I kv)) path\<rparr>,
                        free_mem buf len1 s))))))"

text \<open>\<open>get_proc_name\<close> of \<^verbatim>\<open>elfxx.c\<close>; it unmaps the image at the end.\<close>

definition elf_get_proc_name ::
  "nat \<Rightarrow> os_calls \<Rightarrow> kinfo \<Rightarrow> u32 \<Rightarrow> u64 \<Rightarrow> u8 list \<Rightarrow> os \<Rightarrow> (unit reply \<times> u64 option \<times> u8 list \<times> os) outcome" where
  "elf_get_proc_name fuel K I pid ip buf s =
     obind (tdep_get_elf_image fuel K I pid ip None s) (\<lambda>(r, place, s).
     case r of
       Err e \<Rightarrow> Ok (Err e, None, buf, s)
     | Ret ei \<Rightarrow>
         (case place of
            None \<Rightarrow> UB
          | Some p \<Rightarrow>
              obind (get_proc_name_in_image fuel (os_mem s) ei (im_segbase p) (im_mapoff p) ip buf) (\<lambda>(r, off, buf).
              Ok (r, off, buf, free_mem (ei_image ei) (ei_size ei) s))))"

section \<open>Tables of the kernel\<close>

text \<open>Entries that follow each other up to the end of a buffer.\<close>

primrec tiles :: "kinfo \<Rightarrow> memory \<Rightarrow> addr \<Rightarrow> addr list \<Rightarrow> addr \<Rightarrow> bool" where
  "tiles I m bp [] eb = (\<not> bp < eb)"
| "tiles I m bp (kv # kvs) eb = (kv = bp \<and> bp < eb \<and> tiles I m (bp + scast (kve_structsize I m bp)) kvs eb)"

lemma vmmap_loop_tiles:
  "tiles I m bp kvs eb \<Longrightarrow> length kvs < fuel \<Longrightarrow> vmmap_loop fuel I m ip bp eb = Ok (List.find (maps_file I m ip) kvs)"
proof (induction kvs arbitrary: bp fuel)
  case Nil
  then show ?case by (cases fuel) simp_all
next
  case (Cons kv kvs)
  then show ?case by (cases fuel) simp_all
qed

lemma find_tid_returns: "n + i \<le> 2147483647 \<Longrightarrow> \<exists>pid. find_tid I m tid n i kv = Ok pid"
  by (induction n arbitrary: i kv) simp_all

text \<open>
  What the code relies on: the kernel does not map address 0 unless it is asked to, a table of processes has fewer than
  \<open>2 ^ 31\<close> entries, and the entries of a memory map tile the buffer, fewer than \<open>fuel\<close> of them.
\<close>

definition kernel_tables :: "nat \<Rightarrow> os_calls \<Rightarrow> kinfo \<Rightarrow> bool" where
  "kernel_tables fuel K I =
     ((\<forall>sz s. os_mmap K sz s \<noteq> Some 0) \<and>
      (\<forall>mib buf len1 m len m'. os_sysctl K mib (Some (buf, len1)) m = Inr (len, m') \<longrightarrow>
         unat (len div sizeof_kinfo_proc I) \<le> 2147483647 \<and> (\<exists>kvs. tiles I m' buf kvs (buf + len) \<and> length kvs < fuel)))"

lemma kernel_tablesD:
  assumes "kernel_tables fuel K I" "os_sysctl K mib (Some (buf, len1)) m = Inr (len, m')"
  shows "\<exists>pid. find_tid I m' tid (unat (len div sizeof_kinfo_proc I)) 0 a = Ok pid"
    and "\<exists>kv. vmmap_loop fuel I m' ip buf (buf + len) = Ok kv \<and> (\<forall>x. kv = Some x \<longrightarrow> maps_file I m' ip x)"
proof -
  have l: "unat (len div sizeof_kinfo_proc I) \<le> 2147483647" and "\<exists>kvs. tiles I m' buf kvs (buf + len) \<and> length kvs < fuel"
    using assms unfolding kernel_tables_def by blast+
  then obtain kvs where kvs: "tiles I m' buf kvs (buf + len)" "length kvs < fuel" by blast
  show "\<exists>pid. find_tid I m' tid (unat (len div sizeof_kinfo_proc I)) 0 a = Ok pid" using l by (intro find_tid_returns) simp
  show "\<exists>kv. vmmap_loop fuel I m' ip buf (buf + len) = Ok kv \<and> (\<forall>x. kv = Some x \<longrightarrow> maps_file I m' ip x)"
    unfolding vmmap_loop_tiles [OF kvs] by (auto simp: find_Some_iff)
qed

section \<open>No mapping is lost\<close>

lemma sysctl_maps: "sysctl K mib buf s = (r, s') \<Longrightarrow> os_maps s' = os_maps s"
  by (auto simp: sysctl_def split: sum.splits prod.splits)

lemma fetch_table_cases:
  assumes "kernel_tables fuel K I"
  obtains (None) s' where "fetch_table K mib len s = (None, s')" "os_maps s' = os_maps s"
    | (Some) buf len1 len' m' s' where "fetch_table K mib len s = (Some (buf, len1, len'), s')"
        "os_maps (free_mem buf len1 s') = os_maps s" "os_mem s' = m'"
        "os_sysctl K mib (Some (buf, len1)) (os_mem s) = Inr (len', m')"
proof (cases "os_mmap K (len * 4 div 3) s")
  case None
  then show ?thesis using that(1) [of s] by (simp add: fetch_table_def get_mem_def)
next
  case (Some buf)
  let ?len1 = "len * 4 div 3"
  have "buf \<noteq> 0" using assms Some unfolding kernel_tables_def by auto
  then show ?thesis
    using Some that(1) [of "free_mem buf ?len1 (s\<lparr>os_maps := (buf, ?len1) # os_maps s\<rparr>)"]
      that(2) [of buf ?len1 _ "s\<lparr>os_maps := (buf, ?len1) # os_maps s, os_mem := _\<rparr>"]
    by (cases "os_sysctl K mib (Some (buf, ?len1)) (os_mem s)") (auto simp: fetch_table_def get_mem_def sysctl_def free_mem_def Let_def)
qed

lemma get_pid_by_tid_returns:
  assumes "kernel_tables fuel K I"
  shows "\<exists>p s'. get_pid_by_tid K I tid s = Ok (p, s') \<and> os_maps s' = os_maps s"
proof (cases "sysctl K KERN_PROC_ALL None s")
  case (Pair r s1)
  have m: "os_maps s1 = os_maps s" by (rule sysctl_maps [OF Pair])
  show ?thesis
  proof (cases r)
    case (Inl e)
    then show ?thesis using Pair m by (simp add: get_pid_by_tid_def)
  next
    case (Inr len)
    show ?thesis
      by (rule fetch_table_cases [OF assms, of KERN_PROC_ALL len s1])
         (use Pair Inr m kernel_tablesD(1) [OF assms] in \<open>auto simp: get_pid_by_tid_def\<close>)
  qed
qed

lemma vmmap_size_returns:
  assumes "kernel_tables fuel K I"
  shows "\<exists>r s'. vmmap_size K I pid s = Ok (r, s') \<and> os_maps s' = os_maps s"
proof (cases "sysctl K (KERN_PROC_VMMAP pid) None s")
  case (Pair r s1)
  have m: "os_maps s1 = os_maps s" by (rule sysctl_maps [OF Pair])
  obtain p s2 where p: "get_pid_by_tid K I pid s1 = Ok (p, s2)" "os_maps s2 = os_maps s1"
    using get_pid_by_tid_returns [OF assms] by blast
  obtain r3 s3 where r3: "sysctl K (KERN_PROC_VMMAP p) None s2 = (r3, s3)" by (metis surj_pair)
  then have "os_maps s3 = os_maps s2" by (rule sysctl_maps)
  then show ?thesis using Pair m p r3 by (cases r; cases r3) (simp_all add: vmmap_size_def)
qed

section \<open>Property\<close>

text \<open>C26: looking for the image of a process never leaks and never succeeds: with a kernel that answers as documented,
  \<open>tdep_get_elf_image\<close> returns on every path (errors of \<open>sysctl\<close>, the number of a thread instead of a process, no memory for the table, address
  mapped or not), has unmapped every region it mapped, and stores the base and the offset of an entry of the memory map
  that covers the address and is a file. Because the stub \<open>elf_map_image\<close> fails, the reply is always \<open>UNW_EUNSPEC\<close>, and \<open>get_proc_name\<close>
  returns it with the buffer as it was.\<close>

theorem process_image_lookup:
  assumes "kernel_tables fuel K I"
  shows "\<exists>place s'. tdep_get_elf_image fuel K I pid ip path s = Ok (Err UNW_EUNSPEC, place, s') \<and> os_maps s' = os_maps s \<and>
    (\<forall>p. place = Some p \<longrightarrow> (\<exists>kv. maps_file I (os_mem s') ip kv \<and>
       im_segbase p = kve_start I (os_mem s') kv \<and> im_mapoff p = kve_offset I (os_mem s') kv)) \<and>
    (\<exists>s''. elf_get_proc_name fuel K I pid ip buf s = Ok (Err UNW_EUNSPEC, None, buf, s'') \<and> os_maps s'' = os_maps s)"
proof -
  have image: "\<exists>place s'. tdep_get_elf_image fuel K I pid ip path s = Ok (Err UNW_EUNSPEC, place, s') \<and> os_maps s' = os_maps s \<and>
    (\<forall>p. place = Some p \<longrightarrow> (\<exists>kv. maps_file I (os_mem s') ip kv \<and>
       im_segbase p = kve_start I (os_mem s') kv \<and> im_mapoff p = kve_offset I (os_mem s') kv))" for path
  proof -
    obtain r s1 where r: "vmmap_size K I pid s = Ok (r, s1)" "os_maps s1 = os_maps s" using vmmap_size_returns [OF assms] by blast
    show ?thesis
    proof (cases r)
      case None
      then show ?thesis using r by (simp add: tdep_get_elf_image_def)
    next
      case (Some x)
      obtain len p where x: "x = (len, p)" by (cases x)
      show ?thesis
      proof (rule fetch_table_cases [OF assms, of "KERN_PROC_VMMAP p" len s1])
        fix s' assume "fetch_table K (KERN_PROC_VMMAP p) len s1 = (None, s')" "os_maps s' = os_maps s1"
        then show ?thesis using r Some x by (simp add: tdep_get_elf_image_def)
      next
        fix b len1 len' m' s'
        assume t: "fetch_table K (KERN_PROC_VMMAP p) len s1 = (Some (b, len1, len'), s')"
          "os_maps (free_mem b len1 s') = os_maps s1" "os_mem s' = m'"
          "os_sysctl K (KERN_PROC_VMMAP p) (Some (b, len1)) (os_mem s1) = Inr (len', m')"
        obtain kv where kv: "vmmap_loop fuel I m' ip b (b + len') = Ok kv" "\<forall>x. kv = Some x \<longrightarrow> maps_file I m' ip x"
          using kernel_tablesD(2) [OF assms t(4)] by blast
        have "os_mem (free_mem b len1 s') = m'" using t(3) by (simp add: free_mem_def)
        then show ?thesis using r Some x t kv by (cases kv) (auto simp: tdep_get_elf_image_def elf_map_image_def)
      qed
    qed
  qed
  obtain place s'' where "tdep_get_elf_image fuel K I pid ip None s = Ok (Err UNW_EUNSPEC, place, s'')" "os_maps s'' = os_maps s"
    using image [of None] by blast
  then have "elf_get_proc_name fuel K I pid ip buf s = Ok (Err UNW_EUNSPEC, None, buf, s'') \<and> os_maps s'' = os_maps s"
    by (simp add: elf_get_proc_name_def)
  then show ?thesis using image [of path] by blast
qed

text \<open>A kernel with one process, whose memory map has a single entry of eight bytes: a file at 0x1000 to 0x2000.\<close>

definition kernel1 :: os_calls where
  "kernel1 = \<lparr>os_sysctl = (\<lambda>_ _ m. Inr (8, m)), os_mmap = (\<lambda>_ _. Some 0x10000)\<rparr>"

definition kinfo1 :: kinfo where
  "kinfo1 = \<lparr>sizeof_kinfo_proc = 8, ki_tid = (\<lambda>_ _. 7), ki_pid = (\<lambda>_ _. 7), kve_structsize = (\<lambda>_ _. 8), kve_type = (\<lambda>_ _. 2),
     kve_start = (\<lambda>_ _. 0x1000), kve_end = (\<lambda>_ _. 0x2000), kve_offset = (\<lambda>_ _. 0x40), kve_path = (\<lambda>a. a)\<rparr>"

lemma kernel1_tables: "kernel_tables 2 kernel1 kinfo1"
proof -
  have "\<exists>kvs. tiles kinfo1 m b kvs (b + 8) \<and> length kvs < 2" for m b
  proof (cases "b < b + 8")
    case True
    then show ?thesis by (intro exI [of _ "[b]"]) (simp add: kinfo1_def)
  next
    case False
    then show ?thesis by (intro exI [of _ "[]"]) simp
  qed
  then show ?thesis by (simp add: kernel_tables_def kernel1_def) (simp add: kinfo1_def)
qed

theorem process_image_lookup_witness:
  "\<exists>p s'. tdep_get_elf_image 2 kernel1 kinfo1 7 0x1234 None \<lparr>os_mem = (\<lambda>_. 0), os_maps = [(0x7000, 64)]\<rparr> = Ok (Err UNW_EUNSPEC, Some p, s') \<and>
     os_maps s' = [(0x7000, 64)] \<and> im_segbase p = 0x1000 \<and> im_mapoff p = 0x40"
proof -
  let ?s = "\<lparr>os_mem = (\<lambda>_. 0), os_maps = [(0x7000, 64)]\<rparr>"
  obtain place s' where r: "tdep_get_elf_image 2 kernel1 kinfo1 7 0x1234 None ?s = Ok (Err UNW_EUNSPEC, place, s')" "os_maps s' = os_maps ?s"
      "\<forall>p. place = Some p \<longrightarrow> (\<exists>kv. maps_file kinfo1 (os_mem s') 0x1234 kv \<and>
         im_segbase p = kve_start kinfo1 (os_mem s') kv \<and> im_mapoff p = kve_offset kinfo1 (os_mem s') kv)"
    using process_image_lookup [OF kernel1_tables, where ip = "0x1234"] by blast
  have "vmmap_loop (Suc 1) kinfo1 m 0x1234 0x10000 0x10008 = Ok (Some 0x10000)" for m
    by (simp add: maps_file_def kinfo1_def KVME_TYPE_VNODE_def)
  then have l: "vmmap_loop 2 kinfo1 m 0x1234 0x10000 0x10008 = Ok (Some 0x10000)" for m by (simp only: Suc_1)
  have "place \<noteq> None"
    using r(1) by (auto simp: tdep_get_elf_image_def vmmap_size_def sysctl_def kernel1_def fetch_table_def get_mem_def l Let_def)
  then show ?thesis using r by (auto simp: kinfo1_def)
qed

end
