(* ===== verification/Unw_Module.thy ===== *)
theory Unw_Module
  imports Unw_Backtrace
begin

text \<open>
  The kernel module around the library (\<^verbatim>\<open>libunwind.c\<close>), which shows a backtrace when it is loaded, and the names of procedures
  (\<^verbatim>\<open>Gget_proc_name.c\<close>, \<open>get_static_proc_name\<close> of \<^verbatim>\<open>Ginit.c\<close>). The kernel's \<open>linker_search_symbol_name\<close> is a parameter. What is printed is a
  list of lines.
\<close>

section \<open>Names\<close>

text \<open>
  The result of \<open>linker_search_symbol_name\<close>: its return value (0 or a positive \<open>errno\<close>), the name and the offset, if they were stored.
\<close>

record name_result =
  nr_ret :: int
  nr_name :: "string option"
  nr_offset :: "u64 option"

type_synonym symbol_search = "u64 \<Rightarrow> nat \<Rightarrow> name_result"

definition get_static_proc_name :: "symbol_search \<Rightarrow> u64 \<Rightarrow> nat \<Rightarrow> name_result" where
  "get_static_proc_name search ip buf_len = search ip buf_len"

text \<open>The accessor of the address space is not used: the same function of the kernel is called directly.\<close>

definition get_proc_name :: "symbol_search \<Rightarrow> u64 \<Rightarrow> nat \<Rightarrow> name_result" where
  "get_proc_name search ip buf_len = search ip buf_len"

definition unw_get_proc_name :: "symbol_search \<Rightarrow> cursor \<Rightarrow> nat \<Rightarrow> name_result" where
  "unw_get_proc_name search c buf_len = get_proc_name search (c_ip c) buf_len"

section \<open>The backtrace\<close>

text \<open>The variables of \<open>show_backtrace\<close>, unset at first, and a line of the output.\<close>

record show_vars =
  sv_ip :: "u64 option"
  sv_sp :: "u64 option"
  sv_off :: "u64 option"

record frame_line =
  fl_ip :: u64
  fl_name :: string
  fl_offset :: u64
  fl_sp :: u64

text \<open>A variable after a call that stores its result in it when it succeeds.\<close>

definition read_into :: "int \<Rightarrow> cursor \<Rightarrow> machine \<Rightarrow> u64 option \<Rightarrow> u64 option \<times> machine" where
  "read_into r c M old = (case unw_get_reg M c r of Ok (v, M) \<Rightarrow> (Some v, M) | _ \<Rightarrow> (old, M))"

text \<open>One frame: the results of the calls are ignored, and printing a variable that was never set is undefined.\<close>

definition show_frame ::
  "symbol_search \<Rightarrow> show_vars \<Rightarrow> lib_state \<Rightarrow> (frame_line \<times> show_vars \<times> lib_state) outcome" where
  "show_frame search vs = (\<lambda>(c, L).
     let (ip, M) = read_into (int RIP) c (l_machine L) (sv_ip vs);
         (sp, M) = read_into (int RSP) c M (sv_sp vs);
         nr = unw_get_proc_name search c 64;
         name = (case nr_name nr of Some n \<Rightarrow> n | None \<Rightarrow> []);
         off = (case nr_offset nr of Some d \<Rightarrow> Some d | None \<Rightarrow> sv_off vs) in
     case (ip, off, sp) of
       (Some i, Some d, Some p) \<Rightarrow>
         Ok (\<lparr>fl_ip = i, fl_name = name, fl_offset = d, fl_sp = p\<rparr>, \<lparr>sv_ip = ip, sv_sp = sp, sv_off = off\<rparr>, c, L\<lparr>l_machine := M\<rparr>)
     | _ \<Rightarrow> UB)"

primrec show_loop ::
  "nat \<Rightarrow> nat \<Rightarrow> symbol_search \<Rightarrow> show_vars \<Rightarrow> frame_line list \<Rightarrow> lib_state \<Rightarrow> (frame_line list \<times> lib_state) outcome" where
  "show_loop 0 fuel search vs out s = Diverge"
| "show_loop (Suc steps) fuel search vs out s =
     obind (unw_step fuel s) (\<lambda>(r, s).
     case r of
       Err _ \<Rightarrow> Ok (out, s)
     | Ret n \<Rightarrow>
         if n \<le> 0 then Ok (out, s)
         else obind (show_frame search vs s) (\<lambda>(line, vs, s). show_loop steps fuel search vs (out @ [line]) s))"

text \<open>
  The results of \<open>unw_getcontext\<close> and \<open>unw_init_local\<close> are ignored: after a failure the loop would step a cursor that
  is a local variable without a value.
\<close>

definition show_backtrace ::
  "(addr \<Rightarrow> machine \<Rightarrow> machine) \<Rightarrow> symbol_search \<Rightarrow> nat \<Rightarrow> nat \<Rightarrow> addr \<Rightarrow> lib_state \<Rightarrow> (frame_line list \<times> lib_state) outcome" where
  "show_backtrace getcontext search steps fuel uc = (\<lambda>(c, L).
     case unw_init_local (getcontext uc (l_machine L)) c uc of
       Ok (c, M) \<Rightarrow> show_loop steps fuel search \<lparr>sv_ip = None, sv_sp = None, sv_off = None\<rparr> [] (c, L\<lparr>l_machine := M\<rparr>)
     | _ \<Rightarrow> UB)"

section \<open>Module events\<close>

datatype mod_event = MOD_LOAD | MOD_UNLOAD | MOD_OTHER int

definition EOPNOTSUPP :: int where "EOPNOTSUPP = 45"

text \<open>The return value and the backtrace that is shown.\<close>

definition event_handler ::
  "(addr \<Rightarrow> machine \<Rightarrow> machine) \<Rightarrow> symbol_search \<Rightarrow> nat \<Rightarrow> nat \<Rightarrow> addr \<Rightarrow> mod_event \<Rightarrow> lib_state \<Rightarrow>
   (int \<times> frame_line list \<times> lib_state) outcome" where
  "event_handler getcontext search steps fuel uc event s =
     (case event of
        MOD_LOAD \<Rightarrow> obind (show_backtrace getcontext search steps fuel uc s) (\<lambda>(out, s). Ok (0, out, s))
      | MOD_UNLOAD \<Rightarrow> Ok (0, [], s)
      | MOD_OTHER _ \<Rightarrow> Ok (EOPNOTSUPP, [], s))"

section \<open>What is shown on a chain\<close>

text \<open>The lines for the frames of a chain: the stack pointer keeps its distance from the frame pointer.\<close>

primrec chain_lines :: "symbol_search \<Rightarrow> memory \<Rightarrow> u64 \<Rightarrow> u64 \<Rightarrow> u64 list \<Rightarrow> frame_line list" where
  "chain_lines search m sp rbp [] = []"
| "chain_lines search m sp rbp (ra # ras) =
     (let nr = search ra 64; up = read_word m rbp; sp = sp + (up - rbp) in
      \<lparr>fl_ip = ra, fl_name = (case nr_name nr of Some n \<Rightarrow> n | None \<Rightarrow> []), fl_offset = the (nr_offset nr), fl_sp = sp\<rparr> #
      chain_lines search m sp up ras)"

lemma show_frame_ok:
  assumes "nr_offset (search (c_ip c) 64) = Some d"
  shows "\<exists>vs'. show_frame search vs (c, L) =
    Ok (\<lparr>fl_ip = c_ip c, fl_name = (case nr_name (search (c_ip c) 64) of Some n \<Rightarrow> n | None \<Rightarrow> []), fl_offset = d,
         fl_sp = c_cfa c\<rparr>, vs', c, L)"
  using assms by (cases L) (simp add: show_frame_def read_into_def unw_get_reg_def tdep_access_reg_read_def unw_get_proc_name_def get_proc_name_def)

lemma show_loop_chain:
  assumes "chain_state m k ras s" "length ras < steps" "\<forall>ra\<in>set ras. nr_offset (search ra 64) \<noteq> None"
  shows "\<exists>s'. show_loop steps fuel search vs out s = Ok (out @ chain_lines search m (snd k) (fst k) ras, s')"
  using assms
proof (induction arbitrary: vs out rule: cw.walk_induct [where fuel = fuel])
  case (outermost n k s s')
  then show ?case by simp
next
  case (frame n k ra ras s s')
  obtain c L where s': "s' = (c, L)" by (cases s')
  have c: "c_ip c = ra" "c_cfa c = snd (chain_up m k)"
    using frame.hyps(3) chain_stateD(1) [OF frame.hyps(4)] by (simp_all add: s' chain_entered_def)
  obtain d where d: "nr_offset (search (c_ip c) 64) = Some d" using frame.prems c(1) by auto
  let ?line = "\<lparr>fl_ip = c_ip c, fl_name = (case nr_name (search (c_ip c) 64) of Some n \<Rightarrow> n | None \<Rightarrow> []), fl_offset = d, fl_sp = c_cfa c\<rparr>"
  obtain vs' where "show_frame search vs (c, L) = Ok (?line, vs', c, L)" using show_frame_ok [where search = search, OF d] by blast
  moreover obtain s'' where "show_loop n fuel search vs' (out @ [?line]) (c, L) =
      Ok ((out @ [?line]) @ chain_lines search m (snd (chain_up m k)) (fst (chain_up m k)) ras, s'')"
    using frame.IH [of vs' "out @ [?line]"] frame.prems s' by fastforce
  ultimately show ?case using frame.hyps(2) c d by (simp add: s' Let_def chain_up_def split_beta)
qed

section \<open>Property\<close>



end
