(* ===== verification/Unw_Remote.thy ===== *)
theory Unw_Remote
  imports Unw_Call Unw_Memory
begin

text \<open>
  Naturally aligned access to memory (\<^verbatim>\<open>remote.h\<close>): the readers for the own address space, which dereference a pointer, and those for a
  remote one, which read the aligned word around the value through the accessor \<open>access_mem\<close> and shift. The accessor is a
  parameter; what its documentation says of it (\<^verbatim>\<open>include/libunwind-common.h\<close>: it accesses an aligned word) is a hypothesis. A reader
  returns the value and the advanced address; the address is advanced when the accessor fails, too.
\<close>

section \<open>Readers\<close>

definition fetch8 :: "memory \<Rightarrow> addr \<Rightarrow> (addr, u8) call" where
  "fetch8 m a = ret (m a) (a + 1)"

definition fetch16 :: "memory \<Rightarrow> addr \<Rightarrow> (addr, u16) call" where
  "fetch16 m a = ret (ucast (mem_le m 2 a)) (a + 2)"

definition fetch32 :: "memory \<Rightarrow> addr \<Rightarrow> (addr, u32) call" where
  "fetch32 m a = ret (ucast (mem_le m 4 a)) (a + 4)"

definition fetchw :: "memory \<Rightarrow> addr \<Rightarrow> (addr, u64) call" where
  "fetchw m a = ret (read_word m a) (a + 8)"

text \<open>The word around an address, shifted; the value is unset when the accessor fails.\<close>

definition aligned_addr :: "addr \<Rightarrow> addr" where "aligned_addr a = a AND (- 8)"

definition shifted_word :: "(addr \<Rightarrow> u64 outcome) \<Rightarrow> addr \<Rightarrow> addr \<Rightarrow> (addr, u64) call" where
  "shifted_word access_mem a a' =
     cbind (reads (access_mem (aligned_addr a)) a') (\<lambda>v. ret (drop_bit (unat (8 * (a - aligned_addr a))) v))"

definition remote_fetch8 :: "(addr \<Rightarrow> u64 outcome) \<Rightarrow> addr \<Rightarrow> (addr, u8) call" where
  "remote_fetch8 access_mem a = cbind (shifted_word access_mem a (a + 1)) (\<lambda>v. ret (ucast (v AND 0xff)))"

definition remote_fetch16 :: "(addr \<Rightarrow> u64 outcome) \<Rightarrow> addr \<Rightarrow> (addr, u16) call" where
  "remote_fetch16 access_mem a =
     (if (a - aligned_addr a) AND 1 \<noteq> 0 then Panic
      else cbind (shifted_word access_mem a (a + 2)) (\<lambda>v. ret (ucast (v AND 0xffff))))"

definition remote_fetch32 :: "(addr \<Rightarrow> u64 outcome) \<Rightarrow> addr \<Rightarrow> (addr, u32) call" where
  "remote_fetch32 access_mem a =
     (if (a - aligned_addr a) AND 3 \<noteq> 0 then Panic
      else cbind (shifted_word access_mem a (a + 4)) (\<lambda>v. ret (ucast (v AND 0xffffffff))))"

definition remote_fetchw :: "(addr \<Rightarrow> u64 outcome) \<Rightarrow> addr \<Rightarrow> (addr, u64) call" where
  "remote_fetchw access_mem a = reads (access_mem a) (a + 8)"

section \<open>Bits of memory\<close>

lemma bit_mem_le:
  "bit (mem_le m n a) i \<longleftrightarrow> i < 8 * n \<and> i < 64 \<and> bit (m (a + word_of_nat (i div 8))) (i mod 8)"
proof (induction n arbitrary: a i)
  case (Suc n)
  show ?case
  proof (cases "i < 8")
    case True
    then show ?thesis by (auto simp: bit_simps)
  next
    case False
    then obtain j where j: "i = 8 + j" using le_Suc_ex not_less by metis
    have e: "a + word_of_nat (i div 8) = a + 1 + word_of_nat (j div 8)" "i mod 8 = j mod 8"
    proof -
      have "i div 8 = Suc (j div 8)" by (simp add: j)
      then show "a + word_of_nat (i div 8) = a + 1 + word_of_nat (j div 8)" by simp
    qed (simp add: j)
    have "bit (mem_le m (Suc n) a) i \<longleftrightarrow> i < 64 \<and> bit (mem_le m n (a + 1)) j"
      using False bit_imp_le_length [of "m a" i] by (auto simp: bit_simps j)
    then show ?thesis unfolding Suc.IH e using j by auto
  qed
qed simp

text \<open>A part of a word, from the byte at distance \<open>d\<close> on.\<close>

lemma part_of_word:
  assumes "d + n \<le> 8"
  shows "take_bit (8 * n) (drop_bit (8 * d) (mem_le m 8 b)) = mem_le m n (b + word_of_nat d)"
proof (rule bit_word_eqI)
  fix i assume "i < LENGTH(64)"
  have "(8 * d + i) div 8 = d + i div 8" "(8 * d + i) mod 8 = i mod 8" by simp_all
  then show "bit (take_bit (8 * n) (drop_bit (8 * d) (mem_le m 8 b))) i = bit (mem_le m n (b + word_of_nat d)) i"
    using assms by (auto simp: bit_take_bit_iff bit_drop_bit_eq bit_mem_le add.assoc)
qed

lemma aligned_addr_split:
  "unat (a - aligned_addr a) < 8" "aligned_addr a + word_of_nat (unat (a - aligned_addr a)) = a" "aligned_addr a AND 7 = 0"
  "(a - aligned_addr a) AND 7 = a AND 7" "a - aligned_addr a = a AND 7"
proof -
  have u: "unat (aligned_addr a) = 8 * (unat a div 8)" using unat_and_minus_exp [of a 3] by (simp add: aligned_addr_def)
  then have "aligned_addr a \<le> a" by (simp add: word_le_nat_alt)
  then have "unat (a - aligned_addr a) = unat a mod 8" using u by (simp add: unat_sub minus_mult_div_eq_mod)
  also have "\<dots> = unat (take_bit 3 a)" by (simp only: unsigned_take_bit_eq) (simp add: take_bit_eq_mod)
  finally show e: "a - aligned_addr a = a AND 7" by (intro unat_eqI) (simp add: take_bit_eq_mask mask_eq_exp_minus_1)
  have "a AND 7 \<le> 7" by (rule word_and_le1)
  then show "unat (a - aligned_addr a) < 8" unfolding e by (simp add: word_le_nat_alt)
  show "aligned_addr a + word_of_nat (unat (a - aligned_addr a)) = a" by simp
  show "aligned_addr a AND 7 = 0" by (simp add: aligned_addr_def and.assoc)
  show "(a - aligned_addr a) AND 7 = a AND 7" unfolding e by (simp add: and.assoc)
qed

section \<open>Property\<close>

lemma shifted_word_eq:
  assumes "\<And>b. b AND 7 = 0 \<Longrightarrow> access_mem b = Ok (read_word m b)" "d = unat (a AND 7)"
  shows "shifted_word access_mem a a' = ret (drop_bit (8 * d) (read_word m (aligned_addr a))) a'"
proof -
  have "d < 8" using aligned_addr_split(1,5) [of a] assms(2) by simp
  then have "unat (8 * (a AND 7)) = 8 * d" by (simp add: assms(2) unat_word_ariths)
  then show ?thesis using assms(1) [OF aligned_addr_split(3)] by (simp add: shifted_word_def aligned_addr_split(5))
qed

lemma fetched_part:
  assumes "unat (a AND 7) + n \<le> 8"
  shows "take_bit (8 * n) (drop_bit (8 * unat (a AND 7)) (read_word m (aligned_addr a))) = mem_le m n a"
  using part_of_word [OF assms, of m "aligned_addr a"] aligned_addr_split(2,5) [of a] by (simp add: read_word_def)

lemma low_masks:
  "(v :: u64) AND 0xff = take_bit (8 * 1) v" "v AND 0xffff = take_bit (8 * 2) v" "v AND 0xffffffff = take_bit (8 * 4) v"
  by (simp_all add: take_bit_eq_mask mask_eq_exp_minus_1)

lemma unat_low: "unat (a AND 1) = unat a mod 2" "unat (a AND 3) = unat a mod 4" "unat (a AND 7) = unat a mod 8" for a :: u64
proof -
  have "unat (take_bit n a) = unat a mod 2 ^ n" for n
    by (simp only: unsigned_take_bit_eq) (simp only: take_bit_eq_mod)
  from this [of 1] this [of 2] this [of 3] show "unat (a AND 1) = unat a mod 2" "unat (a AND 3) = unat a mod 4"
    "unat (a AND 7) = unat a mod 8" by (simp_all add: take_bit_eq_mask mask_eq_exp_minus_1)
qed

text \<open>An aligned value does not cross the end of its word.\<close>

lemma aligned_room:
  fixes a :: u64
  assumes "n \<in> {1, 2, 4}" "a AND of_nat (n - 1) = 0"
  shows "unat (a AND 7) + n \<le> 8"
proof -
  have "\<forall>x\<in>set [0..<8]. \<forall>n\<in>set [1, 2, 4]. x mod n = 0 \<longrightarrow> x + n \<le> (8 :: nat)" by code_simp
  moreover have "unat (a AND 7) < 8" by (simp add: unat_low)
  moreover have "unat (a AND 7) mod n = 0"
  proof -
    have "unat (a AND of_nat (n - 1)) = 0" using assms(2) by simp
    then show ?thesis using assms(1) unat_low [of a] by (auto simp: mod_mod_cancel)
  qed
  ultimately show ?thesis using assms(1) by auto
qed

text \<open>C24: the readers for a remote address space agree with the direct ones: through an accessor that returns aligned words, every naturally
  aligned 8-, 16-, 32- and 64-bit value is read as it is in memory and the address is advanced in the same way; a misaligned
  16- or 32-bit read panics instead of returning bytes of the wrong word.\<close>

theorem remote_fetch_equiv:
  assumes "\<And>b. b AND 7 = 0 \<Longrightarrow> access_mem b = Ok (read_word m b)"
  shows "remote_fetch8 access_mem a = fetch8 m a \<and>
    remote_fetch16 access_mem a = (if a AND 1 = 0 then fetch16 m a else Panic) \<and>
    remote_fetch32 access_mem a = (if a AND 3 = 0 then fetch32 m a else Panic) \<and>
    (a AND 7 = 0 \<longrightarrow> remote_fetchw access_mem a = fetchw m a)"
proof (intro conjI impI)
  note w = shifted_word_eq [OF assms refl, of a] and p = fetched_part [of a _ m]
  have and7: "(a - aligned_addr a) AND 1 = a AND 1" "(a - aligned_addr a) AND 3 = a AND 3"
    by (simp_all add: aligned_addr_split(5) and.assoc)
  have "ucast (mem_le m 1 a) = m a" by (simp add: bit_eq_iff bit_simps)
  then show "remote_fetch8 access_mem a = fetch8 m a"
    using p [of 1] aligned_room [of 1 a] by (simp add: remote_fetch8_def fetch8_def w low_masks)
  show "remote_fetch16 access_mem a = (if a AND 1 = 0 then fetch16 m a else Panic)"
    using p [of 2] aligned_room [of 2 a] by (simp add: remote_fetch16_def fetch16_def w low_masks and7)
  show "remote_fetch32 access_mem a = (if a AND 3 = 0 then fetch32 m a else Panic)"
    using p [of 4] aligned_room [of 4 a] by (simp add: remote_fetch32_def fetch32_def w low_masks and7)
  assume "a AND 7 = 0"
  then show "remote_fetchw access_mem a = fetchw m a" using assms by (simp add: remote_fetchw_def fetchw_def ret_def)
qed

theorem remote_fetch_equiv_witness:
  "remote_fetch16 (\<lambda>b. Ok (read_word (\<lambda>x. ucast x) b)) 0x1236 = fetch16 (\<lambda>x. ucast x) 0x1236 \<and>
   remote_fetch16 (\<lambda>b. Ok (read_word (\<lambda>x. ucast x) b)) 0x1237 = Panic"
  using remote_fetch_equiv [of "\<lambda>b. Ok (read_word (\<lambda>x. ucast x) b)" "\<lambda>x. ucast x" "0x1236"]
    remote_fetch_equiv [of "\<lambda>b. Ok (read_word (\<lambda>x. ucast x) b)" "\<lambda>x. ucast x" "0x1237"] by simp

end
