(* ===== verification/Dyn_Region.thy ===== *)
theory Dyn_Region
  imports Unw_Memory Dyn_Info
begin

text \<open>
  Regions of dynamically generated procedures (\<^verbatim>\<open>include/libunwind-dynamic.h\<close>): the operations a code generator stores for a region,
  with the layout of \<open>unw_dyn_op_t\<close> and \<open>unw_dyn_region_info_t\<close> in memory, and the macros that build them.
\<close>

section \<open>Operations\<close>

datatype unw_dyn_operation_t =
    UNW_DYN_STOP | UNW_DYN_SAVE_REG | UNW_DYN_SPILL_FP_REL | UNW_DYN_SPILL_SP_REL | UNW_DYN_ADD
  | UNW_DYN_POP_FRAMES | UNW_DYN_LABEL_STATE | UNW_DYN_COPY_STATE | UNW_DYN_ALIAS

text \<open>The numbers of the enumeration.\<close>

fun dyn_tag :: "unw_dyn_operation_t \<Rightarrow> u8" where
  "dyn_tag UNW_DYN_STOP = 0" | "dyn_tag UNW_DYN_SAVE_REG = 1" | "dyn_tag UNW_DYN_SPILL_FP_REL = 2"
| "dyn_tag UNW_DYN_SPILL_SP_REL = 3" | "dyn_tag UNW_DYN_ADD = 4" | "dyn_tag UNW_DYN_POP_FRAMES = 5"
| "dyn_tag UNW_DYN_LABEL_STATE = 6" | "dyn_tag UNW_DYN_COPY_STATE = 7" | "dyn_tag UNW_DYN_ALIAS = 8"

record unw_dyn_op_t =
  op_tag :: u8
  op_qp :: u8
  op_reg :: u16
  op_when :: u32
  op_val :: u64

text \<open>An assignment to, and a read of, an operation in memory: one, one, two, four and eight bytes.\<close>

definition put_op :: "memory \<Rightarrow> addr \<Rightarrow> unw_dyn_op_t \<Rightarrow> memory" where
  "put_op m a op = mem_put (mem_put (mem_put (mem_put (mem_put m 1 a (ucast (op_tag op))) 1 (a + 1) (ucast (op_qp op)))
     2 (a + 2) (ucast (op_reg op))) 4 (a + 4) (ucast (op_when op))) 8 (a + 8) (op_val op)"

definition get_op :: "memory \<Rightarrow> addr \<Rightarrow> unw_dyn_op_t" where
  "get_op m a = \<lparr>op_tag = ucast (mem_le m 1 a), op_qp = ucast (mem_le m 1 (a + 1)), op_reg = ucast (mem_le m 2 (a + 2)),
     op_when = ucast (mem_le m 4 (a + 4)), op_val = mem_le m 8 (a + 8)\<rparr>"

definition U_QP_TRUE :: u8 where "U_QP_TRUE = 0"

definition U_dyn_op :: "unw_dyn_operation_t \<Rightarrow> u8 \<Rightarrow> u32 \<Rightarrow> u16 \<Rightarrow> u64 \<Rightarrow> unw_dyn_op_t" where
  "U_dyn_op tag qp when reg val = \<lparr>op_tag = dyn_tag tag, op_qp = qp, op_reg = reg, op_when = when, op_val = val\<rparr>"

definition U_dyn_op_save_reg :: "addr \<Rightarrow> u8 \<Rightarrow> u32 \<Rightarrow> u16 \<Rightarrow> u64 \<Rightarrow> memory \<Rightarrow> memory" where
  "U_dyn_op_save_reg op qp when reg dst m = put_op m op (U_dyn_op UNW_DYN_SAVE_REG qp when reg dst)"

definition U_dyn_op_spill_fp_rel :: "addr \<Rightarrow> u8 \<Rightarrow> u32 \<Rightarrow> u16 \<Rightarrow> u64 \<Rightarrow> memory \<Rightarrow> memory" where
  "U_dyn_op_spill_fp_rel op qp when reg offset m = put_op m op (U_dyn_op UNW_DYN_SPILL_FP_REL qp when reg offset)"

definition U_dyn_op_spill_sp_rel :: "addr \<Rightarrow> u8 \<Rightarrow> u32 \<Rightarrow> u16 \<Rightarrow> u64 \<Rightarrow> memory \<Rightarrow> memory" where
  "U_dyn_op_spill_sp_rel op qp when reg offset m = put_op m op (U_dyn_op UNW_DYN_SPILL_SP_REL qp when reg offset)"

definition U_dyn_op_add :: "addr \<Rightarrow> u8 \<Rightarrow> u32 \<Rightarrow> u16 \<Rightarrow> u64 \<Rightarrow> memory \<Rightarrow> memory" where
  "U_dyn_op_add op qp when reg value m = put_op m op (U_dyn_op UNW_DYN_ADD qp when reg value)"

definition U_dyn_op_pop_frames :: "addr \<Rightarrow> u8 \<Rightarrow> u32 \<Rightarrow> u64 \<Rightarrow> memory \<Rightarrow> memory" where
  "U_dyn_op_pop_frames op qp when num_frames m = put_op m op (U_dyn_op UNW_DYN_POP_FRAMES qp when 0 num_frames)"

definition U_dyn_op_label_state :: "addr \<Rightarrow> u64 \<Rightarrow> memory \<Rightarrow> memory" where
  "U_dyn_op_label_state op label m = put_op m op (U_dyn_op UNW_DYN_LABEL_STATE U_QP_TRUE (- 1) 0 label)"

definition U_dyn_op_copy_state :: "addr \<Rightarrow> u64 \<Rightarrow> memory \<Rightarrow> memory" where
  "U_dyn_op_copy_state op label m = put_op m op (U_dyn_op UNW_DYN_COPY_STATE U_QP_TRUE (- 1) 0 label)"

definition U_dyn_op_alias :: "addr \<Rightarrow> u8 \<Rightarrow> u32 \<Rightarrow> u64 \<Rightarrow> memory \<Rightarrow> memory" where
  "U_dyn_op_alias op qp when a m = put_op m op (U_dyn_op UNW_DYN_ALIAS qp when 0 a)"

definition U_dyn_op_stop :: "addr \<Rightarrow> memory \<Rightarrow> memory" where
  "U_dyn_op_stop op m = put_op m op (U_dyn_op UNW_DYN_STOP U_QP_TRUE (- 1) 0 0)"

section \<open>Regions\<close>

text \<open>\<open>struct unw_dyn_region_info\<close> without its operations, which begin 16 bytes behind its start.\<close>

record unw_dyn_region_info_t =
  ri_next :: addr
  ri_insn_count :: u32
  ri_op_count :: u32

definition region_op :: "addr \<Rightarrow> nat \<Rightarrow> addr" where
  "region_op r k = r + 16 + word_of_nat (16 * k)"

definition U_dyn_region_info_size :: "nat \<Rightarrow> nat" where
  "U_dyn_region_info_size op_count = 16 + 16 * op_count"

definition put_region :: "memory \<Rightarrow> addr \<Rightarrow> unw_dyn_region_info_t \<Rightarrow> memory" where
  "put_region m r ri = mem_put (mem_put (mem_put m 8 r (ri_next ri)) 4 (r + 8) (ucast (ri_insn_count ri))) 4 (r + 12) (ucast (ri_op_count ri))"

definition get_region :: "memory \<Rightarrow> addr \<Rightarrow> unw_dyn_region_info_t" where
  "get_region m r = \<lparr>ri_next = mem_le m 8 r, ri_insn_count = ucast (mem_le m 4 (r + 8)), ri_op_count = ucast (mem_le m 4 (r + 12))\<rparr>"

text \<open>A code generator fills a region: the header, then the operations from number \<open>k\<close> on.\<close>

primrec put_ops :: "memory \<Rightarrow> addr \<Rightarrow> nat \<Rightarrow> unw_dyn_op_t list \<Rightarrow> memory" where
  "put_ops m r k [] = m"
| "put_ops m r k (op # ops) = put_ops (put_op m (region_op r k) op) r (Suc k) ops"

definition region_ops :: "memory \<Rightarrow> addr \<Rightarrow> unw_dyn_op_t list" where
  "region_ops m r = map (\<lambda>k. get_op m (region_op r k)) [0..<unat (ri_op_count (get_region m r))]"

section \<open>Layout\<close>

text \<open>Fields of a structure do not overlap.\<close>

lemma offset_neq:
  fixes a :: addr
  assumes "i \<noteq> j" "i < 2 ^ 64" "j < 2 ^ 64"
  shows "a + word_of_nat i \<noteq> a + word_of_nat j"
proof -
  have "unat (word_of_nat i :: u64) = i" "unat (word_of_nat j :: u64) = j" using assms by (simp_all add: unat_of_nat take_bit_nat_eq_self)
  then show ?thesis using assms(1) by (metis add_left_cancel)
qed

lemma field_apart:
  fixes a i j :: addr
  assumes "unat i + n \<le> unat j \<or> unat j + l \<le> unat i" "unat i + n \<le> 2 ^ 64" "unat j + l \<le> 2 ^ 64"
  shows "mem_le (mem_put m n (a + i) v) l (a + j) = mem_le m l (a + j)"
proof (rule mem_le_cong, rule mem_put_other)
  fix k k' assume k: "k < l" "k' < n"
  have "a + word_of_nat (unat j + k) \<noteq> a + word_of_nat (unat i + k')" by (rule offset_neq) (use assms k in auto)
  then show "a + j + word_of_nat k \<noteq> a + i + word_of_nat k'" by (simp add: add.assoc)
qed

lemmas fields_apart = field_apart field_apart [where i = 0, simplified] field_apart [where j = 0, simplified]

lemma field_value:
  "ucast (take_bit 8 (ucast (b :: u8) :: u64)) = b" "ucast (take_bit 16 (ucast (h :: u16) :: u64)) = h"
  "ucast (take_bit 32 (ucast (w :: u32) :: u64)) = w" "take_bit 64 (v :: u64) = v"
  by (rule bit_word_eqI; auto simp: bit_simps)+

lemma get_put_op: "get_op (put_op m a op) a = op"
  by (simp add: get_op_def put_op_def mem_le_put fields_apart field_value del: mem_put.simps mem_le.simps)

lemma get_put_region: "get_region (put_region m r ri) r = ri"
  by (simp add: get_region_def put_region_def mem_le_put fields_apart field_value del: mem_put.simps mem_le.simps)

section \<open>Filling a region\<close>

lemma offset_add: "a + word_of_nat i + word_of_nat j = (a :: addr) + word_of_nat (i + j)" "a + 16 + word_of_nat j = (a :: addr) + word_of_nat (16 + j)"
  by (simp_all add: add.assoc)

lemma mem_put_field:
  assumes "\<And>i. i < n \<Longrightarrow> x \<noteq> a + word_of_nat i" "k + l \<le> n"
  shows "mem_put m l (a + word_of_nat k) v x = m x"
proof (rule mem_put_other)
  fix i assume "i < l"
  then show "x \<noteq> a + word_of_nat k + word_of_nat i" using assms(1) [of "k + i"] assms(2) by (simp add: offset_add)
qed

lemma put_op_other:
  assumes "\<And>i. i < 16 \<Longrightarrow> x \<noteq> a + word_of_nat i"
  shows "put_op m a op x = m x"
  using mem_put_field [OF assms, where k = 0] mem_put_field [OF assms, where k = 1] mem_put_field [OF assms, where k = 2]
    mem_put_field [OF assms, where k = 4] mem_put_field [OF assms, where k = 8]
  by (simp add: put_op_def del: mem_put.simps)

lemma put_ops_other:
  assumes "\<And>i. 16 + 16 * k \<le> i \<Longrightarrow> i < 16 + 16 * (k + length ops) \<Longrightarrow> x \<noteq> r + word_of_nat i"
  shows "put_ops m r k ops x = m x"
  using assms
proof (induction ops arbitrary: m k)
  case (Cons op ops)
  have "put_op m (region_op r k) op x = m x"
  proof (rule put_op_other)
    fix i :: nat assume "i < 16"
    then show "x \<noteq> region_op r k + word_of_nat i" using Cons.prems [of "16 + 16 * k + i"] unfolding region_op_def offset_add by simp
  qed
  moreover have "put_ops m' r (Suc k) ops x = m' x" for m' by (rule Cons.IH) (use Cons.prems in simp)
  ultimately show ?case by simp
qed simp

lemma mem_le_field:
  assumes "\<And>i. i < n \<Longrightarrow> m (a + word_of_nat i) = m' (a + word_of_nat i)" "k + l \<le> n"
  shows "mem_le m l (a + word_of_nat k) = mem_le m' l (a + word_of_nat k)"
proof (rule mem_le_cong)
  fix i assume "i < l"
  then show "m (a + word_of_nat k + word_of_nat i) = m' (a + word_of_nat k + word_of_nat i)"
    using assms(1) [of "k + i"] assms(2) unfolding offset_add by simp
qed

lemma get_op_cong:
  assumes "\<And>i. i < 16 \<Longrightarrow> m (a + word_of_nat i) = m' (a + word_of_nat i)"
  shows "get_op m a = get_op m' a"
proof -
  note f = mem_le_field [of 16 m a m', OF assms]
  show ?thesis using f [of 0 1] f [of 1 1] f [of 2 2] f [of 4 4] f [of 8 8] by (simp add: get_op_def del: mem_le.simps)
qed

lemma put_ops_get:
  assumes "k + length ops < 2 ^ 32" "j < length ops"
  shows "get_op (put_ops m r k ops) (region_op r (k + j)) = ops ! j"
  using assms
proof (induction ops arbitrary: m k j)
  case (Cons op ops)
  show ?case
  proof (cases j)
    case 0
    have "get_op (put_ops m' r (Suc k) ops) (region_op r k) = get_op m' (region_op r k)" for m'
    proof (rule get_op_cong, rule put_ops_other)
      fix i i' :: nat assume i: "i < 16" "16 + 16 * Suc k \<le> i'" "i' < 16 + 16 * (Suc k + length ops)"
      have "r + word_of_nat (16 + 16 * k + i) \<noteq> r + word_of_nat i'" by (rule offset_neq) (use i Cons.prems(1) in auto)
      then show "region_op r k + word_of_nat i \<noteq> r + word_of_nat i'" unfolding region_op_def offset_add by simp
    qed
    then show ?thesis by (simp add: 0 get_put_op)
  next
    case (Suc i)
    then show ?thesis using Cons.IH [of "Suc k" i "put_op m (region_op r k) op"] Cons.prems by simp
  qed
qed simp

lemma get_region_cong:
  assumes "\<And>i. i < 16 \<Longrightarrow> m (r + word_of_nat i) = m' (r + word_of_nat i)"
  shows "get_region m r = get_region m' r"
proof -
  note f = mem_le_field [of 16 m r m', OF assms]
  show ?thesis using f [of 0 8] f [of 8 4] f [of 12 4] by (simp add: get_region_def del: mem_le.simps)
qed

text \<open>A region holds what its code generator put there: when the header has the number of operations that are stored behind
  it, reading the region gives the header and the operations in order, and no byte outside the
  \<open>_U_dyn_region_info_size (op_count)\<close> bytes of the region changes.\<close>

lemma dyn_region_roundtrip:
  assumes "length ops < 2 ^ 32" "ri_op_count ri = word_of_nat (length ops)" "M = put_ops (put_region m r ri) r 0 ops"
  shows "get_region M r = ri \<and> region_ops M r = ops \<and>
    (\<forall>x. M x = m x \<or> (\<exists>i < U_dyn_region_info_size (length ops). x = r + word_of_nat i))"
proof (intro conjI allI)
  have "get_region M r = get_region (put_region m r ri) r" unfolding assms(3)
  proof (rule get_region_cong, rule put_ops_other)
    fix i i' :: nat assume i: "i < 16" "16 + 16 * 0 \<le> i'" "i' < 16 + 16 * (0 + length ops)"
    show "r + word_of_nat i \<noteq> r + word_of_nat i'" by (rule offset_neq) (use i assms(1) in auto)
  qed
  then show h: "get_region M r = ri" by (simp add: get_put_region)
  have "unat (ri_op_count ri) = length ops" using assms(1,2) by (simp add: unat_of_nat take_bit_nat_eq_self)
  moreover have "get_op M (region_op r j) = ops ! j" if "j < length ops" for j
    using put_ops_get [of 0 ops j "put_region m r ri" r] assms(1,3) that by simp
  ultimately show "region_ops M r = ops" unfolding region_ops_def h by (intro nth_equalityI) simp_all
  fix x
  show "M x = m x \<or> (\<exists>i < U_dyn_region_info_size (length ops). x = r + word_of_nat i)"
  proof (rule disjCI)
    assume n: "\<not> (\<exists>i < U_dyn_region_info_size (length ops). x = r + word_of_nat i)"
    then have "put_ops m' r 0 ops x = m' x" for m' by (intro put_ops_other) (auto simp: U_dyn_region_info_size_def)
    moreover have x: "x \<noteq> r + word_of_nat i" if "i < 16" for i using n that by (auto simp: U_dyn_region_info_size_def)
    have "put_region m r ri x = m x"
      using mem_put_field [OF x, where k = 0] mem_put_field [OF x, where k = 8] mem_put_field [OF x, where k = 12]
      by (simp add: put_region_def del: mem_put.simps)
    ultimately show "M x = m x" by (simp add: assms(3))
  qed
qed

end
