(* ===== verification/Cfi_Rules.thy ===== *)
theory Cfi_Rules
  imports Dwarf_FDE
begin

text \<open>
  What a call frame program means: a reference semantics on lists of instructions, which says what row of the unwind table
  applies to an address, the encoding of instructions as bytes, and the proof that \<open>run_cfi_program\<close> of \<^verbatim>\<open>Gparser.c\<close> computes that
  row from the bytes. It covers the instructions that compilers emit for ordinary functions.
\<close>

section \<open>Instructions\<close>

datatype cfi_ins =
    I_nop
  | I_advance u64
  | I_def_cfa u64 u64
  | I_def_cfa_register u64
  | I_def_cfa_offset u64
  | I_offset u64 u64
  | I_restore u64
  | I_undefined u64
  | I_same_value u64
  | I_register u64 u64

text \<open>A register number is one of the seventeen; an advance has six bits.\<close>

fun ins_ok :: "cfi_ins \<Rightarrow> bool" where
  "ins_ok (I_advance d) = (d < 64)"
| "ins_ok (I_def_cfa r n) = (r < 17)"
| "ins_ok (I_def_cfa_register r) = (r < 17)"
| "ins_ok (I_offset r n) = (r < 17)"
| "ins_ok (I_restore r) = (r < 17)"
| "ins_ok (I_undefined r) = (r < 17)"
| "ins_ok (I_same_value r) = (r < 17)"
| "ins_ok (I_register r q) = (r < 17)"
| "ins_ok _ = True"

abbreviation uleb :: "u64 \<Rightarrow> u8 list" where "uleb v \<equiv> uleb_encode (unat v)"

fun ins_bytes :: "cfi_ins \<Rightarrow> u8 list" where
  "ins_bytes I_nop = [0]"
| "ins_bytes (I_advance d) = [0x40 OR ucast d]"
| "ins_bytes (I_def_cfa r n) = 0x0c # uleb r @ uleb n"
| "ins_bytes (I_def_cfa_register r) = 0x0d # uleb r"
| "ins_bytes (I_def_cfa_offset n) = 0x0e # uleb n"
| "ins_bytes (I_offset r n) = (0x80 OR ucast r) # uleb n"
| "ins_bytes (I_restore r) = [0xc0 OR ucast r]"
| "ins_bytes (I_undefined r) = 0x07 # uleb r"
| "ins_bytes (I_same_value r) = 0x08 # uleb r"
| "ins_bytes (I_register r q) = 0x09 # uleb r @ uleb q"

section \<open>Rows\<close>

type_synonym rules = "dwarf_save_loc_t list"

abbreviation rule :: "dwarf_where_t \<Rightarrow> u64 \<Rightarrow> dwarf_save_loc_t" where "rule w v \<equiv> \<lparr>sl_where = w, sl_val = v\<rparr>"

text \<open>The rules after an instruction; \<open>init\<close> are the rules of the CIE. The CFA is described by columns 17 and 18.\<close>

fun ins_rules :: "u64 \<Rightarrow> rules \<Rightarrow> cfi_ins \<Rightarrow> rules \<Rightarrow> rules" where
  "ins_rules align init (I_def_cfa r n) R = R[17 := rule DWARF_WHERE_REG r, 18 := rule DWARF_WHERE_UNDEF n]"
| "ins_rules align init (I_def_cfa_register r) R = R[17 := rule DWARF_WHERE_REG r]"
| "ins_rules align init (I_def_cfa_offset n) R = R[18 := rule DWARF_WHERE_UNDEF n]"
| "ins_rules align init (I_offset r n) R = R[unat r := rule DWARF_WHERE_CFAREL (n * align)]"
| "ins_rules align init (I_restore r) R = R[unat r := init ! unat r]"
| "ins_rules align init (I_undefined r) R = R[unat r := rule DWARF_WHERE_UNDEF 0]"
| "ins_rules align init (I_same_value r) R = R[unat r := rule DWARF_WHERE_SAME 0]"
| "ins_rules align init (I_register r q) R = R[unat r := rule DWARF_WHERE_REG q]"
| "ins_rules align init _ R = R"

fun ins_loc :: "u64 \<Rightarrow> cfi_ins \<Rightarrow> u64 \<Rightarrow> u64" where
  "ins_loc align (I_advance d) loc = loc + d * align"
| "ins_loc align _ loc = loc"

text \<open>The row of \<open>ip\<close>: instructions apply until the location is past it.\<close>

fun row_at :: "dwarf_cie_info_t \<Rightarrow> u64 \<Rightarrow> rules \<Rightarrow> cfi_ins list \<Rightarrow> u64 \<Rightarrow> rules \<Rightarrow> rules" where
  "row_at dci ip init [] loc R = R"
| "row_at dci ip init (i # is) loc R =
     (if loc \<le> ip then row_at dci ip init is (ins_loc (code_align dci) i loc) (ins_rules (data_align dci) init i R) else R)"

lemma ins_rules_length [simp]: "length (ins_rules align init i R) = length R"
  by (cases i) simp_all

section \<open>Decoding\<close>

lemma bytes_at_append: "bytes_at m a (xs @ ys) \<longleftrightarrow> bytes_at m a xs \<and> bytes_at m (a + word_of_nat (length xs)) ys"
  by (induction xs arbitrary: a) (simp_all add: add.assoc add.commute)

text \<open>The bytes with an operand in them.\<close>

lemma packed_opcode:
  fixes d :: u64
  assumes "d < 64"
  shows "cfi_opcode (0x40 OR ucast d) = (DW_CFA_advance_loc, d)" "cfi_opcode (0x80 OR ucast d) = (DW_CFA_offset, d)"
    "cfi_opcode (0xc0 OR ucast d) = (DW_CFA_restore, d)"
proof -
  have "d = word_of_nat (unat d)" "unat d < 64" using assms by (simp_all add: word_less_nat_alt)
  moreover have "\<forall>n\<in>set [0..<64]. cfi_opcode (0x40 OR ucast (word_of_nat n :: u64)) = (DW_CFA_advance_loc, word_of_nat n) \<and>
      cfi_opcode (0x80 OR ucast (word_of_nat n :: u64)) = (DW_CFA_offset, word_of_nat n) \<and>
      cfi_opcode (0xc0 OR ucast (word_of_nat n :: u64)) = (DW_CFA_restore, word_of_nat n)" by code_simp
  ultimately show "cfi_opcode (0x40 OR ucast d) = (DW_CFA_advance_loc, d)" "cfi_opcode (0x80 OR ucast d) = (DW_CFA_offset, d)"
    "cfi_opcode (0xc0 OR ucast d) = (DW_CFA_restore, d)" by (metis atLeastLessThan_iff set_upt zero_le)+
qed

lemma plain_opcode:
  "cfi_opcode 0 = (DW_CFA_nop, 0)" "cfi_opcode 0x0c = (DW_CFA_def_cfa, 0)" "cfi_opcode 0x0d = (DW_CFA_def_cfa_register, 0)"
  "cfi_opcode 0x0e = (DW_CFA_def_cfa_offset, 0)" "cfi_opcode 0x07 = (DW_CFA_undefined, 0)"
  "cfi_opcode 0x08 = (DW_CFA_same_value, 0)" "cfi_opcode 0x09 = (DW_CFA_register, 0)"
  by code_simp+

lemma small_reg: "(r :: u64) < 17 \<Longrightarrow> unat r < 17" "(r :: u64) < 17 \<Longrightarrow> r < 64" "(r :: u64) < 17 \<Longrightarrow> unat r < 19"
    "(r :: u64) < 17 \<Longrightarrow> (17 \<le> unat r) = False"
  by (auto simp: word_less_nat_alt)

lemma read_regnum_uleb:
  assumes "bytes_at m a (uleb r)" "r < 17"
  shows "read_regnum m a = Ok (r, a + word_of_nat (length (uleb r)))"
  using uleb128_roundtrip [OF assms(1)] small_reg(1) [OF assms(2)] by (simp add: read_regnum_def DWARF_NUM_PRESERVED_REGS_def)

section \<open>One instruction\<close>

text \<open>The interpreter state behind an instruction.\<close>

definition with_rules :: "dwarf_state_record_t \<Rightarrow> rules \<Rightarrow> dwarf_state_record_t" where
  "with_rules sr R = sr\<lparr>rs_current := (rs_current sr)\<lparr>rs_reg := R\<rparr>\<rparr>"

lemma with_rules_simps [simp]:
  "rs_reg (rs_current (with_rules sr R)) = R" "rs_initial (with_rules sr R) = rs_initial sr"
  "with_rules (with_rules sr R) R' = with_rules sr R'" "with_rules sr (rs_reg (rs_current sr)) = sr"
  by (simp_all add: with_rules_def)

definition ins_state :: "dwarf_cie_info_t \<Rightarrow> cfi_ins \<Rightarrow> cfi_state \<Rightarrow> cfi_state" where
  "ins_state dci i s = s\<lparr>cs_addr := cs_addr s + word_of_nat (length (ins_bytes i)),
     cs_curr_ip := ins_loc (code_align dci) i (cs_curr_ip s),
     cs_sr := with_rules (cs_sr s) (ins_rules (data_align dci) (rs_reg (rs_initial (cs_sr s))) i (rs_reg (rs_current (cs_sr s))))\<rparr>"

definition sr_sized :: "dwarf_state_record_t \<Rightarrow> bool" where
  "sr_sized sr = (length (rs_reg (rs_current sr)) = 19 \<and> length (rs_reg (rs_initial sr)) = 19)"

lemma cfi_step_ins:
  assumes "bytes_at m (cs_addr s) (ins_bytes i)" "ins_ok i" "sr_sized (cs_sr s)"
  shows "cfi_step m pi dci s = Ok (ins_state dci i s, None)"
proof -
  let ?a = "cs_addr s + 1"
  have sz: "length (rs_reg (rs_current (cs_sr s))) = 19" "length (rs_reg (rs_initial (cs_sr s))) = 19"
    using assms(3) by (simp_all add: sr_sized_def)
  note defs = cfi_step_def dwarf_readu8_def Let_def cfi_exec_def plain_opcode packed_opcode small_reg cfi_call_def cfi_next_def
    cfi_set_def set_reg_def restore_reg_def ins_state_def with_rules_def sz column_defs add.assoc
  show ?thesis
  proof (cases i)
    case (I_def_cfa r n)
    then have b: "bytes_at m ?a (uleb r)" "bytes_at m (?a + word_of_nat (length (uleb r))) (uleb n)"
      using assms(1) by (simp_all add: bytes_at_append)
    then show ?thesis using assms(1,2) I_def_cfa read_regnum_uleb [OF b(1)] uleb128_roundtrip [OF b(2)]
      by (simp add: defs cfi_def_cfa_def)
  next
    case (I_register r q)
    then have b: "bytes_at m ?a (uleb r)" "bytes_at m (?a + word_of_nat (length (uleb r))) (uleb q)"
      using assms(1) by (simp_all add: bytes_at_append)
    then show ?thesis using assms(1,2) I_register read_regnum_uleb [OF b(1)] uleb128_roundtrip [OF b(2)]
      by (simp add: defs cfi_reg_def)
  next
    case (I_advance d)
    then show ?thesis using assms(1,2) by (simp add: defs cfi_advance_def)
  next
    case (I_offset r n)
    then show ?thesis using assms(1,2) uleb128_roundtrip [of m ?a n] by (simp add: defs cfi_offset_def)
  next
    case (I_restore r)
    then show ?thesis using assms(1,2) by (simp add: defs cfi_restore_def)
  next
    case (I_def_cfa_offset n)
    then show ?thesis using assms(1,2) uleb128_roundtrip [of m ?a n] by (simp add: defs cfi_def_cfa_def)
  next
    case (I_def_cfa_register r)
    then show ?thesis using assms(1,2) read_regnum_uleb [of m ?a r] by (simp add: defs cfi_def_cfa_def)
  next
    case (I_undefined r)
    then show ?thesis using assms(1,2) read_regnum_uleb [of m ?a r] by (simp add: defs cfi_reg_def)
  next
    case (I_same_value r)
    then show ?thesis using assms(1,2) read_regnum_uleb [of m ?a r] by (simp add: defs cfi_reg_def)
  next
    case I_nop
    then show ?thesis using assms(1) by (simp add: defs)
  qed
qed

section \<open>Programs\<close>

abbreviation program_bytes :: "cfi_ins list \<Rightarrow> u8 list" where "program_bytes is \<equiv> concat (map ins_bytes is)"

lemma ins_bytes_nonempty [simp]: "ins_bytes i \<noteq> []"
  by (cases i) simp_all

lemma ins_state_simps [simp]:
  "cs_addr (ins_state dci i s) = cs_addr s + word_of_nat (length (ins_bytes i))"
  "cs_curr_ip (ins_state dci i s) = ins_loc (code_align dci) i (cs_curr_ip s)"
  "cs_sr (ins_state dci i s) =
     with_rules (cs_sr s) (ins_rules (data_align dci) (rs_reg (rs_initial (cs_sr s))) i (rs_reg (rs_current (cs_sr s))))"
  "cs_rs_stack (ins_state dci i s) = cs_rs_stack s" "cs_pool (ins_state dci i s) = cs_pool s"
  by (simp_all add: ins_state_def)

lemma sr_sized_with [simp]: "sr_sized (with_rules sr R) = (length R = 19 \<and> length (rs_reg (rs_initial sr)) = 19)"
  by (simp add: sr_sized_def)

lemma before_end:
  fixes a :: addr
  assumes "unat a + n < 2 ^ 64" "0 < n"
  shows "a < a + word_of_nat n"
  using assms by (simp add: word_less_nat_alt unat_word_ariths unat_of_nat take_bit_nat_eq_self)

lemma cfi_loop_row:
  assumes "bytes_at m (cs_addr s) (program_bytes is)" "\<forall>i\<in>set is. ins_ok i" "sr_sized (cs_sr s)"
    "end_addr = cs_addr s + word_of_nat (length (program_bytes is))" "unat (cs_addr s) + length (program_bytes is) < 2 ^ 64"
    "length is \<le> fuel"
  shows "\<exists>a l. cfi_loop fuel m pi dci ip end_addr s = Ok (s\<lparr>cs_addr := a, cs_curr_ip := l,
    cs_sr := with_rules (cs_sr s) (row_at dci ip (rs_reg (rs_initial (cs_sr s))) is (cs_curr_ip s) (rs_reg (rs_current (cs_sr s))))\<rparr>, None)"
  using assms
proof (induction "is" arbitrary: s fuel)
  case Nil
  then have "cfi_loop fuel m pi dci ip end_addr s = Ok (s, None)" by (simp add: cfi_loop.simps [of fuel] cfi_next_def)
  then show ?case by (intro exI [of _ "cs_addr s"] exI [of _ "cs_curr_ip s"]) simp
next
  case (Cons i "is")
  let ?n = "length (ins_bytes i)" and ?k = "length (program_bytes is)" and ?t = "ins_state dci i s"
  have n: "0 < ?n" by simp
  obtain f where f: "fuel = Suc f" "length is \<le> f" using Cons.prems(6) by (cases fuel) auto
  have b: "bytes_at m (cs_addr s) (ins_bytes i)" "bytes_at m (cs_addr ?t) (program_bytes is)"
    using Cons.prems(1) by (simp_all add: bytes_at_append)
  show ?case
  proof (cases "cs_curr_ip s \<le> ip")
    case False
    then have "cfi_loop fuel m pi dci ip end_addr s = Ok (s, None)" by (simp add: cfi_loop.simps [of fuel] cfi_next_def)
    then show ?thesis using False by (intro exI [of _ "cs_addr s"] exI [of _ "cs_curr_ip s"]) simp
  next
    case True
    have "cs_addr s < end_addr" using Cons.prems(4,5) n before_end [of "cs_addr s" "?n + ?k"] by simp
    then have l: "cfi_loop fuel m pi dci ip end_addr s = cfi_loop f m pi dci ip end_addr ?t"
      using True f(1) Cons.prems(2,3) cfi_step_ins [OF b(1)] by (simp add: cfi_loop.simps [of "Suc f"])
    have "unat (word_of_nat ?n :: u64) = ?n" using Cons.prems(5) by (simp add: unat_of_nat take_bit_nat_eq_self)
    then have "unat (cs_addr ?t) = unat (cs_addr s) + ?n" using Cons.prems(5) by (simp add: unat_word_ariths)
    then have "unat (cs_addr ?t) + ?k < 2 ^ 64" using Cons.prems(5) by simp
    moreover have "end_addr = cs_addr ?t + word_of_nat ?k" using Cons.prems(4) by (simp add: add.assoc)
    moreover have "sr_sized (cs_sr ?t)" using Cons.prems(3) by (simp add: sr_sized_def)
    ultimately obtain a l where "cfi_loop f m pi dci ip end_addr ?t = Ok (?t\<lparr>cs_addr := a, cs_curr_ip := l,
        cs_sr := with_rules (cs_sr ?t) (row_at dci ip (rs_reg (rs_initial (cs_sr ?t))) is (cs_curr_ip ?t) (rs_reg (rs_current (cs_sr ?t))))\<rparr>, None)"
      using Cons.IH [OF b(2) _ _ _ _ f(2)] Cons.prems(2) by auto
    then show ?thesis unfolding l using True by (intro exI [of _ a] exI [of _ l]) (simp add: ins_state_def)
  qed
qed

lemma run_cfi_row:
  assumes "bytes_at m a (program_bytes is)" "\<forall>i\<in>set is. ins_ok i" "sr_sized sr"
    "unat a + length (program_bytes is) < 2 ^ 64" "length is \<le> fuel"
  shows "run_cfi_program fuel m pi dci ip a (a + word_of_nat (length (program_bytes is))) sr pool =
    Ok (None, with_rules sr (row_at dci ip (rs_reg (rs_initial sr)) is (start_ip pi) (rs_reg (rs_current sr))), pool)"
  using cfi_loop_row [of m "\<lparr>cs_addr = a, cs_curr_ip = start_ip pi, cs_sr = sr, cs_rs_stack = [], cs_pool = pool\<rparr>" "is" _ fuel pi dci ip] assms
  by (auto simp: run_cfi_program_def free_rs_stack_def)

text \<open>C8: a call frame program computes the row of the address: for every program of these instructions, encoded as bytes and not
  wrapping around the address space, \<open>run_cfi_program\<close> ends without an error, with the rules of the row that the reference semantics gives
  for the address, everything else of the state record unchanged, and no object of the pool used.\<close>

theorem cfi_program_row:
  assumes "bytes_at m a (program_bytes is)" "\<forall>i\<in>set is. ins_ok i" "sr_sized sr"
    "unat a + length (program_bytes is) < 2 ^ 64" "length is \<le> fuel"
  shows "run_cfi_program fuel m pi dci ip a (a + word_of_nat (length (program_bytes is))) sr pool =
    Ok (None, sr\<lparr>rs_current := (rs_current sr)\<lparr>rs_reg :=
      row_at dci ip (rs_reg (rs_initial sr)) is (start_ip pi) (rs_reg (rs_current sr))\<rparr>\<rparr>, pool)"
  using run_cfi_row [OF assms] by (simp add: with_rules_def)

text \<open>The program of a CIE as the compiler emits it, in the memory of theory \<^verbatim>\<open>Dwarf_FDE\<close>.\<close>

definition cie_program :: "cfi_ins list" where
  "cie_program = [I_def_cfa 7 8, I_offset 16 1, I_nop, I_nop]"

lemma uleb_small: "n < 128 \<Longrightarrow> uleb_encode n = [word_of_nat n]"
  by (subst uleb_encode.simps) simp

lemma cie_program_bytes: "program_bytes cie_program = [0x0c, 7, 8, 0x90, 1, 0, 0]"
  by (simp add: cie_program_def uleb_small)

theorem cfi_program_row_witness:
  "run_cfi_program 4 gcc_mem zero_proc_info (zero_cie_info\<lparr>data_align := - 8\<rparr>) 0 0x1011 0x1018 init_state_record (env0, pool0) =
    Ok (None, init_state_record\<lparr>rs_current := (rs_current init_state_record)\<lparr>rs_reg :=
      (replicate 19 (rule DWARF_WHERE_SAME 0))[17 := rule DWARF_WHERE_REG 7, 18 := rule DWARF_WHERE_UNDEF 8, 16 := rule DWARF_WHERE_CFAREL (- 8)]\<rparr>\<rparr>,
      (env0, pool0))"
proof -
  have "bytes_at gcc_mem 0x1011 [0x0c, 7, 8, 0x90, 1, 0, 0]" by code_simp
  then have "run_cfi_program 4 gcc_mem zero_proc_info (zero_cie_info\<lparr>data_align := - 8\<rparr>) 0 0x1011
      (0x1011 + word_of_nat (length (program_bytes cie_program))) init_state_record (env0, pool0) =
    Ok (None, init_state_record\<lparr>rs_current := (rs_current init_state_record)\<lparr>rs_reg :=
      row_at (zero_cie_info\<lparr>data_align := - 8\<rparr>) 0 (rs_reg (rs_initial init_state_record)) cie_program (start_ip zero_proc_info)
        (rs_reg (rs_current init_state_record))\<rparr>\<rparr>, (env0, pool0))"
    by (intro cfi_program_row) (simp_all add: cie_program_bytes,
      simp_all add: cie_program_def sr_sized_def init_state_record_def zero_reg_state_def DWARF_NUM_PRESERVED_REGS_def)
  then show ?thesis
    unfolding cie_program_bytes by (simp add: cie_program_def init_state_record_def DWARF_NUM_PRESERVED_REGS_def zero_proc_info_def)
qed

end
