(* ===== verification/Cxx_FDE.thy ===== *)
theory Cxx_FDE
  imports Proc_Search
begin

text \<open>
  The entries that a C++ compiler emits for functions with handlers or cleanups: a CIE with the augmentation \<open>zPLR\<close>, which names the personality
  routine, and an FDE with a pointer to the language-specific data. Theory \<^verbatim>\<open>Dwarf_FDE\<close> has those of functions without.
\<close>

section \<open>Pointers\<close>

text \<open>An offset of four bytes, and the pointers that the encodings 0x1b (relative) and 0x9b (relative and indirect) make of it.\<close>

definition offset_at :: "memory \<Rightarrow> addr \<Rightarrow> u32" where
  "offset_at m a = ucast (mem_le m 4 a)"

definition relative_pointer :: "memory \<Rightarrow> addr \<Rightarrow> u64" where
  "relative_pointer m a = (if offset_at m a = 0 then 0 else scast (offset_at m a) + a)"

definition indirect_pointer :: "memory \<Rightarrow> addr \<Rightarrow> u64" where
  "indirect_pointer m a = (if offset_at m a = 0 then 0 else read_word m (scast (offset_at m a) + a))"

lemma read_relative:
  "dwarf_read_encoded_pointer m a 0x1b pi = Ok (relative_pointer m a, a + 4)"
  "dwarf_read_encoded_pointer m a 0x9b pi = Ok (indirect_pointer m a, a + 4)"
  by (simp_all add: dwarf_read_encoded_pointer_def read_pointer_format_def dwarf_reads32_def apply_pointer_base_def
      dwarf_addr_size_def relative_pointer_def indirect_pointer_def offset_at_def)

section \<open>The CIE\<close>

definition cxx_cie_at :: "memory \<Rightarrow> addr \<Rightarrow> u32 \<Rightarrow> bool" where
  "cxx_cie_at m a cie_len = (mem_le m 4 a = ucast cie_len \<and> cie_len \<noteq> 0xffffffff \<and> mem_le m 4 (a + 4) = 0 \<and>
     bytes_at m (a + 8) [1, 0x7a, 0x50, 0x4c, 0x52, 0, 1, 0x78, 0x10, 7, 0x9b] \<and> bytes_at m (a + 23) [0x1b, 0x1b])"

lemma cxx_cie_parsed:
  assumes cie: "cxx_cie_at m a cie_len" and fuel: "5 \<le> fuel"
  shows "parse_cie fuel m a pi zero_cie_info 0 = Ok (zero_cie_info\<lparr>cie_instr_start := a + 25,
    cie_instr_end := a + 4 + ucast cie_len, code_align := 1, data_align := - 8, dci_ret_addr_column := 16,
    dci_handler := indirect_pointer m (a + 19), dci_fde_encoding := 0x1b, dci_lsda_encoding := 0x1b, sized_augmentation := True\<rparr>)"
proof -
  have b: "m (a + 8) = 1" "m (a + 9) = 0x7a" "m (a + 10) = 0x50" "m (a + 11) = 0x4c" "m (a + 12) = 0x52" "m (a + 13) = 0"
    "m (a + 14) = 1" "m (a + 15) = 0x78" "m (a + 16) = 0x10" "m (a + 17) = 7" "m (a + 18) = 0x9b" "m (a + 23) = 0x1b" "m (a + 24) = 0x1b"
    using cie by (simp_all add: cxx_cie_at_def add.assoc)
  have len: "mem_le m 4 a = ucast cie_len" "cie_len \<noteq> 0xffffffff" "mem_le m 4 (a + 4) = 0"
    using cie by (simp_all add: cxx_cie_at_def)
  have "dwarf_readu32 m a = (cie_len, a + 4)" "dwarf_readu32 m (a + 4) = (0, a + 8)"
    using len by (simp_all add: dwarf_readu32_def add.assoc)
  then have hd: "parse_cie_header m a 0 = Ok (a + 4 + ucast cie_len, a + 8)"
    using len(2) by (simp add: parse_cie_header_def)
  obtain n where n: "fuel = Suc (Suc (Suc (Suc (Suc n))))" using that [of "fuel - 5"] fuel by simp
  have aug: "read_augstr fuel m (a + 9) [] = Ok ([0x7a, 0x50, 0x4c, 0x52], a + 14)"
    using b by (simp add: n dwarf_readu8_def add.assoc)
  have ones: "120 OR push_bit 7 (- 1) = (- 8 :: u64)" by code_simp
  have data: "dwarf_read_sleb128 m (a + 15) = Ok (- 8, a + 16)"
    using b(8) ones by (simp add: dwarf_read_sleb128_def leb_one_byte shl64_def add.assoc)
  have cols: "parse_cie_columns m (a + 14) 1 dci =
      Ok (a + 17, dci\<lparr>code_align := 1, data_align := - 8, dci_ret_addr_column := 16\<rparr>)" for dci
    using b(7,9) data by (simp add: parse_cie_columns_def uleb_one_byte dwarf_readu8_def add.assoc)
  have handler: "dwarf_read_encoded_pointer m (a + 19) 0x9b pi = Ok (indirect_pointer m (a + 19), a + 23)"
    using read_relative(2) [of m "a + 19" pi] by (simp add: add.assoc)
  show ?thesis
    using b(1,10-13) hd aug cols handler
    by (simp add: parse_cie_def dwarf_readu8_def uleb_one_byte add.assoc zero_cie_info_def)
qed

section \<open>The FDE\<close>

definition cxx_fde_at :: "memory \<Rightarrow> addr \<Rightarrow> addr \<Rightarrow> u32 \<Rightarrow> u32 \<Rightarrow> u32 \<Rightarrow> bool" where
  "cxx_fde_at m a cie fde_len off len = (fde_range_at m a cie fde_len off len \<and> m (a + 16) = 4)"

definition cxx_cie_info :: "memory \<Rightarrow> addr \<Rightarrow> u32 \<Rightarrow> addr \<Rightarrow> u32 \<Rightarrow> dwarf_cie_info_t" where
  "cxx_cie_info m cie cie_len fde fde_len = zero_cie_info\<lparr>cie_instr_start := cie + 25,
     cie_instr_end := cie + 4 + ucast cie_len, fde_instr_start := fde + 21, fde_instr_end := fde + 4 + ucast fde_len,
     code_align := 1, data_align := - 8, dci_ret_addr_column := 16, dci_handler := indirect_pointer m (cie + 19),
     dci_fde_encoding := 0x1b, dci_lsda_encoding := 0x1b, sized_augmentation := True\<rparr>"

definition cxx_pi :: "memory \<Rightarrow> addr \<Rightarrow> addr \<Rightarrow> unw_proc_info_t \<Rightarrow> u64 \<Rightarrow> u64 \<Rightarrow> unw_proc_info_t" where
  "cxx_pi m cie fde pi first lim = pi\<lparr>start_ip := first, end_ip := lim, pi_handler := indirect_pointer m (cie + 19),
     pi_lsda := relative_pointer m (fde + 17)\<rparr>"

lemma cxx_fde_body:
  assumes "cxx_cie_at m cie cie_len" "cxx_fde_at m fde cie fde_len off len" "5 \<le> fuel"
    "first = fde + 8 + scast off" "s = (fde + 4 + ucast fde_len, cxx_pi m cie fde pi first (first + scast len), pool)"
  shows "dwarf_extract_proc_info_from_fde fuel m need 0 (fde, pi, pool) =
    (if need then fde_unwind_info m ((cxx_cie_info m cie cie_len fde fde_len)\<lparr>fde_instr_start := 0, fde_instr_end := 0\<rparr>)
       (fde + 21) (fde + 21) (fde + 4 + ucast fde_len) s
     else ret () s)"
proof -
  have f: "fde_range_at m fde cie fde_len off len" "m (fde + 16) = 4" using assms(2) by (simp_all add: cxx_fde_at_def)
  note range = fde_range_read [OF f(1) assms(4), of pi]
  have aug: "dwarf_read_uleb128 m (fde + 16) = Ok (4, fde + 17)" using f(2) by (simp add: uleb_one_byte add.assoc)
  have lsda: "dwarf_read_encoded_pointer m (fde + 17) 0x1b q = Ok (relative_pointer m (fde + 17), fde + 21)" for q
    using read_relative(1) [of m "fde + 17" q] by (simp add: add.assoc)
  have "dwarf_extract_proc_info_from_fde fuel m need 0 (fde, pi, pool) =
      fde_body m need ((cxx_cie_info m cie cie_len fde fde_len)\<lparr>fde_instr_start := 0, fde_instr_end := 0\<rparr>) (fde + 8)
        (fde + 4 + ucast fde_len) (fde + 4 + ucast fde_len, pi, pool)"
    by (simp add: dwarf_extract_proc_info_from_fde_def fde_range_header [OF f(1)] cxx_cie_parsed [OF assms(1,3)] cxx_cie_info_def)
       (simp add: zero_cie_info_def)
  then show ?thesis using range aug lsda assms(5)
    by (simp add: fde_body_def cxx_cie_info_def cxx_pi_def zero_cie_info_def Let_def add.commute [of 21 fde])
qed

lemma cxx_extract:
  assumes "cxx_cie_at m cie cie_len" "cxx_fde_at m a cie fde_len off len" "5 \<le> fuel"
    "first = a + 8 + scast off" "lim = first + scast len"
  shows "dwarf_extract_proc_info_from_fde fuel m False 0 (a, pi, pool) =
      ret () (a + 4 + ucast fde_len, cxx_pi m cie a pi first lim, pool)"
    "pool_alloc pool = Ok (obj, pool') \<Longrightarrow> obj \<noteq> 0 \<Longrightarrow>
     dwarf_extract_proc_info_from_fde fuel m True 0 (a, pi, pool) = ret () (a + 4 + ucast fde_len,
        gcc_unwind_pi (cxx_pi m cie a pi first lim) obj (cxx_cie_info m cie cie_len a fde_len), pool')"
  unfolding cxx_fde_body [OF assms(1-4) refl]
  by (simp_all add: assms(5) fde_unwind_info_def cxx_cie_info_def gcc_unwind_pi_def zero_cie_info_def)

end
