(* ===== verification/Unw_Registered.thy ===== *)
theory Unw_Registered
  imports Unw_Step Elf_Image Cfi_Rules Cxx_FDE
begin

text \<open>
  A step through code with compiler-emitted unwind information that has been registered as a table: the registration list, the
  binary search, the FDE and its CIE, the call frame programs, the application of the rules to the cursor and the
  object pool, put together. It is the way in which the library uses unwind information (\<^verbatim>\<open>Unw_Step\<close> shows that it does not
  use that of loaded modules).
\<close>

section \<open>Compiled functions\<close>

text \<open>The registers that hold saved values are among the seventeen too.\<close>

fun src_ok :: "cfi_ins \<Rightarrow> bool" where
  "src_ok (I_register r q) = (q < 17)"
| "src_ok _ = True"

text \<open>A program between two addresses.\<close>

definition program_at :: "memory \<Rightarrow> addr \<Rightarrow> addr \<Rightarrow> cfi_ins list \<Rightarrow> bool" where
  "program_at m a e is = (bytes_at m a (program_bytes is) \<and> (\<forall>i\<in>set is. ins_ok i \<and> src_ok i) \<and>
     e = a + word_of_nat (length (program_bytes is)) \<and> unat a + length (program_bytes is) < 2 ^ 64)"

lemma run_program_at:
  assumes "program_at m a e is" "sr_sized sr" "length is \<le> fuel"
  shows "run_cfi_program fuel m pi dci ip a e sr pool =
    Ok (None, with_rules sr (row_at dci ip (rs_reg (rs_initial sr)) is (start_ip pi) (rs_reg (rs_current sr))), pool)"
proof -
  have p: "bytes_at m a (program_bytes is)" "\<forall>i\<in>set is. ins_ok i" "unat a + length (program_bytes is) < 2 ^ 64"
    and e: "e = a + word_of_nat (length (program_bytes is))"
    using assms(1) unfolding program_at_def by blast+
  show ?thesis unfolding e by (rule run_cfi_row [OF p(1,2) assms(2) p(3) assms(3)])
qed

text \<open>What a compiler knows of a function: its programs, personality routine and language-specific data; and the CIE it shares with others.\<close>

record fn_desc =
  fd_cie :: addr
  fd_cie_len :: u32
  fd_cie_program :: "cfi_ins list"
  fd_program :: "cfi_ins list"
  fd_handler :: u64
  fd_lsda :: u64

text \<open>The entries of C functions, and those of C++ functions with handlers or cleanups. A CIE program begins with the rule for the CFA.\<close>

definition starts_with_cfa :: "cfi_ins list \<Rightarrow> bool" where
  "starts_with_cfa is = (case is of I_def_cfa r n # _ \<Rightarrow> r < 17 | _ \<Rightarrow> False)"

definition c_fn_at :: "memory \<Rightarrow> fn_desc \<Rightarrow> table_fn \<Rightarrow> bool" where
  "c_fn_at m d = (\<lambda>(fde, fde_len, off, len). gcc_cie_at m (fd_cie d) (fd_cie_len d) \<and> gcc_fde_at m fde (fd_cie d) fde_len off len \<and>
     fd_handler d = 0 \<and> fd_lsda d = 0 \<and>
     program_at m (fd_cie d + 17) (fd_cie d + 4 + ucast (fd_cie_len d)) (fd_cie_program d) \<and>
     program_at m (fde + 17) (fde + 4 + ucast fde_len) (fd_program d))"

definition cxx_fn_at :: "memory \<Rightarrow> fn_desc \<Rightarrow> table_fn \<Rightarrow> bool" where
  "cxx_fn_at m d = (\<lambda>(fde, fde_len, off, len). cxx_cie_at m (fd_cie d) (fd_cie_len d) \<and> cxx_fde_at m fde (fd_cie d) fde_len off len \<and>
     fd_handler d = indirect_pointer m (fd_cie d + 19) \<and> fd_lsda d = relative_pointer m (fde + 17) \<and>
     program_at m (fd_cie d + 25) (fd_cie d + 4 + ucast (fd_cie_len d)) (fd_cie_program d) \<and>
     program_at m (fde + 21) (fde + 4 + ucast fde_len) (fd_program d))"

definition compiled_fn :: "memory \<Rightarrow> fn_desc \<Rightarrow> table_fn \<Rightarrow> bool" where
  "compiled_fn m d f = (starts_with_cfa (fd_cie_program d) \<and> (c_fn_at m d f \<or> cxx_fn_at m d f))"

text \<open>What both decode to.\<close>

definition fn_pi :: "fn_desc \<Rightarrow> table_fn \<Rightarrow> unw_proc_info_t \<Rightarrow> unw_proc_info_t" where
  "fn_pi d f pi = pi\<lparr>start_ip := fn_start f, end_ip := fn_end f, pi_handler := fd_handler d, pi_lsda := fd_lsda d\<rparr>"

definition dci_for :: "memory \<Rightarrow> fn_desc \<Rightarrow> dwarf_cie_info_t \<Rightarrow> bool" where
  "dci_for m d dci = (code_align dci = 1 \<and> data_align dci = - 8 \<and> dci_ret_addr_column dci = 16 \<and> \<not> dci_signal_frame dci \<and>
     program_at m (cie_instr_start dci) (cie_instr_end dci) (fd_cie_program d) \<and>
     program_at m (fde_instr_start dci) (fde_instr_end dci) (fd_program d))"

lemma compiled_extract:
  assumes "compiled_fn m d f" "5 \<le> fuel"
  shows "\<exists>dci a'. dci_for m d dci \<and>
    dwarf_extract_proc_info_from_fde fuel m False 0 (fst f, pi, pool) = ret () (a', fn_pi d f pi, pool) \<and>
    (pool_alloc pool = Ok (obj, pool') \<longrightarrow> obj \<noteq> 0 \<longrightarrow>
      dwarf_extract_proc_info_from_fde fuel m True 0 (fst f, pi, pool) = ret () (a', gcc_unwind_pi (fn_pi d f pi) obj dci, pool'))"
proof -
  obtain fde fde_len off len where f: "f = (fde, fde_len, off, len)" by (cases f)
  let ?cie = "fd_cie d" and ?n = "fd_cie_len d" and ?a = "fde + 4 + ucast fde_len"
  have s: "fn_start f = fde + 8 + scast off" "fn_end f = fn_start f + scast len" by (simp_all add: f fn_start_def fn_end_def)
  from assms(1) consider "c_fn_at m d f" | "cxx_fn_at m d f" by (auto simp: compiled_fn_def)
  then show ?thesis
  proof cases
    case 1
    then have c: "gcc_cie_at m ?cie ?n" "gcc_fde_at m fde ?cie fde_len off len" "fd_handler d = 0" "fd_lsda d = 0"
      and "dci_for m d (gcc_cie_info ?cie ?n fde fde_len)"
      by (simp_all add: c_fn_at_def f dci_for_def gcc_cie_info_def zero_cie_info_def)
    moreover have "fn_pi d f pi = gcc_pi pi (fn_start f) (fn_end f)" by (simp add: fn_pi_def gcc_pi_def c)
    ultimately show ?thesis using gcc_extract [OF c(1,2) _ s, of fuel] assms(2)
      by (intro exI [of _ "gcc_cie_info ?cie ?n fde fde_len"] exI [of _ ?a]) (simp add: f)
  next
    case 2
    then have c: "cxx_cie_at m ?cie ?n" "cxx_fde_at m fde ?cie fde_len off len" "fd_handler d = indirect_pointer m (?cie + 19)"
        "fd_lsda d = relative_pointer m (fde + 17)"
      and "dci_for m d (cxx_cie_info m ?cie ?n fde fde_len)"
      by (simp_all add: cxx_fn_at_def f dci_for_def cxx_cie_info_def zero_cie_info_def)
    moreover have "fn_pi d f pi = cxx_pi m ?cie fde pi (fn_start f) (fn_end f)" by (simp add: fn_pi_def cxx_pi_def c)
    ultimately show ?thesis using cxx_extract [OF c(1,2) assms(2) s]
      by (intro exI [of _ "cxx_cie_info m ?cie ?n fde fde_len"] exI [of _ ?a]) (simp add: f)
  qed
qed

text \<open>The rules of the row of \<open>ip\<close> in a function that starts at \<open>start\<close>, for the alignment factors of the compiler.\<close>

definition fn_dci :: dwarf_cie_info_t where
  "fn_dci = zero_cie_info\<lparr>code_align := 1, data_align := - 8\<rparr>"

definition fn_row :: "fn_desc \<Rightarrow> u64 \<Rightarrow> u64 \<Rightarrow> rules" where
  "fn_row d start ip =
     (let R = row_at fn_dci (NOT 0) (rs_reg (rs_initial init_state_record)) (fd_cie_program d) start (rs_reg (rs_current init_state_record)) in
      row_at fn_dci ip R (fd_program d) start R)"

lemma row_at_cong:
  "code_align dci = code_align dci' \<Longrightarrow> data_align dci = data_align dci' \<Longrightarrow> row_at dci ip init is loc R = row_at dci' ip init is loc R"
  by (induction "is" arbitrary: loc R) simp_all

lemma row_at_length [simp]: "length (row_at dci ip init is loc R) = length R"
  by (induction "is" arbitrary: loc R) simp_all

lemma init_state_sized: "sr_sized init_state_record"
  by (simp add: sr_sized_def init_state_record_def zero_reg_state_def DWARF_NUM_PRESERVED_REGS_def)

definition row_state :: "rules \<Rightarrow> dwarf_reg_state_t" where
  "row_state R = zero_reg_state\<lparr>rs_reg := R\<rparr>"

text \<open>The state record of a compiled function.\<close>

lemma parse_fde_row:
  assumes ui: "pi_unwind_info (c_pi c) = UI_cie obj dci" and dci: "dci_for m d dci"
    and fuel: "length (fd_cie_program d) \<le> fuel" "length (fd_program d) \<le> fuel"
  shows "\<exists>sr. parse_fde fuel m c ip init_state_record pool = Ok (None, sr, c\<lparr>c_ret_addr_column := 16\<rparr>, pool) \<and>
    rs_current sr = row_state (fn_row d (start_ip (c_pi c)) ip)"
proof -
  let ?pi = "c_pi c" and ?sr = init_state_record and ?start = "start_ip (c_pi c)"
  define R where "R = row_at dci (NOT 0) (rs_reg (rs_initial ?sr)) (fd_cie_program d) ?start (rs_reg (rs_current ?sr))"
  define sr1 where "sr1 = (with_rules ?sr R)\<lparr>rs_initial := rs_current (with_rules ?sr R)\<rparr>"
  have al: "code_align dci = code_align fn_dci" "data_align dci = data_align fn_dci" "dci_ret_addr_column dci = 16"
    and p: "program_at m (cie_instr_start dci) (cie_instr_end dci) (fd_cie_program d)"
      "program_at m (fde_instr_start dci) (fde_instr_end dci) (fd_program d)"
    using dci by (simp_all add: dci_for_def fn_dci_def)
  have rows: "row_at dci i Q is l S = row_at fn_dci i Q is l S" for i Q "is" l S by (rule row_at_cong [OF al(1,2)])
  have "run_cfi_program fuel m ?pi dci (NOT 0) (cie_instr_start dci) (cie_instr_end dci) ?sr pool = Ok (None, with_rules ?sr R, pool)"
    unfolding R_def by (rule run_program_at [OF p(1) init_state_sized fuel(1)])
  moreover have s: "rs_reg (rs_initial sr1) = R" "rs_reg (rs_current sr1) = R" "sr_sized sr1"
    using init_state_sized by (simp_all add: sr1_def sr_sized_def R_def)
  have "run_cfi_program fuel m ?pi dci ip (fde_instr_start dci) (fde_instr_end dci) sr1 pool =
      Ok (None, with_rules sr1 (row_at dci ip R (fd_program d) ?start R), pool)"
    using run_program_at [OF p(2) s(3) fuel(2), of ?pi dci ip pool] s(1,2) by simp
  ultimately have "parse_fde fuel m c ip ?sr pool =
      Ok (None, with_rules sr1 (row_at dci ip R (fd_program d) ?start R), c\<lparr>c_ret_addr_column := 16\<rparr>, pool)"
    using ui al by (simp add: parse_fde_def sr1_def Let_def)
  moreover have "rs_current (with_rules sr1 (row_at dci ip R (fd_program d) ?start R)) = row_state (fn_row d ?start ip)"
    by (simp add: with_rules_def sr1_def row_state_def fn_row_def R_def rows Let_def init_state_record_def)
  ultimately show ?thesis by blast
qed

section \<open>Finding the function\<close>

text \<open>A registered table that describes the functions \<open>fs\<close>, and a function that such a table has for \<open>pc\<close>.\<close>

definition describes_table :: "memory \<Rightarrow> unw_dyn_info_t \<Rightarrow> table_fn list \<Rightarrow> bool" where
  "describes_table m di fs = (di_format di = UNW_INFO_FORMAT_REMOTE_TABLE \<and> di_table_data di = di_segbase di + 12 \<and>
     di_table_len di = of_nat (length fs) \<and> length fs < 2 ^ 32 \<and> index_table m (di_segbase di) (di_start_ip di) (di_end_ip di) fs)"

definition registered_fn :: "nat \<Rightarrow> memory \<Rightarrow> dyn_state \<Rightarrow> u64 \<Rightarrow> fn_desc \<Rightarrow> table_fn \<Rightarrow> bool" where
  "registered_fn fuel m dyn pc d f = (\<exists>p di fs. dyn_lookup fuel dyn (ds_first dyn) pc = Ok (Some (p, di)) \<and> describes_table m di fs \<and>
     find (fn_covers pc) fs = Some f \<and> compiled_fn m d f \<and>
     5 \<le> fuel \<and> length (fd_cie_program d) \<le> fuel \<and> length (fd_program d) \<le> fuel)"

text \<open>The cursor after a successful lookup.\<close>

definition found_cursor :: "cursor \<Rightarrow> unw_proc_info_t \<Rightarrow> cursor" where
  "found_cursor c pi = c\<lparr>c_pi := pi, c_pi_valid := True, c_pi_is_dynamic := True, c_use_prev_instr := True\<rparr>"

definition set_pool :: "unw_lib \<Rightarrow> pool_state \<Rightarrow> unw_lib" where
  "set_pool L pool = L\<lparr>l_env := fst pool, l_cie_pool := snd pool\<rparr>"

lemma lookup_registered:
  assumes fn: "registered_fn fuel (m_mem (l_machine L)) (l_dyn L) pc d f"
  shows "\<exists>pi. lookup_proc_info fuel pc False (c, L) = Ok (Ret (), True, c\<lparr>c_pi := pi\<rparr>, L) \<and>
      pi_format pi = UNW_INFO_FORMAT_REMOTE_TABLE \<and> pi_handler pi = fd_handler d"
    and "pool_alloc (l_env L, l_cie_pool L) = Ok (obj, pool) \<Longrightarrow> obj \<noteq> 0 \<Longrightarrow>
      \<exists>pi dci. lookup_proc_info fuel pc True (c, L) = Ok (Ret (), True, c\<lparr>c_pi := pi\<rparr>, set_pool L pool) \<and>
      pi_format pi = UNW_INFO_FORMAT_TABLE \<and> pi_unwind_info pi = UI_cie obj dci \<and> dci_for (m_mem (l_machine L)) d dci \<and>
      start_ip pi = fn_start f"
proof -
  let ?m = "m_mem (l_machine L)" and ?p = "(l_env L, l_cie_pool L)"
  obtain p di fs where lk: "dyn_lookup fuel (l_dyn L) (ds_first (l_dyn L)) pc = Ok (Some (p, di))" and t: "describes_table ?m di fs"
    and f: "find (fn_covers pc) fs = Some f" "compiled_fn ?m d f" "5 \<le> fuel"
    using fn unfolding registered_fn_def by blast
  have di: "di_format di = UNW_INFO_FORMAT_REMOTE_TABLE" "di_table_data di = di_segbase di + 12" "di_table_len di = of_nat (length fs)"
    "length fs < 2 ^ 32" "index_table ?m (di_segbase di) (di_start_ip di) (di_end_ip di) fs"
    using t by (simp_all add: describes_table_def)
  obtain i where i: "i < length fs" "fs ! i = f" "fn_covers pc f" using f(1) by (auto simp: find_Some_iff)
  have "di_start_ip di \<le> fn_start f" "fn_end f \<le> di_end_ip di" using index_table_fn [OF di(5) i(1)] i(2) by auto
  then have pc: "di_start_ip di \<le> pc" "pc < di_end_ip di" using i(3) by (auto simp: fn_covers_def intro: order_trans less_le_trans)
  let ?q = "zero_proc_info\<lparr>start_ip := di_start_ip di, end_ip := di_end_ip di, pi_gp := di_gp di, pi_format := di_format di\<rparr>"
  have ex: "unwi_find_dynamic_proc_info fuel (l_dyn L) ?m pc need (zero_proc_info, l_env L, l_cie_pool L) =
      dwarf_search_unwind_table fuel ?m pc di need (?q, ?p)" for need
    using lk di(1) by (simp add: unwi_find_dynamic_proc_info_def unwi_extract_dynamic_proc_info_def)
  note srch = search_index_table(1) [OF di(5,4) pc di(1) refl refl refl di(2,3) f(1), of fuel _ ?q ?p]
  obtain a' where "dwarf_extract_proc_info_from_fde fuel ?m False 0 (fst f, ?q, ?p) = ret () (a', fn_pi d f ?q, ?p)"
    using compiled_extract [OF f(2,3), of ?q ?p] by blast
  from srch [OF this] have "dwarf_search_unwind_table fuel ?m pc di False (?q, ?p) = ret () (fn_pi d f ?q, ?p)" by (simp add: fn_pi_def)
  then show "\<exists>pi. lookup_proc_info fuel pc False (c, L) = Ok (Ret (), True, c\<lparr>c_pi := pi\<rparr>, L) \<and>
      pi_format pi = UNW_INFO_FORMAT_REMOTE_TABLE \<and> pi_handler pi = fd_handler d"
    using ex [of False] di(1) by (intro exI [of _ "fn_pi d f ?q"]) (simp add: lookup_proc_info_def ret_def fn_pi_def)
  show "\<exists>pi dci. lookup_proc_info fuel pc True (c, L) = Ok (Ret (), True, c\<lparr>c_pi := pi\<rparr>, set_pool L pool) \<and>
      pi_format pi = UNW_INFO_FORMAT_TABLE \<and> pi_unwind_info pi = UI_cie obj dci \<and> dci_for ?m d dci \<and> start_ip pi = fn_start f"
    if alloc: "pool_alloc ?p = Ok (obj, pool)" "obj \<noteq> 0"
  proof -
    obtain dci a' where dci: "dci_for ?m d dci"
      "dwarf_extract_proc_info_from_fde fuel ?m True 0 (fst f, ?q, ?p) = ret () (a', gcc_unwind_pi (fn_pi d f ?q) obj dci, pool)"
      using compiled_extract [OF f(2,3), of ?q ?p obj pool] alloc by blast
    from srch [OF this(2)] have "dwarf_search_unwind_table fuel ?m pc di True (?q, ?p) = ret () (gcc_unwind_pi (fn_pi d f ?q) obj dci, pool)"
      by (simp add: fn_pi_def gcc_unwind_pi_def)
    then show ?thesis using ex [of True] dci(1)
      by (cases pool) (auto simp: lookup_proc_info_def ret_def fn_pi_def gcc_unwind_pi_def set_pool_def)
  qed
qed

lemma fetch_registered:
  assumes fn: "registered_fn fuel (m_mem (l_machine L)) (l_dyn L) (lookup_ip c) d f"
    and alloc: "pool_alloc (l_env L, l_cie_pool L) = Ok (obj, pool)" "obj \<noteq> 0"
  shows "\<exists>pi dci. fetch_proc_info fuel (c_ip c) True (c, L) = ret () (found_cursor c pi, set_pool L pool) \<and>
    pi_format pi = UNW_INFO_FORMAT_TABLE \<and> pi_unwind_info pi = UI_cie obj dci \<and> dci_for (m_mem (l_machine L)) d dci \<and> start_ip pi = fn_start f"
proof -
  obtain pi dci where pi: "lookup_proc_info fuel (lookup_ip c) True (c\<lparr>c_pi := zero_proc_info\<rparr>, L) = Ok (Ret (), True, c\<lparr>c_pi := pi\<rparr>, set_pool L pool)"
    "pi_format pi = UNW_INFO_FORMAT_TABLE" "pi_unwind_info pi = UI_cie obj dci" "dci_for (m_mem (l_machine L)) d dci" "start_ip pi = fn_start f"
    using lookup_registered(2) [OF fn alloc, of "c\<lparr>c_pi := zero_proc_info\<rparr>"] by auto
  moreover from pi(4) have "\<not> dci_signal_frame dci" by (simp add: dci_for_def)
  ultimately have "fetch_proc_info fuel (c_ip c) True (c, L) = ret () (found_cursor c pi, set_pool L pool)"
    by (simp add: fetch_proc_info_def accept_proc_info_def found_cursor_def lookup_ip_def ret_def)
  then show ?thesis using pi by blast
qed

section \<open>Applying the row\<close>

text \<open>The base of the CFA: compilers use the stack pointer, which is the CFA of the frame before, and the frame pointer.\<close>

definition cfa_base :: "memory \<Rightarrow> cursor \<Rightarrow> rules \<Rightarrow> u64" where
  "cfa_base m c R = (if sl_val (R ! 17) = 7 then c_cfa c else read_word m (c_loc c ! RBP))"

definition base_readable :: "cursor \<Rightarrow> rules \<Rightarrow> bool" where
  "base_readable c R = (sl_val (R ! 17) = 7 \<or> sl_val (R ! 17) = 6 \<and> PAGE_START (c_loc c ! RBP) \<noteq> 0)"

lemma page_zero: "PAGE_START 0 = 0"
  by (simp add: PAGE_START_def)

lemma cfa_base_read:
  assumes "base_readable c R" "c_validate c"
  shows "\<exists>M'. unw_get_reg M c (int (unat (sl_val (R ! 17)))) = Ok (cfa_base (m_mem M) c R, M')"
proof (cases "sl_val (R ! 17) = 7")
  case True
  then show ?thesis by (simp add: unw_get_reg_RSP cfa_base_def)
next
  case False
  then have "sl_val (R ! 17) = 6" "readable_loc c (c_loc c ! RBP)"
    using assms page_zero by (auto simp: base_readable_def readable_loc_def)
  then show ?thesis using dwarf_get_readable [of c "c_loc c ! RBP" M]
    by (auto simp: unw_get_reg_def tdep_access_reg_read_def cfa_base_def)
qed

lemma put_registered:
  assumes "c_pi_is_dynamic c" "pi_format (c_pi c) = UNW_INFO_FORMAT_TABLE"
  shows "put_unwind_info (c, L) = Ok (c, L)"
  using assms by (simp add: put_unwind_info_def unwi_put_dynamic_unwind_info_def dwarf_put_unwind_info_def Let_def)

text \<open>\<open>dwarf_step\<close> when the unwind information has been found and describes the row \<open>R\<close>.\<close>

lemma dwarf_step_row:
  assumes fetch: "fetch_proc_info fuel (c_ip c) True (c, L) = ret () (d, K)" "c_pi_valid d" "c_pi_is_dynamic d"
      "pi_format (c_pi d) = UNW_INFO_FORMAT_TABLE" "c_ip d = c_ip c"
    and parse: "parse_fde fuel (m_mem (l_machine K)) d (c_ip c) init_state_record (l_env K, l_rs_pool K) =
        Ok (None, sr, d\<lparr>c_ret_addr_column := 16\<rparr>, (l_env K, l_rs_pool K))" "rs_current sr = row_state R"
    and row: "simple_rules (row_state R)" "base_readable d R" "c_validate d" "length (c_loc d) = 17" "\<not> c_stash_frames d"
    and cfa: "cfa = cfa_base (m_mem (l_machine K)) d R + sl_val (R ! 18)" "locs = map2 (rule_loc d cfa) (take 17 R) (c_loc d)"
      "locs ! 16 = 0 \<or> PAGE_START (locs ! 16) \<noteq> 0" "ip = (if locs ! 16 = 0 then 0 else read_word (m_mem (l_machine K)) (locs ! 16))"
  shows "\<exists>M'. m_mem M' = m_mem (l_machine K) \<and> dwarf_step fuel (c, L) =
    (let e = d\<lparr>c_ret_addr_column := 16, c_loc := locs, c_cfa := cfa, c_ip := ip\<rparr>; K' = K\<lparr>l_machine := M'\<rparr> in
     if ip = c_ip d \<and> cfa = c_cfa d then throw UNW_EBADFRAME (e, K') else ret () (e\<lparr>c_pi_valid := False\<rparr>, K'))"
proof -
  let ?d = "d\<lparr>c_ret_addr_column := 16\<rparr>" and ?M = "l_machine K" and ?rs = "row_state R"
  let ?e = "?d\<lparr>c_loc := locs, c_cfa := cfa, c_ip := ip\<rparr>"
  have R: "rs_reg ?rs = R" by (simp add: row_state_def)
  have rec: "lib_state_record fuel (d, K) = ret sr (?d, K)"
    using parse(1) fetch(2,4,5) by (simp add: lib_state_record_def create_state_record_for_def)
  have "base_readable ?d R" "c_validate ?d" using row(2,3) by (simp_all add: base_readable_def)
  from cfa_base_read [OF this, of ?M] obtain M1 where
    M1: "unw_get_reg ?M ?d (int (unat (sl_val (rs_reg ?rs ! 17)))) = Ok (cfa_base (m_mem ?M) d R, M1)"
    by (auto simp: R cfa_base_def)
  have locs: "locs = caller_locs ?d cfa ?rs"
    using cfa(2) rule_loc_cong [of ?d d] by (simp add: caller_locs_def R)
  have e: "?e = caller_cursor (m_mem ?M) ?d cfa ?rs" using locs cfa(4) by (simp add: caller_cursor_def)
  have len: "length (c_loc ?d) = 17" "unat (c_ret_addr_column ?d) < 17" using row(4) by simp_all
  have ra: "locs ! 16 = caller_locs ?d cfa ?rs ! unat (c_ret_addr_column ?d)" "locs ! 16 = 0 \<or> readable_loc ?d (locs ! 16)"
    using cfa(3) locs page_zero by (auto simp: readable_loc_def)
  have off: "cfa = cfa_base (m_mem ?M) d R + sl_val (rs_reg ?rs ! 18)" using cfa(1) by (simp add: R)
  obtain M' where M': "m_mem M' = m_mem ?M" "apply_reg_state fuel ?rs (?d, ?M) =
      (if ip = c_ip d \<and> cfa = c_cfa d then throw UNW_EBADFRAME (?e, M') else ret () (?e, M'))"
    using apply_reg_state_simple [OF row(1) len M1 off ra e, of fuel] row(5) by auto
  have "put_unwind_info (?e, K\<lparr>l_machine := M'\<rparr>) = Ok (?e, K\<lparr>l_machine := M'\<rparr>)" by (rule put_registered) (use fetch in simp_all)
  then have "dwarf_step fuel (c, L) = (if ip = c_ip d \<and> cfa = c_cfa d then throw UNW_EBADFRAME (?e, K\<lparr>l_machine := M'\<rparr>)
      else ret () (?e\<lparr>c_pi_valid := False\<rparr>, K\<lparr>l_machine := M'\<rparr>))"
    using fetch(1) rec M'(2) parse(2)
    by (cases "ip = c_ip d \<and> cfa = c_cfa d")
       (simp_all add: dwarf_step_def dwarf_find_save_locs_def uncached_dwarf_find_save_locs_def on_machine_def ret_def throw_def)
  then show ?thesis using M'(1) by (auto simp: Let_def)
qed

section \<open>Rows of compilers\<close>

definition saved_simple :: "rules \<Rightarrow> bool" where
  "saved_simple R = (length R = 19 \<and> (\<forall>l\<in>set (take 17 R). sl_where l \<noteq> DWARF_WHERE_EXPR \<and>
     (sl_where l = DWARF_WHERE_REG \<longrightarrow> unat (sl_val l) \<le> 16)))"

lemma simple_saved: "simple_rules (row_state R) \<Longrightarrow> saved_simple R"
  by (simp add: simple_rules_def saved_simple_def row_state_def)

lemma rules_update:
  assumes "simple_rules (row_state R)" "k < 17" "sl_where l \<noteq> DWARF_WHERE_EXPR" "sl_where l = DWARF_WHERE_REG \<Longrightarrow> unat (sl_val l) \<le> 16"
  shows "simple_rules (row_state (R[k := l]))"
  using assms set_update_subset_insert [of "take 17 R" k l] by (fastforce simp: simple_rules_def row_state_def take_update_swap)

lemma rules_cfa:
  assumes "simple_rules (row_state R)"
  shows "r < 17 \<Longrightarrow> simple_rules (row_state (R[17 := rule DWARF_WHERE_REG r]))" "simple_rules (row_state (R[18 := l]))"
  using assms small_reg(1) [of r] by (auto simp: simple_rules_def row_state_def)

lemma ins_rules_simple:
  assumes "simple_rules (row_state R)" "saved_simple init" "ins_ok i" "src_ok i"
  shows "simple_rules (row_state (ins_rules align init i R))"
proof (cases i)
  case (I_restore r)
  have "unat r < 17" using assms(3) I_restore small_reg(1) by simp
  moreover have "init ! unat r \<in> set (take 17 init)"
    using assms(2) calculation by (auto simp: saved_simple_def in_set_conv_nth intro!: exI [of _ "unat r"])
  ultimately show ?thesis using assms(1,2) I_restore rules_update [of R "unat r" "init ! unat r"]
    by (simp add: saved_simple_def)
next
  case (I_register r q)
  have "unat r < 17" "unat q < 17" using assms(3,4) I_register small_reg(1) by simp_all
  then show ?thesis using assms(1) I_register by (simp add: rules_update)
next
  case (I_offset r n)
  have "unat r < 17" using assms(3) I_offset small_reg(1) by simp
  then show ?thesis using rules_update [OF assms(1), of "unat r" "rule DWARF_WHERE_CFAREL (n * align)"] I_offset by simp
qed (use assms small_reg(1) in \<open>simp_all add: rules_update rules_cfa\<close>)

lemma row_at_simple:
  assumes "simple_rules (row_state R)" "saved_simple init" "\<forall>i\<in>set is. ins_ok i \<and> src_ok i"
  shows "simple_rules (row_state (row_at dci ip init is loc R))"
  using assms by (induction "is" arbitrary: loc R) (simp_all add: ins_rules_simple)

lemma fn_row_simple:
  assumes "starts_with_cfa (fd_cie_program d)" "\<forall>i\<in>set (fd_cie_program d). ins_ok i \<and> src_ok i" "\<forall>i\<in>set (fd_program d). ins_ok i \<and> src_ok i"
  shows "simple_rules (row_state (fn_row d start ip))"
proof -
  let ?Z = "rs_reg (rs_current init_state_record)" and ?I = "rs_reg (rs_initial init_state_record)"
  obtain r n rest where c: "fd_cie_program d = I_def_cfa r n # rest" "r < 17"
    using assms(1) by (auto simp: starts_with_cfa_def split: list.splits cfi_ins.splits)
  let ?S = "?Z[17 := rule DWARF_WHERE_REG r, 18 := rule DWARF_WHERE_UNDEF n]"
  let ?R = "row_at fn_dci (NOT 0) ?I (fd_cie_program d) start ?Z"
  have "simple_rules (row_state ?S)" using small_reg(1) [OF c(2)]
    by (auto simp: simple_rules_def row_state_def init_state_record_def DWARF_NUM_PRESERVED_REGS_def)
  moreover have "saved_simple ?I" by (simp add: saved_simple_def init_state_record_def zero_reg_state_def DWARF_NUM_PRESERVED_REGS_def)
  moreover have "?R = row_at fn_dci (NOT 0) ?I rest start ?S" by (simp add: c(1))
  ultimately have "simple_rules (row_state ?R)" using assms(2) c(1) by (simp add: row_at_simple)
  from row_at_simple [OF this simple_saved [OF this] assms(3)] show ?thesis unfolding fn_row_def Let_def .
qed

section \<open>A step\<close>

text \<open>The row that the registered unwind information has for \<open>ip\<close>, where \<open>pc\<close> is the address looked up.\<close>

definition registered_row :: "nat \<Rightarrow> memory \<Rightarrow> dyn_state \<Rightarrow> u64 \<Rightarrow> u64 \<Rightarrow> rules \<Rightarrow> bool" where
  "registered_row fuel m dyn pc ip R = (\<exists>d f. registered_fn fuel m dyn pc d f \<and> R = fn_row d (fn_start f) ip)"

text \<open>The cursor in the frame that a row describes, and what the row needs to be applied.\<close>

definition row_caller :: "memory \<Rightarrow> rules \<Rightarrow> cursor \<Rightarrow> cursor" where
  "row_caller m R c =
     (let cfa = cfa_base m c R + sl_val (R ! 18); locs = map2 (rule_loc c cfa) (take 17 R) (c_loc c) in
      c\<lparr>c_cfa := cfa, c_loc := locs, c_ip := (if locs ! 16 = 0 then 0 else read_word m (locs ! 16))\<rparr>)"

definition row_applies :: "memory \<Rightarrow> rules \<Rightarrow> cursor \<Rightarrow> bool" where
  "row_applies m R c = (base_readable c R \<and> length (c_loc c) = 17 \<and>
     (let ra = c_loc (row_caller m R c) ! 16 in ra = 0 \<or> PAGE_START ra \<noteq> 0))"

definition same_frame :: "cursor \<Rightarrow> cursor \<Rightarrow> bool" where
  "same_frame c d = (c_ip c = c_ip d \<and> c_cfa c = c_cfa d \<and> c_loc c = c_loc d \<and> c_uc c = c_uc d)"

definition no_progress :: "cursor \<Rightarrow> cursor \<Rightarrow> bool" where
  "no_progress c d = (c_ip d = c_ip c \<and> c_cfa d = c_cfa c)"

text \<open>A cursor that a step took from \<open>c\<close> to the frame of \<open>w\<close>.\<close>

definition stepped :: "cursor \<Rightarrow> cursor \<Rightarrow> cursor \<Rightarrow> bool" where
  "stepped c w e = (same_frame e w \<and> c_use_prev_instr e \<and> \<not> c_stash_frames e \<and> c_eh_args e = c_eh_args c \<and>
     c_eh_valid_mask e = c_eh_valid_mask c \<and> c_validate e = c_validate c \<and> c_sigcontext_format e = X86_64_SCF_NONE)"

lemma row_caller_uc [simp]: "c_uc (row_caller m R c) = c_uc c"
  by (simp add: row_caller_def Let_def)

lemma same_frame_caller:
  assumes "same_frame c d"
  shows "same_frame (row_caller m R c) (row_caller m R d)" "row_applies m R c = row_applies m R d"
proof -
  have "rule_loc c = rule_loc d" using assms rule_loc_cong [of c d] by (intro ext) (simp add: same_frame_def)
  then show "same_frame (row_caller m R c) (row_caller m R d)" "row_applies m R c = row_applies m R d"
    using assms by (simp_all add: same_frame_def row_caller_def row_applies_def cfa_base_def base_readable_def Let_def)
qed

text \<open>The lookup and both programs.\<close>

lemma registered_dwarf_step:
  assumes row: "registered_row fuel (m_mem (l_machine L)) (l_dyn L) (lookup_ip c) (c_ip c) R"
    and pool: "pool_alloc (l_env L, l_cie_pool L) = Ok (obj, pool)" "obj \<noteq> 0"
    and c: "row_applies (m_mem (l_machine L)) R c" "c_validate c" "\<not> c_stash_frames c" "c_sigcontext_format c = X86_64_SCF_NONE"
  shows "\<exists>e M'. stepped c (row_caller (m_mem (l_machine L)) R c) e \<and> m_mem M' = m_mem (l_machine L) \<and> dwarf_step fuel (c, L) =
    (if no_progress c (row_caller (m_mem (l_machine L)) R c) then throw UNW_EBADFRAME (e, (set_pool L pool)\<lparr>l_machine := M'\<rparr>)
     else ret () (e\<lparr>c_pi_valid := False\<rparr>, (set_pool L pool)\<lparr>l_machine := M'\<rparr>))"
proof -
  let ?m = "m_mem (l_machine L)" and ?K = "set_pool L pool"
  obtain fd f where fn: "registered_fn fuel ?m (l_dyn L) (lookup_ip c) fd f" and R: "R = fn_row fd (fn_start f) (c_ip c)"
    using row unfolding registered_row_def by blast
  then have cf: "compiled_fn ?m fd f" and fuel: "length (fd_cie_program fd) \<le> fuel" "length (fd_program fd) \<le> fuel"
    by (auto simp: registered_fn_def)
  obtain pi dci where pi: "fetch_proc_info fuel (c_ip c) True (c, L) = ret () (found_cursor c pi, ?K)"
    "pi_format pi = UNW_INFO_FORMAT_TABLE" "pi_unwind_info pi = UI_cie obj dci" "dci_for ?m fd dci" "start_ip pi = fn_start f"
    using fetch_registered [OF fn pool] by blast
  let ?d = "found_cursor c pi"
  have d: "c_pi ?d = pi" "c_pi_valid ?d" "c_pi_is_dynamic ?d" "c_ip ?d = c_ip c" "m_mem (l_machine ?K) = ?m" "c_validate ?d"
    "\<not> c_stash_frames ?d" "c_cfa ?d = c_cfa c"
    using c(2,3) by (simp_all add: found_cursor_def set_pool_def)
  obtain sr where sr: "parse_fde fuel ?m ?d (c_ip c) init_state_record (l_env ?K, l_rs_pool ?K) =
      Ok (None, sr, ?d\<lparr>c_ret_addr_column := 16\<rparr>, (l_env ?K, l_rs_pool ?K))" "rs_current sr = row_state R"
    using parse_fde_row [of ?d obj dci, unfolded d(1), OF pi(3,4) fuel, of "c_ip c" "(l_env ?K, l_rs_pool ?K)"] R pi(5) by auto
  have r: "simple_rules (row_state R)" unfolding R
    by (rule fn_row_simple) (use cf in \<open>auto simp: compiled_fn_def c_fn_at_def cxx_fn_at_def program_at_def\<close>)
  have sf: "same_frame ?d c" by (simp add: same_frame_def found_cursor_def)
  let ?w = "row_caller ?m R ?d"
  have b: "base_readable ?d R" "length (c_loc ?d) = 17" "c_loc ?w ! 16 = 0 \<or> PAGE_START (c_loc ?w ! 16) \<noteq> 0"
    "pi_format (c_pi ?d) = UNW_INFO_FORMAT_TABLE"
    using c(1) pi(2) d(1) unfolding same_frame_caller(2) [OF sf, symmetric] by (simp_all add: row_applies_def Let_def)
  have w: "c_cfa ?w = cfa_base ?m ?d R + sl_val (R ! 18)" "c_loc ?w = map2 (rule_loc ?d (c_cfa ?w)) (take 17 R) (c_loc ?d)"
    "c_ip ?w = (if c_loc ?w ! 16 = 0 then 0 else read_word ?m (c_loc ?w ! 16))"
    by (simp_all add: row_caller_def Let_def)
  define e where "e = ?d\<lparr>c_ret_addr_column := 16, c_loc := c_loc ?w, c_cfa := c_cfa ?w, c_ip := c_ip ?w\<rparr>"
  have n: "no_progress c (row_caller ?m R c) = (c_ip ?w = c_ip ?d \<and> c_cfa ?w = c_cfa ?d)"
    using same_frame_caller(1) [OF sf, of ?m R] d(4,8) by (simp add: no_progress_def same_frame_def)
  obtain M' where "m_mem M' = ?m" "dwarf_step fuel (c, L) =
    (if no_progress c (row_caller ?m R c) then throw UNW_EBADFRAME (e, ?K\<lparr>l_machine := M'\<rparr>) else ret () (e\<lparr>c_pi_valid := False\<rparr>, ?K\<lparr>l_machine := M'\<rparr>))"
    using dwarf_step_row [where K = ?K, unfolded d(5), OF pi(1) d(2,3) b(4) d(4) sr r b(1) d(6) b(2) d(7) w(1,2) b(3) w(3)]
    unfolding n e_def Let_def by blast
  moreover have "same_frame e (row_caller ?m R c)"
    using same_frame_caller(1) [OF sf, of ?m R] by (simp add: same_frame_def e_def)
  then have "stepped c (row_caller ?m R c) e" using c(3,4) by (simp add: stepped_def) (simp add: e_def found_cursor_def)
  ultimately show ?thesis by blast
qed

lemma step_registered:
  assumes "registered_row fuel (m_mem (l_machine L)) (l_dyn L) (lookup_ip c) (c_ip c) R"
    "pool_alloc (l_env L, l_cie_pool L) = Ok (obj, pool)" "obj \<noteq> 0"
    "row_applies (m_mem (l_machine L)) R c" "\<not> c_stash_frames c" "w = row_caller (m_mem (l_machine L)) R c"
  shows "\<exists>e M'. stepped c w e \<and> (no_progress c w \<or> \<not> c_pi_valid e) \<and> m_mem M' = m_mem (l_machine L) \<and> unw_step fuel (c, L) =
    (let s = (e, (set_pool L pool)\<lparr>l_machine := M'\<rparr>) in
     if no_progress c w then throw UNW_EBADFRAME s
     else if c_loc w ! RBP = 0 then ret 0 (e\<lparr>c_ip := 0\<rparr>, snd s) else ret 1 s)"
proof -
  let ?m = "m_mem (l_machine L)" and ?K = "set_pool L pool"
  let ?c = "c\<lparr>c_validate := True, c_sigcontext_format := X86_64_SCF_NONE\<rparr>"
  have sf: "same_frame ?c c" by (simp add: same_frame_def)
  note fr = same_frame_caller [OF sf, of ?m R]
  have pc: "lookup_ip ?c = lookup_ip c" by (simp add: lookup_ip_def)
  obtain e M' where e: "stepped ?c (row_caller ?m R ?c) e" "m_mem M' = ?m"
    "dwarf_step fuel (?c, L) = (if no_progress ?c (row_caller ?m R ?c) then throw UNW_EBADFRAME (e, ?K\<lparr>l_machine := M'\<rparr>)
     else ret () (e\<lparr>c_pi_valid := False\<rparr>, ?K\<lparr>l_machine := M'\<rparr>))"
    using registered_dwarf_step [of fuel L ?c R, unfolded pc fr(2)] assms(1-5) by auto
  let ?e = "e\<lparr>c_pi_valid := no_progress c w \<and> c_pi_valid e, c_validate := c_validate c\<rparr>"
  have w: "same_frame e w" "no_progress ?c (row_caller ?m R ?c) = no_progress c w"
    using e(1) fr(1) by (simp_all add: assms(6) stepped_def same_frame_def no_progress_def)
  then have "unw_step fuel (c, L) = (if no_progress c w then throw UNW_EBADFRAME (?e, ?K\<lparr>l_machine := M'\<rparr>)
     else if c_loc w ! RBP = 0 then ret 0 (?e\<lparr>c_ip := 0\<rparr>, ?K\<lparr>l_machine := M'\<rparr>) else ret 1 (?e, ?K\<lparr>l_machine := M'\<rparr>))"
    using e(3) by (auto simp: unw_step_def Let_def DWARF_IS_NULL_LOC_def throw_def ret_def same_frame_def)
  moreover have "stepped c w ?e" using w(1) e(1) by (simp add: stepped_def same_frame_def)
  ultimately show ?thesis using e(2) by (intro exI [of _ ?e] exI [of _ M']) simp
qed

text \<open>C7: a step through code with registered unwind information is the step the row describes: when the registration list has
  a table for the instruction pointer, the table has a function that covers it, and the programs of its CIE and FDE are of compiler
  instructions, \<open>unw_step\<close> finds the function, runs both programs, and goes to the frame that the row of the instruction pointer
  describes: the CFA is the base register plus the offset, every register is where its rule says, and the instruction pointer is the
  word at the location of the return address, or 0 when it has none. The step returns 0 when the frame pointer of the caller is
  not known, and fails with \<open>UNW_EBADFRAME\<close> exactly when neither the CFA nor the instruction pointer moved. Memory is not written.
  The object with the CIE that the step took from its pool stays taken.\<close>

theorem registered_step:
  assumes "dyn_lookup fuel (l_dyn L) (ds_first (l_dyn L)) (lookup_ip c) = Ok (Some (p, di))"
    "describes_table (m_mem (l_machine L)) di fs" "find (fn_covers (lookup_ip c)) fs = Some f" "compiled_fn (m_mem (l_machine L)) d f"
    "5 \<le> fuel" "length (fd_cie_program d) \<le> fuel" "length (fd_program d) \<le> fuel"
    "pool_alloc (l_env L, l_cie_pool L) = Ok (obj, pool)" "obj \<noteq> 0"
    "R = fn_row d (fn_start f) (c_ip c)" "base_readable c R" "length (c_loc c) = 17" "\<not> c_stash_frames c"
    "cfa = cfa_base (m_mem (l_machine L)) c R + sl_val (R ! 18)" "locs = map2 (rule_loc c cfa) (take 17 R) (c_loc c)"
    "locs ! 16 = 0 \<or> PAGE_START (locs ! 16) \<noteq> 0" "ip = (if locs ! 16 = 0 then 0 else read_word (m_mem (l_machine L)) (locs ! 16))"
  shows "\<exists>c' L'. unw_step fuel (c, L) =
      (if ip = c_ip c \<and> cfa = c_cfa c then throw UNW_EBADFRAME (c', L')
       else if locs ! RBP = 0 then ret 0 (c'\<lparr>c_ip := 0\<rparr>, L') else ret 1 (c', L')) \<and>
    c_ip c' = ip \<and> c_cfa c' = cfa \<and> c_loc c' = locs \<and> m_mem (l_machine L') = m_mem (l_machine L) \<and>
    (l_env L', l_cie_pool L') = pool"
proof -
  let ?m = "m_mem (l_machine L)" and ?w = "row_caller (m_mem (l_machine L)) R c"
  have row: "registered_row fuel ?m (l_dyn L) (lookup_ip c) (c_ip c) R"
    unfolding registered_row_def registered_fn_def using assms(1-7,10) by blast
  have w: "c_ip ?w = ip" "c_cfa ?w = cfa" "c_loc ?w = locs" using assms(14,15,17) by (simp_all add: row_caller_def Let_def)
  then have "row_applies ?m R c" using assms(11,12,16) by (simp add: row_applies_def Let_def)
  from step_registered [OF row assms(8,9) this assms(13) refl] obtain e M' where "stepped c ?w e" "m_mem M' = ?m"
    "unw_step fuel (c, L) = (let s = (e, (set_pool L pool)\<lparr>l_machine := M'\<rparr>) in
     if no_progress c ?w then throw UNW_EBADFRAME s else if c_loc ?w ! RBP = 0 then ret 0 (e\<lparr>c_ip := 0\<rparr>, snd s) else ret 1 s)" by blast
  with w show ?thesis by (intro exI [of _ e] exI [of _ "(set_pool L pool)\<lparr>l_machine := M'\<rparr>"])
    (simp add: stepped_def same_frame_def no_progress_def Let_def, simp add: set_pool_def)
qed

text \<open>A frame of the function of theory \<^verbatim>\<open>Elf_Image\<close>, with a program that pushes the frame pointer, registered as a table.\<close>

definition push_program :: "cfi_ins list" where
  "push_program = [I_advance 1, I_def_cfa_offset 16, I_offset 6 2, I_nop, I_nop]"

definition c_desc :: "cfi_ins list \<Rightarrow> fn_desc" where
  "c_desc is = \<lparr>fd_cie = 0x2100, fd_cie_len = 0x14, fd_cie_program = cie_program, fd_program = is, fd_handler = 0, fd_lsda = 0\<rparr>"

definition reg_mem :: memory where
  "reg_mem x = (if x = 0x8008 then 0x34 else if x = 0x8009 then 0x12 else if 0x3000 \<le> x then 0
     else if 0x2129 \<le> x \<and> x < 0x212e then [0x41, 0x0e, 0x10, 0x86, 2] ! unat (x - 0x2129) else elf_mem x)"

definition reg_di :: unw_dyn_info_t where
  "reg_di = zero_dyn_info\<lparr>di_start_ip := 0x2000, di_end_ip := 0x3000, di_format := UNW_INFO_FORMAT_REMOTE_TABLE,
     di_segbase := 0x20b0, di_table_len := 1, di_table_data := 0x20bc\<rparr>"

definition reg_lib :: unw_lib where
  "reg_lib = lib0\<lparr>l_machine := machine0\<lparr>m_mem := reg_mem\<rparr>,
     l_dyn := \<lparr>ds_generation = 1, ds_first = 0x100, ds_infos = [0x100 \<mapsto> reg_di]\<rparr>\<rparr>"

lemma push_program_bytes: "program_bytes push_program = [0x41, 0x0e, 0x10, 0x86, 2, 0, 0]"
  by (simp add: push_program_def uleb_small)

lemma reg_mem_table: "describes_table reg_mem reg_di [(0x2118, 0x14, 0x100, 0x40)]"
  "gcc_cie_at reg_mem 0x2100 0x14" "gcc_fde_at reg_mem 0x2118 0x2100 0x14 0x100 0x40"
proof -
  have "gcc_fde_at reg_mem 0x2118 0x2100 0x14 0x100 0x40 \<and> gcc_cie_at reg_mem 0x2100 0x14 \<and>
    entry_start_ip_offset reg_mem 0x20bc 0 = 0x170 \<and> entry_fde_offset reg_mem 0x20bc 0 = 0x68" by code_simp
  then show "describes_table reg_mem reg_di [(0x2118, 0x14, 0x100, 0x40)]"
    "gcc_cie_at reg_mem 0x2100 0x14" "gcc_fde_at reg_mem 0x2118 0x2100 0x14 0x100 0x40"
    by (simp_all add: describes_table_def reg_di_def index_table_def fn_start_def fn_end_def)
qed

lemma cie_program_ok: "starts_with_cfa cie_program" "\<forall>i\<in>set cie_program. ins_ok i \<and> src_ok i"
  by (simp_all add: starts_with_cfa_def cie_program_def)

lemma reg_mem_fn: "compiled_fn reg_mem (c_desc push_program) (0x2118, 0x14, 0x100, 0x40)"
proof -
  have b: "bytes_at reg_mem 0x2111 [0x0c, 7, 8, 0x90, 1, 0, 0]" "bytes_at reg_mem 0x2129 [0x41, 0x0e, 0x10, 0x86, 2, 0, 0]" by code_simp+
  have "\<forall>i\<in>set push_program. ins_ok i \<and> src_ok i" by (simp add: push_program_def)
  then show ?thesis using reg_mem_table(2,3) b cie_program_ok
    by (simp add: compiled_fn_def c_fn_at_def c_desc_def program_at_def cie_program_bytes push_program_bytes)
qed

lemma push_row: "fn_row (c_desc push_program) 0x2220 0x2222 = (replicate 19 (rule DWARF_WHERE_SAME 0))
    [17 := rule DWARF_WHERE_REG 7, 18 := rule DWARF_WHERE_UNDEF 8, 16 := rule DWARF_WHERE_CFAREL (- 8),
     18 := rule DWARF_WHERE_UNDEF 16, 6 := rule DWARF_WHERE_CFAREL (- 16)]"
  by (simp add: fn_row_def c_desc_def cie_program_def push_program_def fn_dci_def init_state_record_def DWARF_NUM_PRESERVED_REGS_def)

lemma reg_lib_simps [simp]: "m_mem (l_machine reg_lib) = reg_mem" "l_env reg_lib = env0" "l_cie_pool reg_lib = pool0"
  by (simp_all add: reg_lib_def lib0_def)

theorem registered_step_witness:
  "\<exists>c' L'. unw_step 5 (stack_cursor 0x2222, reg_lib) = ret 1 (c', L') \<and> c_ip c' = 0x1234 \<and> c_cfa c' = 0x8010 \<and> c_loc c' ! RBP = 0x8000"
proof -
  let ?c = "stack_cursor 0x2222" and ?R = "fn_row (c_desc push_program) 0x2220 0x2222"
  let ?locs = "map2 (rule_loc ?c 0x8010) (take 17 ?R) (c_loc ?c)"
  obtain obj pool where pool: "pool_alloc (l_env reg_lib, l_cie_pool reg_lib) = Ok (obj, pool)" "obj \<noteq> 0" using pool0_alloc by auto
  have c: "c_cfa ?c = 0x8000" "c_ip ?c = 0x2222" "length (c_loc ?c) = 17" "\<not> c_stash_frames ?c" "lookup_ip ?c = 0x2222"
    by (simp_all add: stack_cursor_def cursor0_def lookup_ip_def)
  have lk: "dyn_lookup 5 (l_dyn reg_lib) (ds_first (l_dyn reg_lib)) (lookup_ip ?c) = Ok (Some (0x100, reg_di))"
    unfolding c by (simp add: dyn_lookup.simps [of 5] reg_lib_def reg_di_def di_get_def)
  have R: "?R ! 17 = rule DWARF_WHERE_REG 7" "?R ! 18 = rule DWARF_WHERE_UNDEF 16" unfolding push_row by simp_all
  have locs: "?locs ! 16 = 0x8008" "?locs ! RBP = 0x8000" unfolding push_row by (simp_all add: rule_loc_def c)
  have w: "read_word reg_mem 0x8008 = 0x1234" by code_simp
  have f: "find (fn_covers (lookup_ip ?c)) [(0x2118, 0x14, 0x100, 0x40)] = Some (0x2118, 0x14, 0x100, 0x40)"
    unfolding c by (simp add: fn_covers_def fn_start_def fn_end_def)
  have "\<exists>c' L'. unw_step 5 (?c, reg_lib) =
      (if 0x1234 = c_ip ?c \<and> 0x8010 = c_cfa ?c then throw UNW_EBADFRAME (c', L')
       else if ?locs ! RBP = 0 then ret 0 (c'\<lparr>c_ip := 0\<rparr>, L') else ret 1 (c', L')) \<and>
    c_ip c' = 0x1234 \<and> c_cfa c' = 0x8010 \<and> c_loc c' = ?locs \<and> m_mem (l_machine L') = m_mem (l_machine reg_lib) \<and>
    (l_env L', l_cie_pool L') = pool"
    by (rule registered_step [OF lk reg_mem_table(1) [folded reg_lib_simps(1)] f reg_mem_fn [folded reg_lib_simps(1)] _ _ _ pool, where R = ?R])
       (use locs w R c in \<open>simp_all add: base_readable_def cfa_base_def fn_start_def PAGE_START_def c_desc_def cie_program_def push_program_def\<close>)
  then show ?thesis using locs(2) by (auto simp: c)
qed

end
