(* ===== verification/Registered_Walk.thy ===== *)
theory Registered_Walk
  imports Unw_Registered Unw_Backtrace
begin

text \<open>
  Backtraces through registered code. The frames of the stack are those that the rows of the unwind tables describe, one after the
  other, up to a frame whose caller has no frame pointer; the contract of the loops over frames (\<open>address_walk\<close> of
  \<^verbatim>\<open>Unw_Backtrace\<close>) is met by the steps of \<^verbatim>\<open>Unw_Registered\<close>.
\<close>

section \<open>Stacks described by unwind tables\<close>

text \<open>The frames from the innermost one on, as the tables describe them.\<close>

fun unwinds :: "nat \<Rightarrow> memory \<Rightarrow> dyn_state \<Rightarrow> cursor list \<Rightarrow> bool" where
  "unwinds fuel m dyn [] = False"
| "unwinds fuel m dyn [v] = (\<exists>R. registered_row fuel m dyn (c_ip v - 1) (c_ip v) R \<and> row_applies m R v \<and>
     \<not> no_progress v (row_caller m R v) \<and> c_loc (row_caller m R v) ! RBP = 0)"
| "unwinds fuel m dyn (v # w # vs) = ((\<exists>R. registered_row fuel m dyn (c_ip v - 1) (c_ip v) R \<and> row_applies m R v \<and>
     w = row_caller m R v) \<and> \<not> no_progress v w \<and> c_loc w ! RBP \<noteq> 0 \<and> unwinds fuel m dyn (w # vs))"

text \<open>The pool has an object for every step, which does not give it back.\<close>

definition pool_serves :: "nat \<Rightarrow> unw_lib \<Rightarrow> bool" where
  "pool_serves n L = (pool_inv (l_env L, l_cie_pool L) \<and> is_Ok (mempool_allocs n (l_env L, l_cie_pool L)))"

lemma pool_serves_Suc:
  assumes "pool_serves (Suc n) L"
  shows "\<exists>obj pool. pool_alloc (l_env L, l_cie_pool L) = Ok (obj, pool) \<and> obj \<noteq> 0 \<and>
    (\<forall>M'. pool_serves n ((set_pool L pool)\<lparr>l_machine := M'\<rparr>))"
proof -
  let ?p = "(l_env L, l_cie_pool L)"
  have i: "pool_inv ?p" "is_Ok (mempool_allocs (Suc n) ?p)" using assms by (simp_all add: pool_serves_def)
  then obtain obj pool where a: "pool_alloc ?p = Ok (obj, pool)" "is_Ok (mempool_allocs n pool)"
    by (cases "mempool_alloc (l_env L) (l_cie_pool L)") (auto simp: pool_alloc_def is_Ok_def)
  then have "pool_inv pool" "obj \<noteq> 0" using mp.alloc_law [OF i(1) a(1)] owned_nonzero by (auto simp: pool_owns_def)
  with a show ?thesis by (auto simp: pool_serves_def set_pool_def)
qed

text \<open>
  A cursor in the first of the frames; the others have the return addresses \<open>as\<close>. What the unwinder does not touch of a cursor is as in \<open>c0\<close>,
  and the pool has \<open>n\<close> more objects than the walk needs.
\<close>

definition client_part :: "cursor \<Rightarrow> u64 list \<times> u32 \<times> bool \<times> sigcontext_format_t" where
  "client_part c = (c_eh_args c, c_eh_valid_mask c, c_validate c, c_sigcontext_format c)"

definition table_state :: "nat \<Rightarrow> memory \<Rightarrow> dyn_state \<Rightarrow> cursor \<Rightarrow> nat \<Rightarrow> cursor list \<Rightarrow> u64 list \<Rightarrow> lib_state \<Rightarrow> bool" where
  "table_state fuel m dyn c0 n vs as = (\<lambda>(c, L). unwinds fuel m dyn vs \<and> same_frame c (hd vs) \<and> as = map c_ip (tl vs) \<and>
     c_use_prev_instr c \<and> \<not> c_stash_frames c \<and> c_sigcontext_format c = X86_64_SCF_NONE \<and> client_part c = client_part c0 \<and>
     m_mem (l_machine L) = m \<and> l_dyn L = dyn \<and> pool_serves (n + length vs) L)"

definition table_entered :: "u64 \<Rightarrow> lib_state \<Rightarrow> bool" where
  "table_entered a = (\<lambda>(c, L). c_ip c = a \<and> \<not> c_pi_valid c)"

lemma table_step:
  assumes st: "table_state fuel m dyn c0 n (v # vs) as (c, L)"
    and row: "registered_row fuel m dyn (c_ip v - 1) (c_ip v) R" "row_applies m R v" "\<not> no_progress v (row_caller m R v)"
  shows "\<exists>e M' pool. same_frame e (row_caller m R v) \<and> stepped c e e \<and> \<not> c_pi_valid e \<and> m_mem M' = m \<and>
    pool_serves (n + length vs) ((set_pool L pool)\<lparr>l_machine := M'\<rparr>) \<and>
    unw_step fuel (c, L) = (let K = (set_pool L pool)\<lparr>l_machine := M'\<rparr> in
      if c_loc (row_caller m R v) ! RBP = 0 then ret 0 (e\<lparr>c_ip := 0\<rparr>, K) else ret 1 (e, K))"
proof -
  have s: "same_frame c v" "c_use_prev_instr c" "\<not> c_stash_frames c" "m_mem (l_machine L) = m" "l_dyn L = dyn" "pool_serves (Suc (n + length vs)) L"
    using st by (simp_all add: table_state_def)
  obtain obj pool where pool: "pool_alloc (l_env L, l_cie_pool L) = Ok (obj, pool)" "obj \<noteq> 0"
    "\<And>M'. pool_serves (n + length vs) ((set_pool L pool)\<lparr>l_machine := M'\<rparr>)" using pool_serves_Suc [OF s(6)] by blast
  have fr: "same_frame (row_caller m R c) (row_caller m R v)" "row_applies m R c" using same_frame_caller [OF s(1)] row(2) by simp_all
  have np: "\<not> no_progress c (row_caller m R c)" using row(3) fr(1) s(1) by (simp add: no_progress_def same_frame_def)
  have rr: "registered_row fuel (m_mem (l_machine L)) (l_dyn L) (lookup_ip c) (c_ip c) R"
    using row(1) s(1,2,4,5) by (simp add: lookup_ip_def same_frame_def)
  obtain e M' where "stepped c (row_caller m R c) e" "\<not> c_pi_valid e" "m_mem M' = m"
    "unw_step fuel (c, L) = (let s = (e, (set_pool L pool)\<lparr>l_machine := M'\<rparr>) in
     if no_progress c (row_caller m R c) then throw UNW_EBADFRAME s
     else if c_loc (row_caller m R c) ! RBP = 0 then ret 0 (e\<lparr>c_ip := 0\<rparr>, snd s) else ret 1 s)"
    using step_registered [OF rr pool(1,2), unfolded s(4), OF fr(2) s(3) refl] np by blast
  then show ?thesis using np fr(1) pool(3)
    by (intro exI [of _ e] exI [of _ M'] exI [of _ pool]) (simp add: same_frame_def stepped_def Let_def)
qed

interpretation tw: address_walk fuel "table_state fuel m dyn c0 n" tl table_entered for fuel m dyn c0 n
proof unfold_locales
  fix k a as s
  show "\<exists>s'. unw_step fuel s = ret 1 s' \<and> table_entered a s' \<and> table_state fuel m dyn c0 n (tl k) as s'" if st: "table_state fuel m dyn c0 n k (a # as) s"
  proof -
    obtain c L where s: "s = (c, L)" by (cases s)
    obtain v w vs where k: "k = v # w # vs" "a = c_ip w" "as = map c_ip vs" using st s
      by (cases k rule: remdups_adj.cases) (auto simp: table_state_def)
    obtain R where R: "registered_row fuel m dyn (c_ip v - 1) (c_ip v) R" "row_applies m R v" "w = row_caller m R v"
      "\<not> no_progress v (row_caller m R v)" "c_loc w ! RBP \<noteq> 0" "unwinds fuel m dyn (w # vs)"
      using st by (auto simp: k(1) s table_state_def)
    have d: "l_dyn L = dyn" "c_sigcontext_format c = X86_64_SCF_NONE" "client_part c = client_part c0" using st by (simp_all add: s table_state_def)
    from table_step [OF st [unfolded k(1) s] R(1,2,4)] R(3,5) obtain e M' pool where
      "same_frame e w" "stepped c e e" "\<not> c_pi_valid e" "m_mem M' = m"
      "pool_serves (n + length (w # vs)) ((set_pool L pool)\<lparr>l_machine := M'\<rparr>)" "unw_step fuel (c, L) = ret 1 (e, (set_pool L pool)\<lparr>l_machine := M'\<rparr>)"
      by (auto simp: Let_def)
    then show ?thesis using R(6) d k
      by (auto simp: s table_state_def table_entered_def same_frame_def set_pool_def stepped_def client_part_def
        intro!: exI [of _ e] exI [of _ "(set_pool L pool)\<lparr>l_machine := M'\<rparr>"])
  qed
  show "\<exists>s'. unw_step fuel s = ret 0 s'" if st: "table_state fuel m dyn c0 n k [] s"
  proof -
    obtain c L where s: "s = (c, L)" by (cases s)
    obtain v where k: "k = [v]" using st s by (cases k rule: remdups_adj.cases) (auto simp: table_state_def)
    obtain R where R: "registered_row fuel m dyn (c_ip v - 1) (c_ip v) R" "row_applies m R v" "\<not> no_progress v (row_caller m R v)"
      "c_loc (row_caller m R v) ! RBP = 0" using st by (auto simp: k s table_state_def)
    from table_step [OF st [unfolded k s] R(1-3)] R(4) show ?thesis by (auto simp: s Let_def)
  qed
  show "c_ip c = a" if "table_entered a (c, L)" for c L using that by (simp add: table_entered_def)
qed

section \<open>Backtraces\<close>

text \<open>The innermost frame, from the context.\<close>

definition context_frame :: "memory \<Rightarrow> addr \<Rightarrow> cursor" where
  "context_frame m uc = cursor0\<lparr>c_ip := read_word m (uc + 0xb0), c_cfa := read_word m (uc + 0xc8),
     c_loc := map (\<lambda>off. uc + off) uc_mcontext_gregs, c_uc := uc\<rparr>"

lemma init_local_OkD:
  assumes "unw_init_local M c uc = Ok (c', M')"
  shows "c_uc c' = uc \<and> \<not> c_stash_frames c' \<and> client_part c' = (c_eh_args c, c_eh_valid_mask c, False, X86_64_SCF_NONE)"
  using assms by (auto simp: unw_init_local_def common_init_def Let_def client_part_def)

lemma init_table_state:
  assumes "uc \<noteq> 0" "unat uc + 256 < 2 ^ 64" "length (c_eh_args c) = 2" "m = m_mem (l_machine L)"
    "unwinds fuel m (l_dyn L) (context_frame m uc # vs)" "pool_serves (n + Suc (length vs)) L"
  shows "\<exists>c'. unw_init_local (l_machine L) c uc = Ok (c', l_machine L) \<and>
    table_state fuel m (l_dyn L) (c\<lparr>c_validate := False, c_sigcontext_format := X86_64_SCF_NONE\<rparr>) n
      (context_frame m uc # vs) (map c_ip vs) (c', L)"
proof -
  obtain c' where c': "unw_init_local (l_machine L) c uc = Ok (c', l_machine L)"
    "c_loc c' = map (\<lambda>off. uc + off) uc_mcontext_gregs" "c_ip c' = read_word m (uc + 0xb0)" "c_cfa c' = read_word m (uc + 0xc8)"
    "c_use_prev_instr c'"
    using init_local_ok [OF assms(1-3), of "l_machine L"] assms(4) by metis
  then have "same_frame c' (context_frame m uc)" using init_local_OkD [OF c'(1)] by (simp add: same_frame_def context_frame_def)
  then show ?thesis using c'(1,5) init_local_OkD [OF c'(1)] assms(4-6) by (auto simp: table_state_def client_part_def)
qed

text \<open>C6: a backtrace through registered code is complete: let the context and the unwind tables describe a stack, where the row of each
  frame gives the frame of its caller, every step of it moves, and the caller of the outermost frame has no frame pointer. Then
  \<open>slow_backtrace\<close> ends and stores exactly the return addresses of that stack, in order, if the buffer has room for them
  and the pool has an object for each frame.\<close>

theorem registered_backtrace:
  assumes "uc \<noteq> 0" "unat uc + 256 < 2 ^ 64" "length (c_eh_args c) = 2"
    "unwinds fuel (m_mem (l_machine L)) (l_dyn L) (context_frame (m_mem (l_machine L)) uc # vs)" "pool_serves (Suc (length vs)) L"
    "int (length vs) \<le> n_max" "length vs < steps"
  shows "\<exists>s'. slow_backtrace steps fuel n_max uc (c, L) = Ok (map c_ip vs, s')"
proof -
  obtain c' where c': "unw_init_local (l_machine L) c uc = Ok (c', l_machine L)"
    "table_state fuel (m_mem (l_machine L)) (l_dyn L) (c\<lparr>c_validate := False, c_sigcontext_format := X86_64_SCF_NONE\<rparr>) 0
      (context_frame (m_mem (l_machine L)) uc # vs) (map c_ip vs) (c', L)"
    using init_table_state [OF assms(1-3) refl assms(4), of 0] assms(5) by auto
  then show ?thesis using tw.slow_loop_walk [OF c'(2), of steps "[]" n_max] assms(6,7) by (auto simp: slow_backtrace_def)
qed

text \<open>A stack of two frames of one function: the frame pointer is saved at its start and not known behind \<open>0x2240\<close>.\<close>

definition walk_program :: "cfi_ins list" where
  "walk_program = [I_def_cfa_offset 16, I_offset 6 2, I_advance 32, I_undefined 6]"

definition walk_mem :: memory where
  "walk_mem x = (if x = 0x60b0 then 0x30 else if x = 0x60b1 then 0x22 else if x = 0x60c9 then 0x80 else if x = 0x8008 then 0x50
     else if x = 0x8009 then 0x22 else if 0x3000 \<le> x then 0
     else if 0x2129 \<le> x \<and> x < 0x2130 then [0x0e, 0x10, 0x86, 2, 0x60, 0x07, 6] ! unat (x - 0x2129) else elf_mem x)"

definition walk_env :: kernel_env where
  "walk_env = env0\<lparr>ke_calls := 1, ke_mem := (\<lambda>a. if a = 0x100000 \<or> a = 0x100002 then 0x10 else 0)\<rparr>"

definition walk_pool :: mempool where
  "walk_pool = pool0\<lparr>mp_reserve := 0, mp_num_free := 2, mp_free_list := 0x100000\<rparr>"

definition walk_lib :: unw_lib where
  "walk_lib = reg_lib\<lparr>l_machine := machine0\<lparr>m_mem := walk_mem\<rparr>, l_env := walk_env, l_cie_pool := walk_pool\<rparr>"

lemma walk_words: "read_word (ke_mem walk_env) 0x100000 = 0x100010" "read_word (ke_mem walk_env) 0x100010 = 0"
  by (simp_all add: walk_env_def read_word_bytes)

lemma walk_pool_serves: "pool_serves (Suc (Suc 0)) walk_lib"
proof -
  have "env_inv walk_env" using env0_inv by (simp add: walk_env_def env_inv_def malloc_ok_def)
  moreover have "pool_shape walk_pool" by (simp add: pool_shape_def walk_pool_def pool0_def)
  moreover have "owned walk_env x" if "x \<in> {0x100000, 0x100010}" for x
    using that by (auto simp: owned_def aligned16_def walk_env_def env0_def in_chunk_def intro!: exI [of _ "4096 :: u64"])
  then have "pool_list walk_env walk_pool [0x100000, 0x100010]"
    by (simp add: pool_list_def walk_words) (simp add: walk_pool_def)
  ultimately have "pool_inv (walk_env, walk_pool)" by (auto simp: pool_inv_def)
  moreover have "is_Ok (mempool_allocs (Suc (Suc 0)) (walk_env, walk_pool))"
    by (simp add: mempool_alloc_def walk_pool_def pool0_def walk_words is_Ok_def Let_def)
  ultimately show ?thesis by (simp add: pool_serves_def walk_lib_def)
qed

lemma walk_program_bytes: "program_bytes walk_program = [0x0e, 0x10, 0x86, 2, 0x60, 0x07, 6]"
  by (simp add: walk_program_def uleb_small)

lemma walk_mem_table: "describes_table walk_mem reg_di [(0x2118, 0x14, 0x100, 0x40)]"
  "gcc_cie_at walk_mem 0x2100 0x14" "gcc_fde_at walk_mem 0x2118 0x2100 0x14 0x100 0x40"
proof -
  have "gcc_fde_at walk_mem 0x2118 0x2100 0x14 0x100 0x40 \<and> gcc_cie_at walk_mem 0x2100 0x14 \<and>
    entry_start_ip_offset walk_mem 0x20bc 0 = 0x170 \<and> entry_fde_offset walk_mem 0x20bc 0 = 0x68" by code_simp
  then show "describes_table walk_mem reg_di [(0x2118, 0x14, 0x100, 0x40)]"
    "gcc_cie_at walk_mem 0x2100 0x14" "gcc_fde_at walk_mem 0x2118 0x2100 0x14 0x100 0x40"
    by (simp_all add: describes_table_def reg_di_def index_table_def fn_start_def fn_end_def)
qed

lemma walk_mem_fn: "compiled_fn walk_mem (c_desc walk_program) (0x2118, 0x14, 0x100, 0x40)"
proof -
  have b: "bytes_at walk_mem 0x2111 [0x0c, 7, 8, 0x90, 1, 0, 0]" "bytes_at walk_mem 0x2129 [0x0e, 0x10, 0x86, 2, 0x60, 0x07, 6]" by code_simp+
  have "\<forall>i\<in>set walk_program. ins_ok i \<and> src_ok i" by (simp add: walk_program_def)
  then show ?thesis using walk_mem_table(2,3) b cie_program_ok
    by (simp add: compiled_fn_def c_fn_at_def c_desc_def program_at_def cie_program_bytes walk_program_bytes)
qed

lemma walk_row:
  assumes "0x2220 \<le> ip - 1" "ip - 1 < 0x2260" "5 \<le> fuel"
  shows "registered_row fuel walk_mem (l_dyn reg_lib) (ip - 1) ip (fn_row (c_desc walk_program) 0x2220 ip)"
proof -
  obtain f where "fuel = Suc f" using assms(3) by (cases fuel) auto
  moreover have "0x2000 \<le> ip - 1" by (rule order_trans [OF _ assms(1)]) simp
  moreover have "ip - 1 < 0x3000" by (rule less_trans [OF assms(2)]) simp
  ultimately have "dyn_lookup fuel (l_dyn reg_lib) (ds_first (l_dyn reg_lib)) (ip - 1) = Ok (Some (0x100, reg_di))"
    by (simp add: dyn_lookup.simps [of "Suc f"] reg_lib_def reg_di_def di_get_def)
  moreover have "find (fn_covers (ip - 1)) [(0x2118, 0x14, 0x100, 0x40)] = Some (0x2118, 0x14, 0x100, 0x40)"
    using assms(1,2) by (simp add: fn_covers_def fn_start_def fn_end_def)
  moreover have "length (fd_cie_program (c_desc walk_program)) \<le> fuel" "length (fd_program (c_desc walk_program)) \<le> fuel"
    using assms(3) by (simp_all add: c_desc_def cie_program_def walk_program_def)
  ultimately have "registered_fn fuel walk_mem (l_dyn reg_lib) (ip - 1) (c_desc walk_program) (0x2118, 0x14, 0x100, 0x40)"
    unfolding registered_fn_def using walk_mem_table(1) walk_mem_fn assms(3) by blast
  moreover have "fn_start (0x2118, 0x14, 0x100, 0x40) = 0x2220" by (simp add: fn_start_def)
  ultimately show ?thesis unfolding registered_row_def by metis
qed

lemma walk_rows:
  "fn_row (c_desc walk_program) 0x2220 0x2230 = (replicate 19 (rule DWARF_WHERE_SAME 0))
    [17 := rule DWARF_WHERE_REG 7, 18 := rule DWARF_WHERE_UNDEF 8, 16 := rule DWARF_WHERE_CFAREL (- 8),
     18 := rule DWARF_WHERE_UNDEF 16, 6 := rule DWARF_WHERE_CFAREL (- 16)]"
  "fn_row (c_desc walk_program) 0x2220 0x2250 = (replicate 19 (rule DWARF_WHERE_SAME 0))
    [17 := rule DWARF_WHERE_REG 7, 18 := rule DWARF_WHERE_UNDEF 8, 16 := rule DWARF_WHERE_CFAREL (- 8),
     18 := rule DWARF_WHERE_UNDEF 16, 6 := rule DWARF_WHERE_UNDEF 0]"
  by (simp_all add: fn_row_def c_desc_def cie_program_def walk_program_def fn_dci_def init_state_record_def DWARF_NUM_PRESERVED_REGS_def)

abbreviation walk_caller :: cursor where
  "walk_caller \<equiv> row_caller walk_mem (fn_row (c_desc walk_program) 0x2220 0x2230) (context_frame walk_mem 0x6000)"

lemma walk_frames:
  "c_ip (context_frame walk_mem 0x6000) = 0x2230" "c_cfa (context_frame walk_mem 0x6000) = 0x8000"
  "length (c_loc (context_frame walk_mem 0x6000)) = 17"
  "c_ip walk_caller = 0x2250" "c_cfa walk_caller = 0x8010" "c_loc walk_caller ! 6 = 0x8000" "c_loc walk_caller ! 16 = 0x8008"
  "length (c_loc walk_caller) = 17"
proof -
  have w: "read_word walk_mem 0x60b0 = 0x2230" "read_word walk_mem 0x60c8 = 0x8000" "read_word walk_mem 0x8008 = 0x2250" by code_simp+
  show c: "c_ip (context_frame walk_mem 0x6000) = 0x2230" "c_cfa (context_frame walk_mem 0x6000) = 0x8000"
    "length (c_loc (context_frame walk_mem 0x6000)) = 17"
    by (simp_all add: context_frame_def w uc_mcontext_gregs_def)
  show "c_cfa walk_caller = 0x8010" "length (c_loc walk_caller) = 17" unfolding walk_rows by (simp_all add: row_caller_def cfa_base_def c Let_def)
  show "c_loc walk_caller ! 6 = 0x8000" "c_loc walk_caller ! 16 = 0x8008" "c_ip walk_caller = 0x2250"
    unfolding walk_rows by (simp_all add: row_caller_def cfa_base_def c Let_def rule_loc_def w)
qed

lemma walk_unwinds: "unwinds 5 walk_mem (l_dyn walk_lib) [context_frame walk_mem 0x6000, walk_caller]"
proof -
  let ?R = "fn_row (c_desc walk_program) 0x2220 0x2250"
  have d: "l_dyn walk_lib = l_dyn reg_lib" by (simp add: walk_lib_def)
  have p: "PAGE_START 0x8008 \<noteq> 0" "PAGE_START 0x8018 \<noteq> 0" by (simp_all add: PAGE_START_def)
  have "row_applies walk_mem (fn_row (c_desc walk_program) 0x2220 0x2230) (context_frame walk_mem 0x6000)"
    using p(1) by (simp add: row_applies_def walk_frames Let_def base_readable_def) (simp add: walk_rows)
  moreover have "c_cfa (row_caller walk_mem ?R c) = 0x8020 \<and> c_loc (row_caller walk_mem ?R c) ! 6 = 0 \<and> c_loc (row_caller walk_mem ?R c) ! 16 = 0x8018"
    if "c_cfa c = 0x8010" "length (c_loc c) = 17" for c
    unfolding walk_rows using that by (simp add: row_caller_def cfa_base_def Let_def rule_loc_def)
  from this [OF walk_frames(5,8)] have "c_cfa (row_caller walk_mem ?R walk_caller) = 0x8020" "c_loc (row_caller walk_mem ?R walk_caller) ! 6 = 0"
    "c_loc (row_caller walk_mem ?R walk_caller) ! 16 = 0x8018" by blast+
  moreover have "base_readable walk_caller ?R" by (simp add: base_readable_def walk_rows(2))
  ultimately show ?thesis
    using walk_row [of "0x2230" 5] walk_row [of "0x2250" 5] walk_frames p d by (auto simp: no_progress_def row_applies_def [of _ ?R] Let_def)
qed

theorem registered_backtrace_witness: "\<exists>s'. slow_backtrace 2 5 8 0x6000 (cursor0, walk_lib) = Ok ([0x2250], s')"
proof -
  have m: "m_mem (l_machine walk_lib) = walk_mem" by (simp add: walk_lib_def)
  have "\<exists>s'. slow_backtrace 2 5 8 0x6000 (cursor0, walk_lib) = Ok (map c_ip [walk_caller], s')"
    by (rule registered_backtrace) (use walk_unwinds walk_pool_serves in \<open>simp_all add: m cursor0_def\<close>)
  then show ?thesis by (simp add: walk_frames)
qed

end
