(* ===== verification/Unw_Catch.thy ===== *)
theory Unw_Catch
  imports Registered_Walk Unw_Jump
begin

text \<open>
  An exception that is caught: both phases of \<^verbatim>\<open>Unwind.c\<close> over the frames that registered unwind tables describe, up to a frame whose function has a
  personality routine that installs a landing pad, and the registers the code there starts with.
\<close>

section \<open>The personality routine of a frame\<close>

definition handler_at :: "nat \<Rightarrow> memory \<Rightarrow> dyn_state \<Rightarrow> cursor \<Rightarrow> u64 \<Rightarrow> bool" where
  "handler_at fuel m dyn v h = (\<exists>d f. registered_fn fuel m dyn (c_ip v - 1) d f \<and> fd_handler d = h)"

lemma get_proc_info_registered:
  assumes "table_state fuel m dyn c0 n (v # vs) as (c, L)" "handler_at fuel m dyn v h" "\<not> c_pi_valid c"
  shows "\<exists>pi. unw_get_proc_info fuel (c, L) = ret pi (c\<lparr>c_pi := pi, c_pi_valid := True, c_pi_is_dynamic := True\<rparr>, L) \<and> pi_handler pi = h"
proof -
  have s: "c_ip c = c_ip v" "c_use_prev_instr c" "m_mem (l_machine L) = m" "l_dyn L = dyn"
    using assms(1) by (simp_all add: table_state_def same_frame_def)
  obtain d f where "registered_fn fuel (m_mem (l_machine L)) (l_dyn L) (c_ip c - 1) d f" "fd_handler d = h"
    using assms(2) s by (auto simp: handler_at_def)
  from lookup_registered(1) [OF this(1), of "c\<lparr>c_pi := zero_proc_info\<rparr>"] this(2) obtain pi where
    "lookup_proc_info fuel (c_ip c - 1) False (c\<lparr>c_pi := zero_proc_info\<rparr>, L) = Ok (Ret (), True, c\<lparr>c_pi := pi\<rparr>, L)"
    "pi_format pi = UNW_INFO_FORMAT_REMOTE_TABLE" "pi_handler pi = h" by auto
  then show ?thesis using assms(3) s(2)
    by (intro exI [of _ pi]) (simp add: unw_get_proc_info_def dwarf_make_proc_info_def fetch_proc_info_def accept_proc_info_def ret_def)
qed

section \<open>Both phases\<close>

text \<open>The context of the exception \<open>e\<close> in the first of the frames.\<close>

definition exc_table ::
  "nat \<Rightarrow> memory \<Rightarrow> dyn_state \<Rightarrow> cursor \<Rightarrow> Unwind_Exception \<Rightarrow> nat \<Rightarrow> cursor list \<Rightarrow> exc_state \<Rightarrow> bool" where
  "exc_table fuel m dyn c0 e n vs x = (table_state fuel m dyn c0 n vs (map c_ip (tl vs)) (ctx_cursor (x_context x), x_lib x) \<and>
     x_exception x = e \<and> \<not> ctx_end_of_stack (x_context x))"

text \<open>A step to the next frame and the call that asks for its personality routine.\<close>

lemma exc_step_info:
  assumes "exc_table fuel m dyn c0 e n (v # w # vs) x" "handler_at fuel m dyn w h"
  shows "\<exists>x1 pi x2. on_cursor (unw_step fuel) x = Ok (Ret 1, x1) \<and> \<not> ctx_end_of_stack (x_context x1) \<and>
    on_cursor (unw_get_proc_info fuel) x1 = Ok (Ret pi, x2) \<and> pi_handler pi = h \<and>
    exc_table fuel m dyn c0 e n (w # vs) x2 \<and> c_ip (ctx_cursor (x_context x2)) = c_ip w \<and> c_pi_valid (ctx_cursor (x_context x2))"
proof -
  let ?s = "(ctx_cursor (x_context x), x_lib x)"
  have x: "table_state fuel m dyn c0 n (v # w # vs) (c_ip w # map c_ip vs) ?s" "x_exception x = e" "\<not> ctx_end_of_stack (x_context x)"
    using assms(1) by (simp_all add: exc_table_def)
  obtain c L where c: "unw_step fuel ?s = ret 1 (c, L)" "c_ip c = c_ip w" "\<not> c_pi_valid c"
    "table_state fuel m dyn c0 n (w # vs) (map c_ip vs) (c, L)"
    using tw.step_up [OF x(1)] by (auto simp: table_entered_def)
  obtain pi where pi: "unw_get_proc_info fuel (c, L) = ret pi (c\<lparr>c_pi := pi, c_pi_valid := True, c_pi_is_dynamic := True\<rparr>, L)" "pi_handler pi = h"
    using get_proc_info_registered [OF c(4) assms(2) c(3)] by blast
  have "table_state fuel m dyn c0 n (w # vs) (map c_ip vs) (c\<lparr>c_pi := pi, c_pi_valid := True, c_pi_is_dynamic := True\<rparr>, L)"
    using c(4) by (auto simp: table_state_def same_frame_def client_part_def)
  then show ?thesis using c(1,2) pi x(2,3) by (simp add: on_cursor_def ret_def exc_table_def)
qed

text \<open>The search phase stops at the first frame with a personality routine, which says that it has a handler.\<close>

lemma phase1_finds:
  assumes "exc_table fuel m dyn c0 e n (v # us @ w # ws) x" "\<forall>u\<in>set us. handler_at fuel m dyn u 0" "handler_at fuel m dyn w h" "h \<noteq> 0"
    "length us < steps"
    "\<And>x. c_ip (ctx_cursor (x_context x)) = c_ip w \<Longrightarrow> cl_personality cl h UA_SEARCH_PHASE x = Ok (URC_HANDLER_FOUND, x)"
  shows "\<exists>x'. phase1_loop steps cl fuel x = Ok (None, x') \<and> exc_table fuel m dyn c0 e n (w # ws) x'"
  using assms(1,2,5)
proof (induction us arbitrary: v x steps)
  case Nil
  then obtain s where s: "steps = Suc s" by (cases steps) auto
  show ?case using exc_step_info [OF Nil.prems(1) [simplified] assms(3)] assms(4,6) by (auto simp: s)
next
  case (Cons u us)
  then obtain s where s: "steps = Suc s" "length us < s" by (cases steps) auto
  have u: "handler_at fuel m dyn u 0" using Cons.prems(2) by simp
  from exc_step_info [OF Cons.prems(1) [unfolded append_Cons] u] obtain x1 pi x2 where
    "on_cursor (unw_step fuel) x = Ok (Ret 1, x1)" "on_cursor (unw_get_proc_info fuel) x1 = Ok (Ret pi, x2)" "pi_handler pi = 0"
    "exc_table fuel m dyn c0 e n (u # us @ w # ws) x2" by blast
  then show ?case using Cons.IH [of u x2 s] Cons.prems(2) s by simp
qed

text \<open>The cleanup phase asks the same routine, and tells it that the frame is the handler's.\<close>

lemma phase2_answer_end:
  "obind (phase2_answer fuel reason x) (\<lambda>(e, x). obind (Ok (Some e, x)) (\<lambda>(e, x). case e of Some e \<Rightarrow> Ok (e, x) | None \<Rightarrow> k x)) =
    phase2_answer fuel reason x"
  by (cases "phase2_answer fuel reason x") auto

lemma phase2_reaches:
  assumes "exc_table fuel m dyn c0 e n (v # us @ w # ws) x" "\<forall>u\<in>set us. handler_at fuel m dyn u 0" "handler_at fuel m dyn w h" "h \<noteq> 0"
    "length us < steps"
  shows "\<exists>x'. exc_table fuel m dyn c0 e n (w # ws) x' \<and> c_pi_valid (ctx_cursor (x_context x')) \<and>
    phase2_loop steps cl fuel 0 (c_ip w) UA_CLEANUP_PHASE x =
    obind (cl_personality cl h (UA_CLEANUP_PHASE OR UA_HANDLER_FRAME) x') (\<lambda>(reason, x). phase2_answer fuel reason x)"
  using assms(1,2,5)
proof (induction us arbitrary: v x steps)
  case Nil
  then obtain s where s: "steps = Suc s" by (cases steps) auto
  from exc_step_info [OF Nil.prems(1) [simplified] assms(3)] obtain x1 pi x2 where
    "on_cursor (unw_step fuel) x = Ok (Ret 1, x1)" "\<not> ctx_end_of_stack (x_context x1)" "on_cursor (unw_get_proc_info fuel) x1 = Ok (Ret pi, x2)"
    "pi_handler pi = h" "exc_table fuel m dyn c0 e n (w # ws) x2" "c_ip (ctx_cursor (x_context x2)) = c_ip w" "c_pi_valid (ctx_cursor (x_context x2))"
    by blast
  then show ?case using assms(4)
    by (intro exI [of _ x2]) (simp add: s phase2_stop_def phase2_frame_def obind_assoc split_beta phase2_answer_end [unfolded split_beta])
next
  case (Cons u us)
  then obtain s where s: "steps = Suc s" "length us < s" by (cases steps) auto
  have u: "handler_at fuel m dyn u 0" using Cons.prems(2) by simp
  from exc_step_info [OF Cons.prems(1) [unfolded append_Cons] u] obtain x1 pi x2 where
    "on_cursor (unw_step fuel) x = Ok (Ret 1, x1)" "\<not> ctx_end_of_stack (x_context x1)" "on_cursor (unw_get_proc_info fuel) x1 = Ok (Ret pi, x2)"
    "pi_handler pi = 0" "exc_table fuel m dyn c0 e n (u # us @ w # ws) x2" by blast
  then show ?case using Cons.IH [of u x2 s] Cons.prems(2) s by (simp add: phase2_stop_def phase2_frame_def)
qed

section \<open>Landing\<close>

text \<open>
  A frame whose registers can be installed: those that are not set by the routine are in memory, in their own slots of the context or outside it, and the
  return address is not in the same place as another one.
\<close>

definition landing_frame :: "cursor \<Rightarrow> bool" where
  "landing_frame w = (\<forall>r<17. uc_slot w r \<noteq> 0 \<and> (r \<notin> {RAX, RDX, RSP} \<longrightarrow> c_loc w ! r \<noteq> 0 \<and>
     (c_loc w ! r = uc_slot w r \<or> (\<forall>q<17. apart (uc_slot w q) (c_loc w ! r))) \<and> (r \<noteq> RIP \<longrightarrow> apart (c_loc w ! RIP) (c_loc w ! r))))"

text \<open>The landing pad with its arguments, as a personality routine installs it.\<close>

definition install_pad :: "u64 \<Rightarrow> u64 \<Rightarrow> u64 \<Rightarrow> exc_state \<Rightarrow> exc_state" where
  "install_pad pad ptr sel x = Unwind_SetIP pad (Unwind_SetGR (int RDX) sel (Unwind_SetGR (int RAX) ptr x))"

lemma install_pad_state:
  assumes "c = ctx_cursor (x_context x)" "c_loc c ! RIP \<noteq> 0" "L = x_lib x"
  shows "install_pad pad ptr sel x = x\<lparr>x_context := (x_context x)\<lparr>ctx_cursor := jump_cursor ptr sel pad c\<rparr>,
    x_lib := L\<lparr>l_machine := access_mem_write (l_machine L) (c_loc c ! RIP) pad\<rparr>\<rparr>"
  using assms by (simp add: install_pad_def Unwind_SetIP_def Unwind_SetGR_def unw_set_reg_def tdep_access_reg_write_def dwarf_put_def
      DWARF_IS_NULL_LOC_def jump_cursor_def access_mem_write_def)

lemma landing_resumable:
  assumes "landing_frame w" "same_frame c w" "\<not> c_validate c"
  shows "resumable (jump_cursor ptr sel pad c)"
proof -
  have "reg_in_cursor (jump_cursor ptr sel pad c) r" if "r \<in> {RAX, RDX, RSP}" for r
    using that by (auto simp: reg_in_cursor_def)
  then show ?thesis
    using assms unfolding resumable_def readable_loc_def jump_cursor_simps landing_frame_def same_frame_def by metis
qed

text \<open>The registers at the landing pad.\<close>

definition pad_regs :: "memory \<Rightarrow> cursor \<Rightarrow> u64 \<Rightarrow> u64 \<Rightarrow> u64 \<Rightarrow> nat \<Rightarrow> u64" where
  "pad_regs m w pad ptr sel r =
     (if r = RAX then ptr else if r = RDX then sel else if r = RIP then pad else if r = RSP then c_cfa w else read_word m (c_loc w ! r))"

lemma phase2_lands:
  assumes x: "exc_table fuel m dyn c0 e n (w # ws) x" "c_pi_valid (ctx_cursor (x_context x))"
    and w: "landing_frame w" "length (c_eh_args c0) = 2" "\<not> c_validate c0"
  shows "\<exists>x'. phase2_answer fuel URC_INSTALL_CONTEXT (install_pad pad ptr sel x) = Ok (Resumed, x') \<and>
    (\<forall>r<17. read_word (m_mem (l_machine (x_lib x'))) (uc_slot w r) = pad_regs m w pad ptr sel r)"
proof -
  define c L where "c = ctx_cursor (x_context x)" and "L = x_lib x"
  have c: "same_frame c w" "length (c_eh_args c) = 2" "\<not> c_validate c" "c_sigcontext_format c = X86_64_SCF_NONE" "m_mem (l_machine L) = m"
    using x(1) w(2,3) by (auto simp: exc_table_def table_state_def client_part_def c_def L_def)
  let ?c = "jump_cursor ptr sel pad c" and ?M = "access_mem_write (l_machine L) (c_loc c ! RIP) pad"
  have l: "c_loc c ! RIP \<noteq> 0" "\<forall>r<17. r \<notin> {RAX, RDX, RSP, RIP} \<longrightarrow> apart (c_loc c ! RIP) (c_loc c ! r)"
    using w(1) c(1) by (auto simp: landing_frame_def same_frame_def)
  obtain M' where M': "establish_machine_state (?c, ?M) = Ok M'"
    "\<forall>r<17. read_word (m_mem M') (uc_slot ?c r) = cursor_value (m_mem ?M) ?c r"
    using establish_resumable [OF landing_resumable [OF w(1) c(1,3)], of ptr sel pad ?M] by blast
  have "m_mem ?M = write_word m (c_loc c ! RIP) pad" by (simp add: access_mem_write_def c(5))
  note val = jump_cursor_value [OF c(2) l(2) this]
  have "c_pi_valid ?c" using x(2) by (simp add: jump_cursor_def c_def)
  then have "unw_resume fuel (?c, L\<lparr>l_machine := ?M\<rparr>) = Ok (?c, L\<lparr>l_machine := M'\<rparr>)"
    using M'(1) c(4) by (simp add: unw_resume_def x86_64_local_resume_def dwarf_make_proc_info_def fetch_proc_info_def ret_def)
  then show ?thesis using M'(2) val c(1) unfolding phase2_answer_def install_pad_state [OF c_def l(1) L_def]
    by (auto simp: cursor_value_def same_frame_def pad_regs_def)
qed

section \<open>Raising\<close>

lemma unwinds_uc: "unwinds fuel m dyn (v # vs) \<Longrightarrow> w \<in> set vs \<Longrightarrow> c_uc w = c_uc v"
  by (induction vs arbitrary: v) auto

lemma init_exc_table:
  assumes "uc \<noteq> 0" "unat uc + 256 < 2 ^ 64" "length (c_eh_args (ctx_cursor (x_context x))) = 2" "m = m_mem (l_machine (x_lib x))" "l_dyn (x_lib x) = dyn"
    "unwinds fuel m dyn (context_frame m uc # vs)" "pool_serves (n + Suc (length vs)) (x_lib x)" "\<not> ctx_end_of_stack (x_context x)"
    "c0 = (ctx_cursor (x_context x))\<lparr>c_validate := False, c_sigcontext_format := X86_64_SCF_NONE\<rparr>"
  shows "\<exists>c. unw_init_local (l_machine (x_lib x)) (ctx_cursor (x_context x)) uc = Ok (c, l_machine (x_lib x)) \<and>
    exc_table fuel m dyn c0 (x_exception x) n (context_frame m uc # vs)
      (x\<lparr>x_context := (x_context x)\<lparr>ctx_cursor := c\<rparr>, x_lib := (x_lib x)\<lparr>l_machine := l_machine (x_lib x)\<rparr>\<rparr>)"
  using init_table_state [OF assms(1-4), of fuel vs n] assms(5-9) by (auto simp: exc_table_def)

lemma setcontext_pad:
  assumes "\<forall>r<17. read_word M (uc + UC r) = pad_regs m w pad ptr sel r" "context_apart uc (c_cfa w - 8)"
    "gpr t RDI = uc" "cpu_mem t = M" "r < 17" "r \<notin> {R10, R11}"
  shows "gpr (run_code x86_64_setcontext t) r = pad_regs m w pad ptr sel r"
proof -
  have "read_word M (uc + UC RSP) = c_cfa w" using assms(1) by (simp add: pad_regs_def)
  then show ?thesis using run_setcontext(2) [OF assms(3) [symmetric] refl, of r] assms by auto
qed

text \<open>C1: an exception is caught where the tables say: let the context and the registered unwind tables describe a stack, and let the
  frame \<open>w\<close> of it be the first one behind the innermost whose function has a personality routine, one that claims the exception in the search phase
  and, told in the cleanup phase that the frame is the handler's, installs a landing pad. Then \<open>_Unwind_RaiseException\<close> ends by
  entering \<open>setcontext\<close> on a context from which \<open>setcontext\<close> goes to the landing pad, with the exception pointer and the
  selector in RAX and RDX, the stack pointer of \<open>w\<close>, and in every other register but the scratch registers R10 and R11, which it leaves alone, what
  the rows of the frames in between say that \<open>w\<close> had there.
  The pool of CIE objects has to serve both walks, which give nothing back.\<close>

theorem exception_caught:
  assumes "uc \<noteq> 0" "unat uc + 256 < 2 ^ 64" "length (c_eh_args (ctx_cursor (x_context x))) = 2"
    "L = (x_lib x)\<lparr>l_machine := cl_getcontext cl uc (l_machine (x_lib x))\<rparr>" "m = m_mem (l_machine L)"
    "unwinds fuel m (l_dyn L) (context_frame m uc # us @ w # ws)" "pool_serves (2 * length (context_frame m uc # us @ w # ws)) L"
    "\<forall>u\<in>set us. handler_at fuel m (l_dyn L) u 0" "handler_at fuel m (l_dyn L) w h" "h \<noteq> 0" "length us < steps"
    "\<And>x. c_ip (ctx_cursor (x_context x)) = c_ip w \<Longrightarrow> cl_personality cl h UA_SEARCH_PHASE x = Ok (URC_HANDLER_FOUND, x)"
    "\<And>x. c_ip (ctx_cursor (x_context x)) = c_ip w \<Longrightarrow>
      cl_personality cl h (UA_CLEANUP_PHASE OR UA_HANDLER_FRAME) x = Ok (URC_INSTALL_CONTEXT, install_pad pad ptr sel x)"
    "landing_frame w" "context_apart uc (c_cfa w - 8)"
  shows "\<exists>x'. Unwind_RaiseException cl steps fuel uc x = Ok (Resumed, x') \<and>
    (\<forall>t. gpr t RDI = uc \<and> cpu_mem t = m_mem (l_machine (x_lib x')) \<longrightarrow>
      (\<forall>r<17. r \<notin> {R10, R11} \<longrightarrow> gpr (run_code x86_64_setcontext t) r = pad_regs m w pad ptr sel r))"
proof -
  let ?fs = "context_frame m uc # us @ w # ws" and ?dyn = "l_dyn L"
  have uc: "c_uc w = uc" using unwinds_uc [OF assms(6), of w] by (simp add: context_frame_def)
  define x0 where "x0 = x\<lparr>x_context := (x_context x)\<lparr>ctx_end_of_stack := False\<rparr>, x_lib := L\<rparr>"
  define c0 where "c0 = (ctx_cursor (x_context x))\<lparr>c_validate := False, c_sigcontext_format := X86_64_SCF_NONE\<rparr>"
  have x0: "x_lib x0 = L" "ctx_cursor (x_context x0) = ctx_cursor (x_context x)" "x_exception x0 = x_exception x" "\<not> ctx_end_of_stack (x_context x0)"
    by (simp_all add: x0_def)
  have "2 * length ?fs = length ?fs + Suc (length (us @ w # ws))" by simp
  then have p: "pool_serves (length ?fs + Suc (length (us @ w # ws))) L" using assms(7) by metis
  obtain c1 where c1: "unw_init_local (l_machine L) (ctx_cursor (x_context x)) uc = Ok (c1, l_machine L)"
    "exc_table fuel m ?dyn c0 (x_exception x) (length ?fs) ?fs (x0\<lparr>x_context := (x_context x0)\<lparr>ctx_cursor := c1\<rparr>, x_lib := L\<lparr>l_machine := l_machine L\<rparr>\<rparr>)"
    using init_exc_table [OF assms(1,2), where x = x0 and n = "length ?fs", unfolded x0, OF assms(3,5) refl assms(6) p _ c0_def] x0(4)
    by auto
  let ?x1 = "x0\<lparr>x_context := (x_context x0)\<lparr>ctx_cursor := c1\<rparr>, x_lib := L\<lparr>l_machine := l_machine L\<rparr>\<rparr>"
  have init: "Unwind_InitContext cl uc x = (True, ?x1)"
    using c1(1) by (simp add: Unwind_InitContext_def Let_def assms(4) x0_def)
  obtain x2 where x2: "phase1_loop steps cl fuel ?x1 = Ok (None, x2)" "exc_table fuel m ?dyn c0 (x_exception x) (length ?fs) (w # ws) x2"
    using phase1_finds [OF c1(2) assms(8-11), of cl] assms(12) by blast
  define x3 where "x3 = x2\<lparr>x_exception := (x_exception x2)\<lparr>private_1 := 0, private_2 := c_ip w\<rparr>\<rparr>"
  have s2: "c_ip (ctx_cursor (x_context x2)) = c_ip w" "m = m_mem (l_machine (x_lib x3))" "l_dyn (x_lib x3) = ?dyn" "\<not> ctx_end_of_stack (x_context x3)"
    "length (c_eh_args (ctx_cursor (x_context x3))) = 2" "pool_serves (length (w # ws) + length ?fs) (x_lib x3)"
    using x2(2) assms(3) by (auto simp: exc_table_def table_state_def same_frame_def client_part_def c0_def x3_def add.commute)
  define c3 where "c3 = (ctx_cursor (x_context x3))\<lparr>c_validate := False, c_sigcontext_format := X86_64_SCF_NONE\<rparr>"
  obtain c4 where c4: "unw_init_local (l_machine (x_lib x3)) (ctx_cursor (x_context x3)) uc = Ok (c4, l_machine (x_lib x3))"
    "exc_table fuel m ?dyn c3 (x_exception x3) (length (w # ws)) ?fs
      (x3\<lparr>x_context := (x_context x3)\<lparr>ctx_cursor := c4\<rparr>, x_lib := (x_lib x3)\<lparr>l_machine := l_machine (x_lib x3)\<rparr>\<rparr>)"
    using init_exc_table [OF assms(1,2) s2(5,2,3) assms(6) _ s2(4) c3_def, of "length (w # ws)"] s2(6) by auto
  obtain x5 where x5: "exc_table fuel m ?dyn c3 (x_exception x3) (length (w # ws)) (w # ws) x5" "c_pi_valid (ctx_cursor (x_context x5))"
    "phase2_loop steps cl fuel 0 (c_ip w) UA_CLEANUP_PHASE
      (x3\<lparr>x_context := (x_context x3)\<lparr>ctx_cursor := c4\<rparr>, x_lib := (x_lib x3)\<lparr>l_machine := l_machine (x_lib x3)\<rparr>\<rparr>) =
      obind (cl_personality cl h (UA_CLEANUP_PHASE OR UA_HANDLER_FRAME) x5) (\<lambda>(reason, x). phase2_answer fuel reason x)"
    using phase2_reaches [OF c4(2) assms(8-11), of cl] by blast
  have "c_ip (ctx_cursor (x_context x5)) = c_ip w" using x5(1) by (simp add: exc_table_def table_state_def same_frame_def)
  then have "Unwind_RaiseException cl steps fuel uc x = phase2_answer fuel URC_INSTALL_CONTEXT (install_pad pad ptr sel x5)"
    using init x2(1) s2(1) c4(1) x5(3) assms(13) by (simp add: Unwind_RaiseException_def Unwind_Phase2_def x3_def Let_def)
  moreover have "length (c_eh_args c3) = 2" "\<not> c_validate c3" using s2(5) by (simp_all add: c3_def)
  ultimately obtain x' where x': "Unwind_RaiseException cl steps fuel uc x = Ok (Resumed, x')"
    "\<forall>r<17. read_word (m_mem (l_machine (x_lib x'))) (uc + UC r) = pad_regs m w pad ptr sel r"
    using phase2_lands [OF x5(1,2) assms(14), of pad ptr sel] uc by auto
  show ?thesis by (intro exI [of _ x'] conjI allI impI x'(1)) (use setcontext_pad [OF x'(2) assms(15)] in auto)
qed

text \<open>
  A C function at \<open>0x2220\<close>, called by a C++ function at \<open>0x2300\<close> whose personality routine, at \<open>0x5000\<close>, has a landing pad at \<open>0x2320\<close>; both are in one
  registered table.
\<close>

definition cxx_entries :: "u8 list" where
  "cxx_entries = [0x1c, 0, 0, 0, 0, 0, 0, 0, 1, 0x7a, 0x50, 0x4c, 0x52, 0, 1, 0x78, 0x10, 7, 0x9b, 0x2d, 0, 0, 0, 0x1b, 0x1b, 0x0c, 7, 8, 0x90, 1, 0, 0,
     0x18, 0, 0, 0, 0x24, 0, 0, 0, 0x58, 1, 0, 0, 0x40, 0, 0, 0, 4, 0x0f, 1, 0, 0, 0x0e, 0x10, 0x07, 6, 0, 0, 0, 0, 0, 0, 0, 0, 0x50, 0, 0, 0, 0, 0, 0]"

definition catch_mem :: memory where
  "catch_mem x = (if x = 0x8008 then 0x10 else if x = 0x8009 then 0x23
     else if 0x20c4 \<le> x \<and> x < 0x20cc then [0x50, 2, 0, 0, 0xf0, 0, 0, 0] ! unat (x - 0x20c4)
     else if 0x2180 \<le> x \<and> x < 0x21c8 then cxx_entries ! unat (x - 0x2180) else walk_mem x)"

definition catch_table :: "table_fn list" where
  "catch_table = [(0x2118, 0x14, 0x100, 0x40), (0x21a0, 0x18, 0x158, 0x40)]"

definition catch_env :: kernel_env where
  "catch_env = env0\<lparr>ke_calls := 1, ke_mem := (\<lambda>a. if a = 0x100000 then 0x10 else if a = 0x100010 then 0x20 else if a = 0x100020 then 0x30
     else if a \<in> {0x100002, 0x100012, 0x100022} then 0x10 else 0)\<rparr>"

definition catch_pool :: mempool where
  "catch_pool = pool0\<lparr>mp_reserve := 0, mp_num_free := 4, mp_free_list := 0x100000\<rparr>"

definition catch_lib :: unw_lib where
  "catch_lib = reg_lib\<lparr>l_machine := machine0\<lparr>m_mem := catch_mem\<rparr>, l_env := catch_env, l_cie_pool := catch_pool,
     l_dyn := \<lparr>ds_generation = 1, ds_first = 0x100, ds_infos = [0x100 \<mapsto> reg_di\<lparr>di_table_len := 2\<rparr>]\<rparr>\<rparr>"

definition catch_program :: "cfi_ins list" where
  "catch_program = [I_def_cfa_offset 16, I_undefined 6, I_nop, I_nop, I_nop]"

definition cxx_desc :: fn_desc where
  "cxx_desc = \<lparr>fd_cie = 0x2180, fd_cie_len = 0x1c, fd_cie_program = cie_program, fd_program = catch_program, fd_handler = 0x5000, fd_lsda = 0x22c0\<rparr>"

lemma catch_fns:
  "compiled_fn catch_mem (c_desc walk_program) (0x2118, 0x14, 0x100, 0x40)" "compiled_fn catch_mem cxx_desc (0x21a0, 0x18, 0x158, 0x40)"
proof -
  have "gcc_cie_at catch_mem 0x2100 0x14" "gcc_fde_at catch_mem 0x2118 0x2100 0x14 0x100 0x40"
    "bytes_at catch_mem 0x2111 [0x0c, 7, 8, 0x90, 1, 0, 0]" "bytes_at catch_mem 0x2129 [0x0e, 0x10, 0x86, 2, 0x60, 0x07, 6]" by code_simp+
  then show "compiled_fn catch_mem (c_desc walk_program) (0x2118, 0x14, 0x100, 0x40)" using cie_program_ok
    by (simp add: compiled_fn_def c_fn_at_def c_desc_def program_at_def cie_program_bytes walk_program_bytes) (simp add: walk_program_def)
  have "cxx_cie_at catch_mem 0x2180 0x1c" "cxx_fde_at catch_mem 0x21a0 0x2180 0x18 0x158 0x40" "indirect_pointer catch_mem 0x2193 = 0x5000"
    "relative_pointer catch_mem 0x21b1 = 0x22c0"
    "bytes_at catch_mem 0x2199 [0x0c, 7, 8, 0x90, 1, 0, 0]" "bytes_at catch_mem 0x21b5 [0x0e, 0x10, 0x07, 6, 0, 0, 0]" by code_simp+
  moreover have "program_bytes catch_program = [0x0e, 0x10, 0x07, 6, 0, 0, 0]" by (simp add: catch_program_def uleb_small)
  ultimately show "compiled_fn catch_mem cxx_desc (0x21a0, 0x18, 0x158, 0x40)" using cie_program_ok
    by (simp add: compiled_fn_def cxx_fn_at_def cxx_desc_def program_at_def cie_program_bytes) (simp add: catch_program_def)
qed

lemma catch_describes: "describes_table catch_mem (reg_di\<lparr>di_table_len := 2\<rparr>) catch_table"
proof -
  have "entry_start_ip_offset catch_mem 0x20bc 0 = 0x170 \<and> entry_fde_offset catch_mem 0x20bc 0 = 0x68 \<and>
    entry_start_ip_offset catch_mem 0x20bc (Suc 0) = 0x250 \<and> entry_fde_offset catch_mem 0x20bc (Suc 0) = 0xf0" by code_simp
  moreover have "(\<forall>i<Suc (Suc 0). P i) \<longleftrightarrow> P 0 \<and> P (Suc 0)" for P by (auto simp: less_Suc_eq)
  moreover have "(\<forall>i. (\<exists>j>i. j < Suc (Suc 0)) \<longrightarrow> P i) \<longleftrightarrow> P 0" for P by (auto simp: less_Suc_eq)
  ultimately show ?thesis
    by (simp add: describes_table_def reg_di_def index_table_def fn_start_def fn_end_def catch_table_def)
qed

lemma catch_registered:
  assumes "0x2000 \<le> ip - 1" "ip - 1 < 0x3000" "find (fn_covers (ip - 1)) catch_table = Some f"
    "f = (0x2118, 0x14, 0x100, 0x40) \<and> d = c_desc walk_program \<or> f = (0x21a0, 0x18, 0x158, 0x40) \<and> d = cxx_desc"
  shows "registered_fn 5 catch_mem (l_dyn catch_lib) (ip - 1) d f"
proof -
  have "dyn_lookup 5 (l_dyn catch_lib) (ds_first (l_dyn catch_lib)) (ip - 1) = Ok (Some (0x100, reg_di\<lparr>di_table_len := 2\<rparr>))"
    using assms(1,2) by (simp add: dyn_lookup.simps [of 5] catch_lib_def reg_di_def di_get_def)
  moreover have "length (fd_cie_program d) \<le> 5" "length (fd_program d) \<le> 5" "compiled_fn catch_mem d f"
    using assms(4) catch_fns by (auto simp: c_desc_def cxx_desc_def cie_program_def walk_program_def catch_program_def)
  ultimately show ?thesis unfolding registered_fn_def using catch_describes assms(3) by blast
qed

lemma catch_cover:
  "find (fn_covers (0x2230 - 1)) catch_table = Some (0x2118, 0x14, 0x100, 0x40)" "find (fn_covers (0x2310 - 1)) catch_table = Some (0x21a0, 0x18, 0x158, 0x40)"
  by (simp_all add: catch_table_def fn_covers_def fn_start_def fn_end_def)

lemma catch_words: "read_word catch_mem 0x60b0 = 0x2230" "read_word catch_mem 0x60c8 = 0x8000" "read_word catch_mem 0x8008 = 0x2310"
  by code_simp+

text \<open>The frame of the C++ function.\<close>

definition catch_frame :: cursor where
  "catch_frame = (context_frame catch_mem 0x6000)\<lparr>c_ip := 0x2310, c_cfa := 0x8010,
     c_loc := (map (\<lambda>off. 0x6000 + off) uc_mcontext_gregs)[6 := 0x8000, 16 := 0x8008]\<rparr>"

lemma catch_caller: "row_caller catch_mem (fn_row (c_desc walk_program) 0x2220 0x2230) (context_frame catch_mem 0x6000) = catch_frame"
proof -
  let ?R = "fn_row (c_desc walk_program) 0x2220 0x2230" and ?s = "rule DWARF_WHERE_SAME 0"
  have R: "take 17 ?R = [?s, ?s, ?s, ?s, ?s, ?s, rule DWARF_WHERE_CFAREL (- 16), ?s, ?s, ?s, ?s, ?s, ?s, ?s, ?s, ?s, rule DWARF_WHERE_CFAREL (- 8)]"
    unfolding walk_rows by (simp add: eval_nat_numeral)
  have "sl_val (?R ! 17) = 7" "sl_val (?R ! 18) = 16" unfolding walk_rows by simp_all
  then show ?thesis
    by (simp add: row_caller_def R cfa_base_def catch_frame_def context_frame_def catch_words rule_loc_def Let_def uc_mcontext_gregs_def cursor0_def)
qed

lemma catch_row: "fn_row cxx_desc 0x2300 0x2310 = (replicate 19 (rule DWARF_WHERE_SAME 0))
    [17 := rule DWARF_WHERE_REG 7, 18 := rule DWARF_WHERE_UNDEF 8, 16 := rule DWARF_WHERE_CFAREL (- 8),
     18 := rule DWARF_WHERE_UNDEF 16, 6 := rule DWARF_WHERE_UNDEF 0]"
  by (simp add: fn_row_def cxx_desc_def cie_program_def catch_program_def fn_dci_def init_state_record_def DWARF_NUM_PRESERVED_REGS_def)

lemma catch_unwinds: "unwinds 5 catch_mem (l_dyn catch_lib) [context_frame catch_mem 0x6000, catch_frame]"
proof -
  let ?v = "context_frame catch_mem 0x6000"
  have v: "c_ip ?v = 0x2230" "c_cfa ?v = 0x8000" "length (c_loc ?v) = 17" by (simp_all add: context_frame_def catch_words uc_mcontext_gregs_def)
  have w: "c_ip catch_frame = 0x2310" "c_cfa catch_frame = 0x8010" "c_loc catch_frame ! 6 = 0x8000" "c_loc catch_frame ! 16 = 0x8008"
    "length (c_loc catch_frame) = 17" by (simp_all add: catch_frame_def uc_mcontext_gregs_def)
  have p: "PAGE_START 0x8008 \<noteq> 0" "PAGE_START 0x8018 \<noteq> 0" by (simp_all add: PAGE_START_def)
  have "registered_row 5 catch_mem (l_dyn catch_lib) (0x2230 - 1) 0x2230 (fn_row (c_desc walk_program) 0x2220 0x2230)"
    unfolding registered_row_def using catch_registered [OF _ _ catch_cover(1)] by (force simp: fn_start_def)
  moreover have "row_applies catch_mem (fn_row (c_desc walk_program) 0x2220 0x2230) ?v"
    using p(1) by (simp add: row_applies_def catch_caller w v Let_def base_readable_def) (simp add: walk_rows)
  moreover have "registered_row 5 catch_mem (l_dyn catch_lib) (0x2310 - 1) 0x2310 (fn_row cxx_desc 0x2300 0x2310)"
    unfolding registered_row_def using catch_registered [OF _ _ catch_cover(2)] by (force simp: fn_start_def)
  moreover define u where "u = row_caller catch_mem (fn_row cxx_desc 0x2300 0x2310) catch_frame"
  have u: "c_cfa u = 0x8020" "c_loc u ! 6 = 0" "c_loc u ! 16 = 0x8018"
    using w unfolding u_def catch_row by (simp_all add: row_caller_def cfa_base_def Let_def rule_loc_def)
  then have "row_applies catch_mem (fn_row cxx_desc 0x2300 0x2310) catch_frame"
    using p(2) by (simp add: row_applies_def u_def [symmetric] w Let_def base_readable_def) (simp add: catch_row)
  ultimately show ?thesis using catch_caller u v w by (auto simp: no_progress_def u_def)
qed

lemma apart_words:
  assumes "unat a + 8 \<le> unat b \<or> unat b + 8 \<le> unat a" "unat a + 8 \<le> 2 ^ 64" "unat b + 8 \<le> 2 ^ 64"
  shows "apart a b"
proof -
  have "unat (x + word_of_nat i) = unat x + i" if "unat x + 8 \<le> 2 ^ 64" "i < 8" for x :: u64 and i
    using that by (simp add: unat_word_ariths unat_of_nat)
  then have "unat (a + word_of_nat i) \<noteq> unat (b + word_of_nat j)" if "i < 8" "j < 8" for i j using assms that by force
  then show ?thesis unfolding apart_def by metis
qed

lemma catch_slots:
  assumes "r < 17"
  shows "map (\<lambda>off. 0x6000 + off) uc_mcontext_gregs ! r = 0x6000 + UC r" "0x6000 + UC r \<noteq> 0" "apart (0x6000 + UC r) 0x8000" "apart (0x6000 + UC r) 0x8008"
proof -
  have l: "length uc_mcontext_gregs = 17" by (simp add: uc_mcontext_gregs_def)
  then show "map (\<lambda>off. 0x6000 + off) uc_mcontext_gregs ! r = 0x6000 + UC r" using assms by simp
  have "\<forall>a\<in>set uc_mcontext_gregs. 0x6000 + a \<noteq> 0 \<and> unat (0x6000 + a) + 8 \<le> 0x8000" by (simp add: uc_mcontext_gregs_def)
  then have s: "0x6000 + UC r \<noteq> 0" "unat (0x6000 + UC r) + 8 \<le> 0x8000" using assms l by auto
  then show "0x6000 + UC r \<noteq> 0" "apart (0x6000 + UC r) 0x8000" "apart (0x6000 + UC r) 0x8008" by (auto intro!: apart_words)
qed

lemma catch_landing: "landing_frame catch_frame"
proof -
  have w: "c_uc catch_frame = 0x6000" "c_loc catch_frame = (map (\<lambda>off. 0x6000 + off) uc_mcontext_gregs)[6 := 0x8000, 16 := 0x8008]"
    by (simp_all add: catch_frame_def context_frame_def)
  have l: "length uc_mcontext_gregs = 17" by (simp add: uc_mcontext_gregs_def)
  have "apart 0x8008 (0x8000 :: u64)" by (rule apart_words) simp_all
  then show ?thesis using catch_slots(2-4) apart_sym [OF catch_slots(4)] l
    by (auto simp: landing_frame_def w nth_list_update catch_slots(1))
qed

lemma catch_pool_serves: "pool_serves (Suc (Suc (Suc (Suc 0)))) catch_lib"
proof -
  have words: "read_word (ke_mem catch_env) 0x100000 = 0x100010" "read_word (ke_mem catch_env) 0x100010 = 0x100020"
    "read_word (ke_mem catch_env) 0x100020 = 0x100030" "read_word (ke_mem catch_env) 0x100030 = 0"
    by (simp_all add: catch_env_def read_word_bytes)
  have "env_inv catch_env" using env0_inv by (simp add: catch_env_def env_inv_def malloc_ok_def)
  moreover have "pool_shape catch_pool" by (simp add: pool_shape_def catch_pool_def pool0_def)
  moreover have "owned catch_env x" if "x \<in> {0x100000, 0x100010, 0x100020, 0x100030}" for x
    using that by (auto simp: owned_def aligned16_def catch_env_def env0_def in_chunk_def intro!: exI [of _ "4096 :: u64"])
  then have "pool_list catch_env catch_pool [0x100000, 0x100010, 0x100020, 0x100030]"
    by (simp add: pool_list_def words) (simp add: catch_pool_def)
  ultimately have "pool_inv (catch_env, catch_pool)" by (auto simp: pool_inv_def)
  moreover have "is_Ok (mempool_allocs (Suc (Suc (Suc (Suc 0)))) (catch_env, catch_pool))"
    by (simp add: mempool_alloc_def catch_pool_def pool0_def words is_Ok_def Let_def)
  ultimately show ?thesis by (simp add: pool_serves_def catch_lib_def)
qed

definition catch_client :: client where
  "catch_client = client0\<lparr>cl_personality := (\<lambda>h a x. if a = UA_SEARCH_PHASE then Ok (URC_HANDLER_FOUND, x)
     else Ok (URC_INSTALL_CONTEXT, install_pad 0x2320 0x7000 1 x))\<rparr>"

theorem exception_caught_witness:
  "\<exists>x'. Unwind_RaiseException catch_client 1 5 0x6000 (exc_state0\<lparr>x_lib := catch_lib\<rparr>) = Ok (Resumed, x') \<and>
     (\<forall>t. gpr t RDI = 0x6000 \<and> cpu_mem t = m_mem (l_machine (x_lib x')) \<longrightarrow>
        map (gpr (run_code x86_64_setcontext t)) [RIP, RSP, RAX, RDX] = [0x2320, 0x8010, 0x7000, 1])"
proof -
  let ?x = "exc_state0\<lparr>x_lib := catch_lib\<rparr>"
  have m: "m_mem (l_machine catch_lib) = catch_mem" by (simp add: catch_lib_def)
  have cl: "cl_getcontext catch_client uc M = M" for uc M by (simp add: catch_client_def client0_def)
  have p: "pool_serves (2 * length [context_frame catch_mem 0x6000, catch_frame]) catch_lib" using catch_pool_serves by (simp add: numeral_2_eq_2)
  have h: "handler_at 5 catch_mem (l_dyn catch_lib) catch_frame 0x5000"
    unfolding handler_at_def using catch_registered [OF _ _ catch_cover(2)] by (force simp: catch_frame_def cxx_desc_def)
  have a: "context_apart 0x6000 (c_cfa catch_frame - 8)" using catch_slots(4) by (simp add: context_apart_def catch_frame_def)
  have "\<exists>x'. Unwind_RaiseException catch_client 1 5 0x6000 ?x = Ok (Resumed, x') \<and>
    (\<forall>t. gpr t RDI = 0x6000 \<and> cpu_mem t = m_mem (l_machine (x_lib x')) \<longrightarrow>
      (\<forall>r<17. r \<notin> {R10, R11} \<longrightarrow> gpr (run_code x86_64_setcontext t) r = pad_regs catch_mem catch_frame 0x2320 0x7000 1 r))"
    by (rule exception_caught [where L = catch_lib and us = "[]" and ws = "[]" and h = "0x5000"])
       (use catch_unwinds catch_landing p h a in
        \<open>simp_all add: m cl exc_state0_def cursor0_def catch_client_def client0_def UA_SEARCH_PHASE_def UA_CLEANUP_PHASE_def UA_HANDLER_FRAME_def\<close>)
  then show ?thesis by (auto simp: pad_regs_def catch_frame_def)
qed

end
