(* ===== verification/Cursor_Type.thy ===== *)
theory Cursor_Type
  imports Unw_Step
begin

text \<open>
  The declared type of a cursor: the sizes of its two arrays and the widths of the signed bit-fields of
  its frame record, which the lists and integers of the model do not carry. Every call of the stepping
  interface keeps them and the context the cursor was made for, whatever it returns.
\<close>

section \<open>Well-typed cursors\<close>

definition field_fits :: "nat \<Rightarrow> int \<Rightarrow> bool" where
  "field_fits n v = (- (2 ^ (n - 1)) \<le> v \<and> v < 2 ^ (n - 1))"

definition frame_typed :: "unw_tdep_frame_t \<Rightarrow> bool" where
  "frame_typed f = (field_fits 30 (cfa_reg_offset f) \<and> field_fits 15 (rbp_cfa_offset f) \<and> field_fits 15 (rsp_cfa_offset f))"

definition cursor_typed :: "cursor \<Rightarrow> bool" where
  "cursor_typed c = (length (c_loc c) = DWARF_NUM_PRESERVED_REGS \<and> length (c_eh_args c) = 2 \<and> frame_typed (c_frame_info c))"

text \<open>The type kept from one cursor to another, with the context.\<close>

definition keeps_type :: "cursor \<Rightarrow> cursor \<Rightarrow> bool" where
  "keeps_type c c' = (c_uc c' = c_uc c \<and> (cursor_typed c \<longrightarrow> cursor_typed c'))"

lemma keeps_type_refl [simp]: "keeps_type c c"
  by (simp add: keeps_type_def)

lemma keeps_type_trans [trans]: "keeps_type c c' \<Longrightarrow> keeps_type c' c'' \<Longrightarrow> keeps_type c c''"
  by (simp add: keeps_type_def)

text \<open>The fields that the type does not depend on.\<close>

lemma cursor_typed_simps [simp]:
  "cursor_typed (c\<lparr>c_cfa := a\<rparr>) = cursor_typed c" "cursor_typed (c\<lparr>c_ip := a\<rparr>) = cursor_typed c"
  "cursor_typed (c\<lparr>c_pi := p\<rparr>) = cursor_typed c" "cursor_typed (c\<lparr>c_pi_valid := b\<rparr>) = cursor_typed c"
  "cursor_typed (c\<lparr>c_validate := b\<rparr>) = cursor_typed c"
  "cursor_typed (c\<lparr>c_validate := b, c_sigcontext_format := f\<rparr>) = cursor_typed c"
  by (simp_all add: cursor_typed_def)

text \<open>Two cursors that agree on the fields with a type of their own.\<close>

lemma keeps_type_same:
  "length (c_loc c') = length (c_loc c) \<Longrightarrow> length (c_eh_args c') = length (c_eh_args c) \<Longrightarrow>
   c_frame_info c' = c_frame_info c \<Longrightarrow> c_uc c' = c_uc c \<Longrightarrow> keeps_type c c'"
  by (simp add: keeps_type_def cursor_typed_def)

lemma keeps_type_locs:
  "length (c_loc c') = DWARF_NUM_PRESERVED_REGS \<Longrightarrow> length (c_eh_args c') = length (c_eh_args c) \<Longrightarrow>
   (frame_typed (c_frame_info c) \<Longrightarrow> frame_typed (c_frame_info c')) \<Longrightarrow> c_uc c' = c_uc c \<Longrightarrow> keeps_type c c'"
  by (simp add: keeps_type_def cursor_typed_def)

lemma gregs_length [simp]: "length uc_mcontext_gregs = DWARF_NUM_PRESERVED_REGS"
  by (simp add: uc_mcontext_gregs_def DWARF_NUM_PRESERVED_REGS_def)

lemma null_locs_length [simp]: "length null_locs = DWARF_NUM_PRESERVED_REGS"
  by (simp add: null_locs_def)

section \<open>The DWARF step\<close>

lemma bit_field_fits: "0 < n \<Longrightarrow> field_fits n (bit_field n v)"
  using signed_take_bit_int_greater_eq_minus_exp [of "n - 1" "sint v"] signed_take_bit_int_less_exp [of "n - 1" "sint v"]
  by (simp add: field_fits_def bit_field_def)

lemma stash_standard_typed: "frame_typed f \<Longrightarrow> frame_typed (stash_standard rs f)"
  by (simp add: frame_typed_def stash_standard_def Let_def bit_field_fits)

lemma stash_frame_keeps: "tdep_stash_frame c rs = Ok c' \<Longrightarrow> keeps_type c c'"
  by (auto simp: tdep_stash_frame_def keeps_type_def cursor_typed_def stash_standard_typed Let_def split: if_splits)

lemma apply_reg_keeps: "apply_reg fuel rs cfa i (c, M) = Ok (x, c', M') \<Longrightarrow> keeps_type c c'"
  by (rule keeps_type_same; cases "sl_where (rs_reg rs ! i)") (auto simp: apply_reg_def cbind_eq_Ok)

lemma apply_regs_keeps: "apply_regs fuel rs cfa is (c, M) = Ok (x, c', M') \<Longrightarrow> keeps_type c c'"
  by (induction "is" arbitrary: c M) (auto simp: cbind_eq_Ok dest: apply_reg_keeps intro: keeps_type_trans)

lemma apply_ip_keeps: "apply_ip (c, M) = Ok (x, c', M') \<Longrightarrow> keeps_type c c'"
  by (rule keeps_type_same) (auto simp: apply_ip_def Let_def cbind_eq_Ok split: if_splits)

lemma apply_reg_state_keeps:
  "apply_reg_state fuel rs (c, M) = Ok (x, c', M') \<Longrightarrow> keeps_type c c'"
  by (auto simp: apply_reg_state_def Let_def cbind_eq_Ok keeps_type_def split: if_splits
      dest!: apply_regs_keeps apply_ip_keeps stash_frame_keeps)

lemma fetch_proc_info_type:
  assumes "fetch_proc_info fuel ip need (c, L) = Ok (x, c', L')"
  shows "keeps_type c c'"
proof -
  have l: "keeps_type d d'" if "lookup_proc_info fuel ip' need (d, L1) = Ok (r, dyn, d', L2)" for r dyn d d' L1 L2 ip'
    using that by (intro keeps_type_same) (auto simp: lookup_proc_info_def Let_def split: prod.splits if_splits)
  have a: "keeps_type d d'" if "accept_proc_info need r dyn (d, L1) = Ok (x, d', L2)" for r dyn d d' L1 L2
    using that by (intro keeps_type_same; cases "pi_unwind_info (c_pi d)") (auto simp: accept_proc_info_def Let_def split: if_splits)
  have "keeps_type c (c\<lparr>c_pi := zero_proc_info\<rparr>)" by (rule keeps_type_same) simp_all
  with assms show ?thesis
    by (auto simp: fetch_proc_info_def Let_def split: if_splits dest!: l a intro: keeps_type_trans)
qed

lemma lib_state_record_type:
  assumes "lib_state_record fuel (c, L) = Ok (x, c', L')"
  shows "keeps_type c c'"
proof -
  from assms obtain e sr env pool where
      "create_state_record_for fuel (m_mem (l_machine L)) c (c_ip c) (l_env L, l_rs_pool L) = Ok (e, sr, c', env, pool)"
    by (auto simp: lib_state_record_def Let_def split: option.splits)
  then show ?thesis by (intro keeps_type_same) (auto dest!: create_state_record_cursor)
qed

lemma put_unwind_info_type: "put_unwind_info (c, L) = Ok (c', L') \<Longrightarrow> keeps_type c c'"
  by (rule keeps_type_same; cases "pi_unwind_info (c_pi c)") (auto simp: put_unwind_info_def Let_def split: if_splits prod.splits)

lemma dwarf_step_type:
  "dwarf_step fuel (c, L) = Ok (x, c', L') \<Longrightarrow> keeps_type c c'"
  by (auto simp: dwarf_step_def dwarf_find_save_locs_def uncached_dwarf_find_save_locs_def cbind_eq_Ok on_machine_eq keeps_type_def
      dest!: fetch_proc_info_type lib_state_record_type apply_reg_state_keeps put_unwind_info_type)

section \<open>The step without information\<close>

lemma is_signal_frame_keeps: "unw_is_signal_frame (c, M) = (b, c', M') \<Longrightarrow> keeps_type c c'"
  by (rule keeps_type_same) (auto simp: unw_is_signal_frame_def Let_def split: outcome.splits reply.splits prod.splits)

lemma handle_signal_frame_keeps: "unw_handle_signal_frame (c, M) = Ok (x, c', M') \<Longrightarrow> keeps_type c c'"
  unfolding keeps_type_def cursor_typed_def
  by (auto simp: unw_handle_signal_frame_def Let_def cbind_eq_Ok split: if_splits)

lemma is_plt_entry_cursor: "is_plt_entry (c, M) = (b, c', M') \<Longrightarrow> c' = c"
  by (auto simp: is_plt_entry_def split: outcome.splits prod.splits)

lemma guess_frame_keeps: "guess_frame rbp (c, M) = Ok (r, l, l', c', M') \<Longrightarrow> keeps_type c c'"
  unfolding keeps_type_def cursor_typed_def frame_typed_def field_fits_def
  by (auto simp: guess_frame_def Let_def split: outcome.splits prod.splits)

lemma step_without_dwarf_keeps:
  assumes "step_without_dwarf (c, M) = Ok (x, c', M')"
  shows "keeps_type c c'"
proof -
  obtain b d M1 where s: "unw_is_signal_frame (c, M) = (b, d, M1)" by (metis prod_cases3)
  obtain p e M2 where p: "is_plt_entry (d, M1) = (p, e, M2)" by (metis prod_cases3)
  have e: "e = d" by (rule is_plt_entry_cursor [OF p])
  have null: "keeps_type g (g\<lparr>c_loc := null_locs\<rparr>)" for g by (rule keeps_type_locs) simp_all
  have guessed: "keeps_type g (g\<lparr>c_loc := null_locs[RBP := l1, RSP := DWARF_NULL_LOC, RIP := l2]\<rparr>)" for g l1 l2
    by (rule keeps_type_locs) simp_all
  have plt: "keeps_type g (g\<lparr>c_frame_info := (c_frame_info g)\<lparr>cfa_reg_offset := 8, cfa_reg_rsp := True,
      frame_type := UNW_X86_64_FRAME_STANDARD\<rparr>, c_loc := (c_loc g)[RIP := c_cfa g], c_cfa := c_cfa g + 8\<rparr>)" for g
    by (simp add: keeps_type_def cursor_typed_def frame_typed_def field_fits_def)
  have "keeps_type d c'" using assms
    by (auto simp: step_without_dwarf_def Let_def s p e cbind_eq_Ok split: if_splits
        dest!: handle_signal_frame_keeps guess_frame_keeps intro: keeps_type_trans null guessed plt)
  with is_signal_frame_keeps [OF s] show ?thesis by (rule keeps_type_trans)
qed

lemma finish_step_keeps: "finish_step r ip cfa (c, M) = Ok (x, c', M') \<Longrightarrow> keeps_type c c'"
  by (rule keeps_type_same) (auto simp: finish_step_def Let_def cbind_eq_Ok split: if_splits)

lemma unw_step_keeps:
  assumes "unw_step fuel (c, L) = Ok (x, c', L')"
  shows "keeps_type c c'"
proof -
  from assms obtain r d L1 where d: "dwarf_step fuel (c\<lparr>c_validate := True, c_sigcontext_format := X86_64_SCF_NONE\<rparr>, L) = Ok (r, d, L1)"
    by (auto simp: unw_step_def Let_def)
  have c: "keeps_type c d" using dwarf_step_type [OF d] by (simp add: keeps_type_def)
  have v: "keeps_type g (g\<lparr>c_ip := i, c_validate := b\<rparr>)" for g i b by (rule keeps_type_same) simp_all
  have "keeps_type d c'" using assms
    by (cases r) (auto simp: unw_step_def Let_def d on_machine_eq cbind_eq_Ok keeps_type_def v [unfolded keeps_type_def]
        split: if_splits option.splits dest!: step_without_dwarf_keeps finish_step_keeps)
  with c show ?thesis by (rule keeps_type_trans)
qed

section \<open>The life of a cursor\<close>

lemma set_reg_keeps: "unw_set_reg M c r v = (x, c') \<Longrightarrow> keeps_type c c'"
  by (rule keeps_type_same) (auto simp: unw_set_reg_def tdep_access_reg_write_def Let_def split: if_splits)

lemma get_proc_info_keeps:
  assumes "unw_get_proc_info fuel (c, L) = Ok (x, c', L')"
  shows "keeps_type c c'"
proof -
  from assms obtain r d L1 where f: "fetch_proc_info fuel (c_ip c) False (c, L) = Ok (r, d, L1)"
    by (auto simp: unw_get_proc_info_def dwarf_make_proc_info_def)
  then have "d = c'" using assms
    by (cases r) (simp_all add: unw_get_proc_info_def dwarf_make_proc_info_def)
  with f have "fetch_proc_info fuel (c_ip c) False (c, L) = Ok (r, c', L1)" by simp
  then show ?thesis by (rule fetch_proc_info_type)
qed

lemma init_local_typed:
  assumes "unw_init_local M c uc = Ok (c', M')" "cursor_typed c"
  shows "cursor_typed c' \<and> c_uc c' = uc"
  using assms by (auto simp: unw_init_local_def common_init_def cursor_typed_def Let_def)

text \<open>
  The states a client reaches from a cursor it declared and initialised on the context \<open>uc\<close>: by steps and
  lookups whatever they return, and by register writes, of which one to RIP may fail after it has changed the cursor.
\<close>

inductive cursor_run :: "cursor \<Rightarrow> addr \<Rightarrow> lib_state \<Rightarrow> bool" for c0 :: cursor and uc :: addr where
  run_init: "unw_init_local (l_machine L) c0 uc = Ok (c, M) \<Longrightarrow> cursor_run c0 uc (c, L\<lparr>l_machine := M\<rparr>)"
| run_step: "cursor_run c0 uc s \<Longrightarrow> unw_step fuel s = Ok (r, s') \<Longrightarrow> cursor_run c0 uc s'"
| run_info: "cursor_run c0 uc s \<Longrightarrow> unw_get_proc_info fuel s = Ok (r, s') \<Longrightarrow> cursor_run c0 uc s'"
| run_write: "cursor_run c0 uc (c, L) \<Longrightarrow> unw_set_reg (l_machine L) c r v = (Ok M, c') \<Longrightarrow>
    cursor_run c0 uc (c', L\<lparr>l_machine := M\<rparr>)"
| run_no_write: "cursor_run c0 uc (c, L) \<Longrightarrow> unw_set_reg (l_machine L) c r v = (Fail e, c') \<Longrightarrow> cursor_run c0 uc (c', L)"

lemma keeps_typeD: "keeps_type c c' \<Longrightarrow> cursor_typed c \<and> c_uc c = uc \<Longrightarrow> cursor_typed c' \<and> c_uc c' = uc"
  by (simp add: keeps_type_def)



end
